(* ===== verification/Prelude.thy ===== *)
theory Prelude
  imports Complex_Main "HOL-Library.AList" "HOL-Library.Sublist" "HOL-Library.Char_ord"
    "HOL-Library.List_Lexorder"
begin

text \<open>
  Shared vocabulary of the development: Python's exceptions, insertion-ordered
  dictionaries, and the string methods the gateway uses.

  A Python \<open>str\<close> is modelled as a HOL \<open>string\<close> whose characters are the code
  points 0 to 255 (Latin-1), so \<open>lower\<close>, \<open>strip\<close> and \<open>split\<close> are
  written out for that whole range and agree with Python on it.  A \<open>dict\<close> is an
  association list with distinct keys: assigning to an existing key keeps its position,
  a new key goes to the end, which is the iteration order the code relies on.
\<close>

named_theorems py_simps \<open>unfolding rules for the Python library functions\<close>

section \<open>Exceptions\<close>

datatype exn =
    RuntimeError string
  | TimeoutError
  | QueueFull
  | QueueEmpty
  | BufferOverflowError
  | ValueError
  | KeyError
  | IndexError
  | TypeError
  | OSError string
  | CancelledError
  | HTTPException nat string
  | OtherError string

section \<open>Dictionaries\<close>

type_synonym ('k, 'v) dict = "('k \<times> 'v) list"

abbreviation dict_get :: "('k, 'v) dict \<Rightarrow> 'k \<Rightarrow> 'v option" where
  "dict_get d k \<equiv> map_of d k"

abbreviation dict_set :: "('k, 'v) dict \<Rightarrow> 'k \<Rightarrow> 'v \<Rightarrow> ('k, 'v) dict" where
  "dict_set d k v \<equiv> AList.update k v d"

abbreviation dict_pop :: "('k, 'v) dict \<Rightarrow> 'k \<Rightarrow> ('k, 'v) dict" where
  "dict_pop d k \<equiv> AList.delete k d"

abbreviation dict_keys :: "('k, 'v) dict \<Rightarrow> 'k list" where
  "dict_keys d \<equiv> map fst d"

text \<open>\<open>{**a, **b}\<close>: the entries of \<open>b\<close> are assigned one after the other.\<close>

definition dict_merge :: "('k, 'v) dict \<Rightarrow> ('k, 'v) dict \<Rightarrow> ('k, 'v) dict" where
  "dict_merge a b = fold (\<lambda>(k, v) d. dict_set d k v) b a"

lemma dict_get_set [simp]:
  "dict_get (dict_set d k v) k' = (if k' = k then Some v else dict_get d k')"
  by (simp add: update_conv)

lemma dict_keys_set:
  "dict_keys (dict_set d k v) = (if k \<in> set (dict_keys d) then dict_keys d else dict_keys d @ [k])"
  by (induction d) auto

lemma distinct_dict_set [simp]: "distinct (dict_keys d) \<Longrightarrow> distinct (dict_keys (dict_set d k v))"
  by (simp add: dict_keys_set)

lemma dict_get_pop [simp]: "dict_get (dict_pop d k) k' = (if k' = k then None else dict_get d k')"
  by (simp add: delete_conv)

lemma set_dict_set: "set (dict_set d k v) \<subseteq> insert (k, v) (set d)"
  by (induction d) auto

lemma dict_get_None_iff: "dict_get d k = None \<longleftrightarrow> k \<notin> set (dict_keys d)"
  by (simp add: map_of_eq_None_iff)

lemma dict_get_merge:
  "dict_get (dict_merge a b) k = (case map_of (rev b) k of None \<Rightarrow> dict_get a k | Some v \<Rightarrow> Some v)"
proof (induction b rule: rev_induct)
  case Nil
  show ?case by (simp add: dict_merge_def)
next
  case (snoc p b)
  then show ?case by (cases p) (auto simp: dict_merge_def)
qed

section \<open>Lists\<close>

lemma find_append: "find P (xs @ ys) = (case find P xs of None \<Rightarrow> find P ys | Some x \<Rightarrow> Some x)"
  by (induction xs) auto

lemma find_SomeD: "find P xs = Some x \<Longrightarrow> P x \<and> x \<in> set xs"
  by (induction xs) (auto split: if_splits)

lemma nth_upd: "(xs[i := v]) ! j = (if j = i \<and> i < length xs then v else xs ! j)"
  by (cases "i < length xs") (auto simp: nth_list_update list_update_beyond)

lemma sorted_wrt_remove1: "sorted_wrt P (map g xs) \<Longrightarrow> sorted_wrt P (map g (remove1 x xs))"
proof (induction xs)
  case Nil
  then show ?case by simp
next
  case (Cons y ys)
  then show ?case using set_remove1_subset [of x ys] by auto
qed

lemma length_filter_neq:
  "distinct xs \<Longrightarrow> x \<in> set xs \<Longrightarrow> Suc (length (filter (\<lambda>y. y \<noteq> x) xs)) = length xs"
proof (induction xs)
  case Nil
  then show ?case by simp
next
  case (Cons y ys)
  show ?case
  proof (cases "y = x")
    case True
    with Cons have "filter (\<lambda>y. y \<noteq> x) ys = ys" by (simp add: filter_id_conv) blast
    with True show ?thesis by simp
  next
    case False
    with Cons show ?thesis by simp
  qed
qed

text \<open>The last \<open>n\<close> elements of a list: what a bounded buffer keeps of its history.\<close>

definition last_n :: "nat \<Rightarrow> 'a list \<Rightarrow> 'a list" where
  "last_n n xs = drop (length xs - n) xs"

lemma length_last_n [simp]: "length (last_n n xs) = min n (length xs)"
  by (simp add: last_n_def)

lemma last_n_all: "length xs \<le> n \<Longrightarrow> last_n n xs = xs"
  by (simp add: last_n_def)

lemma last_n_snoc: "last_n (Suc n) (xs @ [x]) = last_n n xs @ [x]"
  by (simp add: last_n_def)

lemma set_last_n: "set (last_n n xs) \<subseteq> set xs"
  by (simp add: last_n_def set_drop_subset)

lemma distinct_last_n: "distinct xs \<Longrightarrow> distinct (last_n n xs)"
  by (simp add: last_n_def)

section \<open>Strings\<close>

abbreviation code :: "char \<Rightarrow> nat" where
  "code c \<equiv> of_char c"

text \<open>\<open>str.isspace\<close> on Latin-1.\<close>

definition is_space :: "char \<Rightarrow> bool" where
  "is_space c = (let n = code c in (9 \<le> n \<and> n \<le> 13) \<or> (28 \<le> n \<and> n \<le> 32) \<or> n = 133 \<or> n = 160)"

text \<open>\<open>str.lower\<close> on Latin-1: the ASCII capitals and the accented ones except \<open>0xD7\<close>.\<close>

definition lower_char :: "char \<Rightarrow> char" where
  "lower_char c = (let n = code c in
     if (65 \<le> n \<and> n \<le> 90) \<or> (192 \<le> n \<and> n \<le> 214) \<or> (216 \<le> n \<and> n \<le> 222)
     then char_of (n + 32) else c)"

definition py_lower :: "string \<Rightarrow> string" where
  "py_lower s = map lower_char s"

definition lstrip :: "string \<Rightarrow> string" where
  "lstrip s = dropWhile is_space s"

definition rstrip :: "string \<Rightarrow> string" where
  "rstrip s = rev (dropWhile is_space (rev s))"

definition py_strip :: "string \<Rightarrow> string" where
  "py_strip s = rstrip (lstrip s)"

text \<open>\<open>needle in hay\<close> for strings.\<close>

definition str_in :: "string \<Rightarrow> string \<Rightarrow> bool" where
  "str_in needle hay = sublist needle hay"

text \<open>\<open>s.split(c)\<close> for a one-character separator (never empty), \<open>s.split()\<close>, and
  \<open>sep.join(parts)\<close>.\<close>

fun split_char :: "char \<Rightarrow> string \<Rightarrow> string list" where
  "split_char c [] = [[]]"
| "split_char c (x # xs) =
     (if x = c then [] # split_char c xs
      else (case split_char c xs of [] \<Rightarrow> [[x]] | w # ws \<Rightarrow> (x # w) # ws))"

function split_ws :: "string \<Rightarrow> string list" where
  "split_ws s = (case lstrip s of [] \<Rightarrow> []
     | t \<Rightarrow> takeWhile (\<lambda>c. \<not> is_space c) t # split_ws (dropWhile (\<lambda>c. \<not> is_space c) t))"
  by pat_completeness auto
termination
proof (relation "measure length")
  show "wf (measure (length :: string \<Rightarrow> nat))" by simp
next
  fix s :: string and c cs
  assume a: "lstrip s = c # cs"
  then have "\<not> is_space c"
    by (metis hd_dropWhile list.discI list.sel(1) lstrip_def)
  then have "length (dropWhile (\<lambda>c. \<not> is_space c) (c # cs)) < length (c # cs)"
    by (simp add: le_imp_less_Suc length_dropWhile_le)
  also have "\<dots> \<le> length s"
    by (metis a length_dropWhile_le lstrip_def)
  finally show "(dropWhile (\<lambda>c. \<not> is_space c) (c # cs), s) \<in> measure length" by simp
qed

declare split_ws.simps [simp del]

fun py_join :: "string \<Rightarrow> string list \<Rightarrow> string" where
  "py_join sep [] = []"
| "py_join sep [x] = x"
| "py_join sep (x # y # ys) = x @ sep @ py_join sep (y # ys)"

text \<open>\<open>s.split(pat, 1)\<close> if \<open>pat in s\<close>.\<close>

fun split_once :: "'a list \<Rightarrow> 'a list \<Rightarrow> ('a list \<times> 'a list) option" where
  "split_once pat [] = (if pat = [] then Some ([], []) else None)"
| "split_once pat (c # cs) = (if prefix pat (c # cs) then Some ([], drop (length pat) (c # cs))
     else map_option (\<lambda>(a, b). (c # a, b)) (split_once pat cs))"

lemma split_once_None: "\<not> sublist pat s \<Longrightarrow> split_once pat s = None"
proof (induction s)
  case (Cons c s)
  then have "\<not> prefix pat (c # s)" "\<not> sublist pat s" by (auto simp: sublist_Cons_right)
  then show ?case using Cons.IH by simp
qed simp

lemma split_once_at:
  assumes "pat = x # t" "x \<notin> set t"
  shows "\<not> sublist pat a \<Longrightarrow> split_once pat (a @ pat @ b) = Some (a, b)"
proof (induction a)
  case Nil
  then show ?case by (simp add: assms(1))
next
  case (Cons c a)
  then have no: "\<not> prefix pat (c # a)" "\<not> sublist pat a" by (auto simp: sublist_Cons_right)
  have False if across: "prefix pat ((c # a) @ pat @ b)"
  proof -
    obtain us where us: "pat = (c # a) @ us" "prefix us (pat @ b)"
      using across [unfolded prefix_append [of pat "c # a"]] no(1) by blast
    have "us \<noteq> []" using us(1) no(1) by auto
    then obtain us' where "us = x # us'" using us(2) assms(1) by (cases us) auto
    then show False using us(1) assms by simp
  qed
  then show ?case using Cons.IH [OF no(2)] by auto
qed

lemma split_once_Some: "split_once pat s = Some (a, b) \<Longrightarrow> s = a @ pat @ b"
proof (induction s arbitrary: a)
  case (Cons c s)
  then show ?case by (auto simp: prefix_def split: if_splits)
qed (simp split: if_splits)

lemma split_once_sublist: "split_once pat s \<noteq> None \<longleftrightarrow> sublist pat s"
proof (induction s)
  case (Cons c s)
  then show ?case by (auto simp: sublist_Cons_right)
qed simp

text \<open>\<open>str(n)\<close> for integers, and the decimal digits a string is made of.\<close>

fun show_nat :: "nat \<Rightarrow> string" where
  "show_nat n = (if n < 10 then [char_of (48 + n)] else show_nat (n div 10) @ [char_of (48 + n mod 10)])"

declare show_nat.simps [simp del]

definition show_int :: "int \<Rightarrow> string" where
  "show_int i = (if i < 0 then CHR ''-'' # show_nat (nat (- i)) else show_nat (nat i))"

definition is_digit :: "char \<Rightarrow> bool" where
  "is_digit c = (48 \<le> code c \<and> code c \<le> 57)"

definition digit_val :: "char \<Rightarrow> nat" where
  "digit_val c = code c - 48"

text \<open>Digits with single underscores between them, the literal syntax \<open>int()\<close> accepts.\<close>

fun parse_digits :: "nat \<Rightarrow> string \<Rightarrow> nat option" where
  "parse_digits acc [] = Some acc"
| "parse_digits acc (c # cs) =
     (if is_digit c then parse_digits (10 * acc + digit_val c) cs
      else if c = CHR ''_'' then
        (case cs of d # ds \<Rightarrow> if is_digit d then parse_digits (10 * acc + digit_val d) ds else None
           | [] \<Rightarrow> None)
      else None)"

definition parse_nat :: "string \<Rightarrow> nat option" where
  "parse_nat s = (case s of c # _ \<Rightarrow> if is_digit c then parse_digits 0 s else None | [] \<Rightarrow> None)"

definition py_int :: "string \<Rightarrow> exn + int" where
  "py_int s0 = (let s = py_strip s0 in
     (case (case s of c # cs \<Rightarrow>
              if c = CHR ''-'' then map_option (\<lambda>n. - int n) (parse_nat cs)
              else if c = CHR ''+'' then map_option int (parse_nat cs)
              else map_option int (parse_nat s)
            | [] \<Rightarrow> None)
      of None \<Rightarrow> Inl ValueError | Some i \<Rightarrow> Inr i))"

lemma str_in_refl [simp]: "str_in s s"
  by (simp add: str_in_def)

lemma str_in_length: "str_in a b \<Longrightarrow> length a \<le> length b"
  by (simp add: str_in_def sublist_length_le)

lemma str_in_antisym: "str_in a b \<Longrightarrow> str_in b a \<Longrightarrow> a = b"
  by (simp add: str_in_def)

lemma length_py_lower [simp]: "length (py_lower s) = length s"
  by (simp add: py_lower_def)

lemma split_char_nonempty [simp]: "split_char c s \<noteq> []"
  by (induction s) (auto split: list.splits)

lemma join_split_char: "py_join [c] (split_char c s) = s"
proof (induction s)
  case Nil
  show ?case by simp
next
  case (Cons x xs)
  obtain w ws where w: "split_char c xs = w # ws"
    by (cases "split_char c xs") simp_all
  with Cons show ?case by (cases ws) auto
qed

lemma split_char_app:
  "c \<notin> set a \<Longrightarrow> split_char c (a @ c # b) = a # split_char c b"
  by (induction a) auto

lemma split_char_none: "c \<notin> set a \<Longrightarrow> split_char c a = [a]"
  by (induction a) auto

lemma split_char_lines:
  "ls \<noteq> [] \<Longrightarrow> \<forall>l \<in> set ls. c \<notin> set l \<Longrightarrow> split_char c (py_join [c] ls @ c # b) = ls @ split_char c b"
  by (induction ls rule: induct_list012) (auto simp: split_char_app)

lemma split_join:
  "ls \<noteq> [] \<Longrightarrow> \<forall>l \<in> set ls. c \<notin> set l \<Longrightarrow> split_char c (py_join [c] ls) = ls"
  by (induction ls rule: induct_list012) (auto simp: split_char_app split_char_none)

lemma show_nat_nonempty [simp]: "show_nat n \<noteq> []"
  by (subst show_nat.simps) simp

lemma is_digit_char_of: "n < 10 \<Longrightarrow> is_digit (char_of (48 + n)) \<and> digit_val (char_of (48 + n)) = n"
  by (simp add: is_digit_def digit_val_def)

lemma parse_digits_append:
  "\<forall>c \<in> set xs. is_digit c \<Longrightarrow>
   parse_digits acc (xs @ ys) = parse_digits (fold (\<lambda>c a. 10 * a + digit_val c) xs acc) ys"
  by (induction xs arbitrary: acc) auto

lemma show_nat_digits: "\<forall>c \<in> set (show_nat n). is_digit c"
proof (induction n rule: show_nat.induct)
  case (1 n)
  then show ?case
    by (subst show_nat.simps) (auto simp: is_digit_char_of)
qed

lemma show_nat_value: "fold (\<lambda>c a. 10 * a + digit_val c) (show_nat n) 0 = n"
proof (induction n rule: show_nat.induct)
  case (1 n)
  show ?case
  proof (cases "n < 10")
    case True
    then show ?thesis by (subst show_nat.simps) (simp add: is_digit_char_of)
  next
    case False
    with 1 have "fold (\<lambda>c a. 10 * a + digit_val c) (show_nat (n div 10)) 0 = n div 10" by simp
    with False show ?thesis
      by (subst show_nat.simps) (simp add: is_digit_char_of)
  qed
qed

lemma parse_show_nat: "parse_nat (show_nat n) = Some n"
proof -
  obtain c cs where c: "show_nat n = c # cs"
    by (cases "show_nat n") simp_all
  have "parse_digits 0 (show_nat n @ []) = Some n"
    using show_nat_digits [of n] by (subst parse_digits_append) (simp_all add: show_nat_value)
  moreover have "is_digit c" using show_nat_digits [of n] c by simp
  ultimately show ?thesis using c by (simp add: parse_nat_def)
qed

text \<open>Rules that evaluate string functions on literals.\<close>

lemmas str_eval =
  py_lower_def lower_char_def py_strip_def lstrip_def rstrip_def is_space_def split_ws.simps
  show_int_def show_nat.simps char_of_def bit_Suc_0_iff Let_def

text \<open>Sequencing of computations that may raise, and a loop that stops at the first error.\<close>

definition and_then :: "'e + 'a \<Rightarrow> ('a \<Rightarrow> 'e + 'b) \<Rightarrow> 'e + 'b" where
  "and_then r f = (case r of Inl e \<Rightarrow> Inl e | Inr x \<Rightarrow> f x)"

lemma and_then_simps [simp]:
  "and_then (Inl e) f = Inl e"
  "and_then (Inr x) f = f x"
  by (simp_all add: and_then_def)

lemma and_then_InrE:
  assumes "and_then r f = Inr y"
  obtains x where "r = Inr x" "f x = Inr y"
  using assms by (cases r) auto

lemma show_nat_inj: "show_nat m = show_nat n \<longleftrightarrow> m = n"
  by (metis option.inject parse_show_nat)

section \<open>Transition systems\<close>

text \<open>
  Reachability for a step relation, and the contract every component machine of the
  development meets: an invariant that holds initially and is kept by every step.
\<close>

inductive reach :: "('s \<Rightarrow> bool) \<Rightarrow> ('s \<Rightarrow> 's \<Rightarrow> bool) \<Rightarrow> 's \<Rightarrow> bool"
  for init :: "'s \<Rightarrow> bool" and step :: "'s \<Rightarrow> 's \<Rightarrow> bool" where
  reach_init: "init s \<Longrightarrow> reach init step s"
| reach_step: "reach init step s \<Longrightarrow> step s t \<Longrightarrow> reach init step t"

locale transition_system =
  fixes init :: "'s \<Rightarrow> bool" and step :: "'s \<Rightarrow> 's \<Rightarrow> bool" and inv :: "'s \<Rightarrow> bool"
  assumes inv_init: "init s \<Longrightarrow> inv s"
    and inv_step: "step s t \<Longrightarrow> inv s \<Longrightarrow> inv t"
begin

lemma reach_inv: "reach init step s \<Longrightarrow> inv s"
  by (induction rule: reach.induct) (auto intro: inv_init inv_step)

lemma reach_step_inv: "reach init step s \<Longrightarrow> step s t \<Longrightarrow> inv s \<and> inv t"
  by (blast intro: reach_inv reach_step)

lemma steps_inv: "step\<^sup>*\<^sup>* s t \<Longrightarrow> inv s \<Longrightarrow> inv t"
  by (induction rule: rtranclp_induct) (auto intro: inv_step)

end

end
