(* ===== verification/Admission.thy ===== *)
theory Admission
  imports Prelude
begin

text \<open>
  \<open>gateway/admission.py\<close>: FIFO admission of inference requests in batches of one
  profile.

  \<open>admission\<close> is the \<open>AdmissionQueue\<close> object together with the two kinds of
  objects it hands out, which the code keeps on the heap: the leases (a list of
  \<open>released\<close> flags, a lease is its index) and the futures of the waiters (a list,
  allocated in arrival order).  Each operation below runs without an \<open>await\<close>, so it is
  one atomic function of that state; \<open>acquire\<close> is split at its only \<open>await\<close> into
  \<open>acquire_start\<close>, the return of the awaited lease, and the \<open>except BaseException\<close>
  block \<open>acquire_abort\<close>.  The step relation \<open>adm_step\<close> interleaves any number of
  such requests.
\<close>

section \<open>The queue and its operations\<close>

datatype fut = Pending | Done nat | Cancelled

record admission =
  limit :: int
  max_waiting :: int
  active :: int
  profile :: "string option"
  waiting :: "(string \<times> nat) list"
  futures :: "fut list"
  leases :: "bool list"

text \<open>\<open>AdmissionQueue.__init__\<close>; \<open>tmo\<close> is the timeout.\<close>

definition AdmissionQueue :: "int \<Rightarrow> int \<Rightarrow> rat \<Rightarrow> exn + admission" where
  "AdmissionQueue lmt maxw tmo =
     (if lmt < 1 \<or> maxw < 0 \<or> tmo \<le> 0 then Inl ValueError
      else Inr \<lparr>limit = lmt, max_waiting = maxw, active = 0, profile = None, waiting = [],
               futures = [], leases = []\<rparr>)"

definition grant :: "string \<Rightarrow> admission \<Rightarrow> nat \<times> admission" where
  "grant p q = (length (leases q),
     q\<lparr>active := active q + 1, profile := Some p, leases := leases q @ [False]\<rparr>)"

fun fut_done :: "fut \<Rightarrow> bool" where
  "fut_done Pending = False"
| "fut_done (Done l) = True"
| "fut_done Cancelled = True"

text \<open>\<open>_promote\<close>: the loop pops the head of the deque in every iteration that does not
  leave it.\<close>

function promote :: "admission \<Rightarrow> admission" where
  "promote q = (case waiting q of
     [] \<Rightarrow> q
   | (p, f) # ws \<Rightarrow>
       if \<not> active q < limit q then q
       else if fut_done (futures q ! f) then promote (q\<lparr>waiting := ws\<rparr>)
       else if active q \<noteq> 0 \<and> profile q \<noteq> Some p then q
       else (let (l, q') = grant p (q\<lparr>waiting := ws\<rparr>)
             in promote (q'\<lparr>futures := (futures q')[f := Done l]\<rparr>)))"
  by pat_completeness auto
termination
  by (relation "measure (\<lambda>q. length (waiting q))") (auto simp: grant_def)

declare promote.simps [simp del]

text \<open>\<open>Lease.release\<close>.\<close>

definition lease_release :: "nat \<Rightarrow> admission \<Rightarrow> admission" where
  "lease_release l q =
     (if leases q ! l then q
      else (let q1 = q\<lparr>leases := (leases q)[l := True], active := active q - 1\<rparr>;
                q2 = (if active q1 = 0 then q1\<lparr>profile := None\<rparr> else q1)
            in promote q2))"

text \<open>\<open>acquire\<close> up to its \<open>await\<close>: a lease at once, \<open>QueueFull\<close>, or a place in
  the queue with a fresh future.\<close>

datatype acquired = Granted nat | Queued nat

definition acquire_start :: "string \<Rightarrow> admission \<Rightarrow> (exn + acquired) \<times> admission" where
  "acquire_start p q =
     (if waiting q = [] \<and> active q < limit q \<and> (active q = 0 \<or> profile q = Some p) then
        (let (l, q') = grant p q in (Inr (Granted l), q'))
      else if int (length (waiting q)) \<ge> max_waiting q then (Inl QueueFull, q)
      else (Inr (Queued (length (futures q))),
            q\<lparr>futures := futures q @ [Pending], waiting := waiting q @ [(p, length (futures q))]\<rparr>))"

text \<open>The \<open>except BaseException\<close> block of \<open>acquire\<close>, before it re-raises.\<close>

definition acquire_abort :: "string \<Rightarrow> nat \<Rightarrow> admission \<Rightarrow> admission" where
  "acquire_abort p f q =
     (let q1 = (case futures q ! f of
                  Done l \<Rightarrow> lease_release l q
                | _ \<Rightarrow> q\<lparr>futures := (futures q)[f := Cancelled]\<rparr>);
          q2 = (if (p, f) \<in> set (waiting q1) then q1\<lparr>waiting := remove1 (p, f) (waiting q1)\<rparr> else q1)
      in promote q2)"

text \<open>\<open>stats\<close>: the four figures it computes.\<close>

definition adm_stats :: "admission \<Rightarrow> int \<times> int \<times> nat \<times> int \<times> string option" where
  "adm_stats q = (limit q, active q, length (waiting q), max_waiting q, profile q)"

section \<open>What promotion does\<close>

text \<open>
  The specification of \<open>promote\<close>: it removes a prefix of the queue, in order.  Entries of
  the prefix whose future is already done are dropped, the others are granted a fresh lease
  each and share one profile.
\<close>

lemma promote_Nil [simp]: "waiting q = [] \<Longrightarrow> promote q = q"
  by (subst promote.simps) simp

lemma promote_full [simp]: "\<not> active q < limit q \<Longrightarrow> promote q = q"
  by (subst promote.simps) (auto split: list.split)

lemma promote_skip:
  "waiting q = (p, f) # ws \<Longrightarrow> active q < limit q \<Longrightarrow> fut_done (futures q ! f) \<Longrightarrow>
   promote q = promote (q\<lparr>waiting := ws\<rparr>)"
  by (subst promote.simps) simp

lemma promote_block:
  "waiting q = (p, f) # ws \<Longrightarrow> \<not> fut_done (futures q ! f) \<Longrightarrow> active q \<noteq> 0 \<Longrightarrow>
   profile q \<noteq> Some p \<Longrightarrow> promote q = q"
  by (subst promote.simps) simp

lemma promote_grant:
  "waiting q = (p, f) # ws \<Longrightarrow> active q < limit q \<Longrightarrow> \<not> fut_done (futures q ! f) \<Longrightarrow>
   active q = 0 \<or> profile q = Some p \<Longrightarrow>
   promote q = promote (q\<lparr>waiting := ws, active := active q + 1, profile := Some p,
     leases := leases q @ [False], futures := (futures q)[f := Done (length (leases q))]\<rparr>)"
  by (subst promote.simps) (auto simp: grant_def)

text \<open>The four ways an iteration can go, as one induction principle.\<close>

lemma promote_induct [case_names stop skip grant]:
  assumes stop: "\<And>q. promote q = q \<Longrightarrow>
      (waiting q = [] \<or> \<not> active q < limit q \<or>
       (\<exists>p f ws. waiting q = (p, f) # ws \<and> futures q ! f = Pending \<and> active q \<noteq> 0 \<and> profile q \<noteq> Some p)) \<Longrightarrow> P q"
    and skip: "\<And>q p f ws. waiting q = (p, f) # ws \<Longrightarrow> active q < limit q \<Longrightarrow> futures q ! f \<noteq> Pending \<Longrightarrow>
      promote q = promote (q\<lparr>waiting := ws\<rparr>) \<Longrightarrow> P (q\<lparr>waiting := ws\<rparr>) \<Longrightarrow> P q"
    and grant: "\<And>q p f ws q'. waiting q = (p, f) # ws \<Longrightarrow> active q < limit q \<Longrightarrow> futures q ! f = Pending \<Longrightarrow>
      active q = 0 \<or> profile q = Some p \<Longrightarrow>
      q' = q\<lparr>waiting := ws, active := active q + 1, profile := Some p,
        leases := leases q @ [False], futures := (futures q)[f := Done (length (leases q))]\<rparr> \<Longrightarrow>
      promote q = promote q' \<Longrightarrow> P q' \<Longrightarrow> P q"
  shows "P q"
proof (induction "length (waiting q)" arbitrary: q rule: less_induct)
  case less
  have done_iff: "fut_done x = (x \<noteq> Pending)" for x by (cases x) simp_all
  show ?case
  proof (cases "waiting q")
    case Nil
    then show ?thesis by (intro stop) simp_all
  next
    case (Cons e ws)
    obtain p f where e: "e = (p, f)" by (cases e)
    note w = Cons[unfolded e]
    consider "\<not> active q < limit q"
      | "active q < limit q" "futures q ! f \<noteq> Pending"
      | "active q < limit q" "futures q ! f = Pending" "active q \<noteq> 0 \<and> profile q \<noteq> Some p"
      | "active q < limit q" "futures q ! f = Pending" "active q = 0 \<or> profile q = Some p"
      by blast
    then show ?thesis
    proof cases
      case 1
      then show ?thesis by (intro stop) simp_all
    next
      case 2
      then show ?thesis
        using w by (intro skip [OF w] less) (auto simp: promote_skip done_iff)
    next
      case 3
      then show ?thesis using w by (intro stop) (auto simp: promote_block done_iff)
    next
      case 4
      then show ?thesis
        using w by (intro grant [OF w _ _ _ refl] less) (auto simp: promote_grant done_iff)
    qed
  qed
qed

lemma promote_frame [simp]:
  "limit (promote q) = limit q" "max_waiting (promote q) = max_waiting q"
  "length (futures (promote q)) = length (futures q)"
proof -
  have "limit (promote q) = limit q \<and> max_waiting (promote q) = max_waiting q \<and>
    length (futures (promote q)) = length (futures q)"
    by (induction q rule: promote_induct) auto
  then show "limit (promote q) = limit q" "max_waiting (promote q) = max_waiting q"
    "length (futures (promote q)) = length (futures q)" by blast+
qed

section \<open>Requests as tasks\<close>

text \<open>
  A request is a task that called \<open>acquire(p)\<close>: it waits on its future, holds the lease
  \<open>acquire\<close> returned (and may release it, any number of times), or left with an
  exception.  \<open>adm_interrupt\<close> is a timeout of \<open>wait_for\<close> or a cancellation of the
  task reaching a future that is still pending; the task then runs its \<open>except\<close> block in
  a later step, and other tasks may run in between.  \<open>adm_abort\<close> covers every state of the
  future, so also the race in which the lease was granted first.
\<close>

datatype frame = Waiting string nat | Holding string nat | Failed

record adm_sys =
  queue :: admission
  tasks :: "nat \<Rightarrow> frame option"

definition frame_of :: "string \<Rightarrow> exn + acquired \<Rightarrow> frame" where
  "frame_of p r = (case r of Inl e \<Rightarrow> Failed | Inr (Granted l) \<Rightarrow> Holding p l | Inr (Queued f) \<Rightarrow> Waiting p f)"

inductive adm_step :: "adm_sys \<Rightarrow> adm_sys \<Rightarrow> bool" where
  adm_arrive: "tasks s t = None \<Longrightarrow> acquire_start p (queue s) = (r, q') \<Longrightarrow>
     adm_step s \<lparr>queue = q', tasks = (tasks s)(t \<mapsto> frame_of p r)\<rparr>"
| adm_interrupt: "tasks s t = Some (Waiting p f) \<Longrightarrow> futures (queue s) ! f = Pending \<Longrightarrow>
     adm_step s (s\<lparr>queue := (queue s)\<lparr>futures := (futures (queue s))[f := Cancelled]\<rparr>\<rparr>)"
| adm_wake: "tasks s t = Some (Waiting p f) \<Longrightarrow> futures (queue s) ! f = Done l \<Longrightarrow>
     adm_step s (s\<lparr>tasks := (tasks s)(t \<mapsto> Holding p l)\<rparr>)"
| adm_abort: "tasks s t = Some (Waiting p f) \<Longrightarrow>
     adm_step s \<lparr>queue = acquire_abort p f (queue s), tasks = (tasks s)(t \<mapsto> Failed)\<rparr>"
| adm_release: "tasks s t = Some (Holding p l) \<Longrightarrow>
     adm_step s (s\<lparr>queue := lease_release l (queue s)\<rparr>)"

definition adm_init :: "adm_sys \<Rightarrow> bool" where
  "adm_init s = ((\<exists>lmt maxw tmo. AdmissionQueue lmt maxw tmo = Inr (queue s)) \<and> tasks s = (\<lambda>_. None))"

section \<open>The invariant\<close>

text \<open>
  It is stated on the components of the state, so that each operation's effect is a lemma
  about lists.  \<open>waiters_ok\<close>: the deque is in arrival order, holds no future that was
  granted, and every pending future is still in it.  \<open>served_in_order\<close>: no future was
  granted before an earlier one that is still pending.  \<open>counts_ok\<close>: the counter is the
  number of unreleased leases, stays within the limit, and a profile is set exactly while
  something is active.
\<close>

definition waiters_ok :: "(string \<times> nat) list \<Rightarrow> fut list \<Rightarrow> bool" where
  "waiters_ok ws fs =
     (sorted_wrt (<) (map snd ws) \<and>
      (\<forall>e \<in> set ws. snd e < length fs \<and> (\<forall>l. fs ! snd e \<noteq> Done l)) \<and>
      (\<forall>f < length fs. fs ! f = Pending \<longrightarrow> f \<in> snd ` set ws))"

definition served_in_order :: "fut list \<Rightarrow> bool" where
  "served_in_order fs =
     (\<forall>g < length fs. \<forall>f < g. \<forall>l. fs ! g = Done l \<longrightarrow> fs ! f \<noteq> Pending)"

definition live_leases :: "bool list \<Rightarrow> nat" where
  "live_leases ls = length (filter Not ls)"

definition counts_ok :: "admission \<Rightarrow> bool" where
  "counts_ok q = (1 \<le> limit q \<and> active q \<le> limit q \<and> active q = int (live_leases (leases q)) \<and>
     (active q = 0 \<longleftrightarrow> profile q = None))"

text \<open>
  A task owns the lease it holds, or the one its future was resolved with.  Each waiter in the
  deque is one task's; each unreleased lease is owned by exactly one task, and all owners asked
  for the profile of the queue.
\<close>

definition owns :: "(nat \<Rightarrow> frame option) \<Rightarrow> fut list \<Rightarrow> nat \<Rightarrow> string \<Rightarrow> nat \<Rightarrow> bool" where
  "owns T fs t p l = (T t = Some (Holding p l) \<or> (\<exists>f. T t = Some (Waiting p f) \<and> fs ! f = Done l))"

definition frames_ok :: "(nat \<Rightarrow> frame option) \<Rightarrow> (string \<times> nat) list \<Rightarrow> fut list \<Rightarrow> bool" where
  "frames_ok T ws fs =
     ((\<forall>e \<in> set ws. \<exists>t. T t = Some (Waiting (fst e) (snd e))) \<and>
      (\<forall>t p f. T t = Some (Waiting p f) \<longrightarrow> f < length fs) \<and>
      (\<forall>t t' p p' f. T t = Some (Waiting p f) \<and> T t' = Some (Waiting p' f) \<longrightarrow> t = t'))"

definition leases_ok :: "(nat \<Rightarrow> frame option) \<Rightarrow> fut list \<Rightarrow> bool list \<Rightarrow> string option \<Rightarrow> bool" where
  "leases_ok T fs ls prof =
     ((\<forall>l < length ls. \<not> ls ! l \<longrightarrow> (\<exists>t p. owns T fs t p l)) \<and>
      (\<forall>t p l. owns T fs t p l \<longrightarrow> l < length ls \<and> (\<not> ls ! l \<longrightarrow> prof = Some p)) \<and>
      (\<forall>t t' p p' l. owns T fs t p l \<and> owns T fs t' p' l \<longrightarrow> t = t'))"

text \<open>No slot is left unused while somebody waits: the head of the queue is blocked by the
  limit or by a batch of another profile.\<close>

definition settled :: "admission \<Rightarrow> bool" where
  "settled q = (case waiting q of [] \<Rightarrow> True
     | (p, f) # ws \<Rightarrow> active q > 0 \<and>
         (futures q ! f = Pending \<longrightarrow> active q = limit q \<or> profile q \<noteq> Some p))"

definition adm_ok :: "(nat \<Rightarrow> frame option) \<Rightarrow> admission \<Rightarrow> bool" where
  "adm_ok T q =
     (counts_ok q \<and> int (length (waiting q)) \<le> max_waiting q \<and>
      waiters_ok (waiting q) (futures q) \<and> served_in_order (futures q) \<and>
      frames_ok T (waiting q) (futures q) \<and> leases_ok T (futures q) (leases q) (profile q))"

definition adm_inv :: "adm_sys \<Rightarrow> bool" where
  "adm_inv s = (adm_ok (tasks s) (queue s) \<and> settled (queue s))"

subsection \<open>Effects on the waiters\<close>

lemma waiters_ok_tl: "waiters_ok ((p, f) # ws) fs \<Longrightarrow> fs ! f \<noteq> Pending \<Longrightarrow> waiters_ok ws fs"
  unfolding waiters_ok_def by fastforce

lemma waiters_ok_head:
  assumes "waiters_ok ((p, f) # ws) fs"
  shows "f < length fs" "\<forall>e \<in> set ws. f < snd e" "\<And>g. g < f \<Longrightarrow> fs ! g \<noteq> Pending"
proof -
  show *: "f < length fs" "\<forall>e \<in> set ws. f < snd e"
    using assms by (auto simp: waiters_ok_def)
  show "fs ! g \<noteq> Pending" if "g < f" for g
  proof
    assume "fs ! g = Pending"
    moreover have "g < length fs" using * that by simp
    ultimately have "g \<in> snd ` set ((p, f) # ws)"
      using assms unfolding waiters_ok_def by blast
    with * that show False by fastforce
  qed
qed

lemma waiters_ok_serve:
  assumes "waiters_ok ((p, f) # ws) fs"
  shows "waiters_ok ws (fs[f := Done l])"
proof -
  have "\<forall>e \<in> set ws. f \<noteq> snd e"
    using waiters_ok_head(2) [OF assms] by fastforce
  then show ?thesis
    using assms unfolding waiters_ok_def by (auto simp: nth_upd split: if_splits)
qed

lemma served_in_order_serve:
  assumes "waiters_ok ((p, f) # ws) fs" "served_in_order fs"
  shows "served_in_order (fs[f := Done l])"
  using assms(2) waiters_ok_head(3) [OF assms(1)]
  unfolding served_in_order_def by (auto simp: nth_upd split: if_splits)

lemma waiters_ok_cancel: "waiters_ok ws fs \<Longrightarrow> waiters_ok ws (fs[f := Cancelled])"
  unfolding waiters_ok_def by (auto simp: nth_upd split: if_splits)

lemma served_in_order_cancel: "served_in_order fs \<Longrightarrow> served_in_order (fs[f := Cancelled])"
  unfolding served_in_order_def by (auto simp: nth_upd split: if_splits)

lemma waiters_ok_remove:
  assumes "waiters_ok ws fs" "fs ! f \<noteq> Pending"
  shows "waiters_ok (remove1 (p, f) ws) fs"
proof -
  have "sorted_wrt (<) (map snd (remove1 (p, f) ws))"
    using assms(1) by (simp add: waiters_ok_def sorted_wrt_remove1)
  moreover have "g \<in> snd ` set (remove1 (p, f) ws)" if "g < length fs" "fs ! g = Pending" for g
  proof -
    have "g \<in> snd ` set ws" using assms(1) that unfolding waiters_ok_def by blast
    then obtain r where "(r, g) \<in> set ws" by auto
    moreover have "(r, g) \<noteq> (p, f)" using assms(2) that by auto
    ultimately show ?thesis by (metis image_eqI in_set_remove1 snd_conv)
  qed
  ultimately show ?thesis
    using assms(1) set_remove1_subset [of "(p, f)" ws] unfolding waiters_ok_def by blast
qed

lemma waiters_ok_enqueue:
  "waiters_ok ws fs \<Longrightarrow> waiters_ok (ws @ [(p, length fs)]) (fs @ [Pending])"
  unfolding waiters_ok_def by (auto simp: sorted_wrt_append nth_append less_Suc_eq)

lemma served_in_order_enqueue: "served_in_order fs \<Longrightarrow> served_in_order (fs @ [Pending])"
  unfolding served_in_order_def by (auto simp: nth_append less_Suc_eq)

subsection \<open>Effects on the counters\<close>

lemma live_leases_snoc [simp]: "live_leases (ls @ [False]) = Suc (live_leases ls)"
  by (simp add: live_leases_def)

lemma live_leases_release:
  "l < length ls \<Longrightarrow> \<not> ls ! l \<Longrightarrow> live_leases ls = Suc (live_leases (ls[l := True]))"
proof (induction ls arbitrary: l)
  case Nil
  then show ?case by simp
next
  case (Cons x ls)
  then show ?case by (cases l) (auto simp: live_leases_def)
qed

lemma live_leases_0: "live_leases ls = 0 \<longleftrightarrow> (\<forall>l < length ls. ls ! l)"
  by (auto simp: live_leases_def filter_empty_conv all_set_conv_all_nth)

subsection \<open>Effects on the tasks\<close>

lemma frames_ok_tl: "frames_ok T (e # ws) fs \<Longrightarrow> frames_ok T ws fs"
  by (simp add: frames_ok_def)

lemma frames_ok_upd [simp]: "frames_ok T ws (fs[f := x]) = frames_ok T ws fs"
  by (simp add: frames_ok_def)

lemma frames_ok_head:
  assumes "frames_ok T ((p, f) # ws) fs"
  obtains t where "T t = Some (Waiting p f)"
  using assms by (auto simp: frames_ok_def)

lemma frames_ok_unique:
  "frames_ok T ws fs \<Longrightarrow> T t = Some (Waiting p f) \<Longrightarrow> T t' = Some (Waiting p' f) \<Longrightarrow> t' = t"
  unfolding frames_ok_def by blast

text \<open>Serving the waiter at the head: the fresh lease is owned by its task.\<close>

lemma owns_serve:
  assumes fr: "frames_ok T ((p, f) # ws) fs" and f: "f < length fs" "fs ! f = Pending"
    and t0: "T t0 = Some (Waiting p f)"
  shows "owns T (fs[f := Done n]) t p' l \<longleftrightarrow> owns T fs t p' l \<or> (t = t0 \<and> p' = p \<and> l = n)"
proof -
  have t_eq: "t = t0 \<and> r = p" if "T t = Some (Waiting r f)" for t r
    using frames_ok_unique [OF fr t0 that] t0 that by simp
  have "(\<exists>g. T t = Some (Waiting p' g) \<and> fs[f := Done n] ! g = Done l) \<longleftrightarrow>
      (\<exists>g. T t = Some (Waiting p' g) \<and> fs ! g = Done l) \<or> (t = t0 \<and> p' = p \<and> l = n)"
    (is "?L \<longleftrightarrow> ?R")
  proof
    assume ?L
    then obtain g where g: "T t = Some (Waiting p' g)" "fs[f := Done n] ! g = Done l" by blast
    show ?R
    proof (cases "g = f")
      case True
      with g t_eq f show ?thesis by (auto simp: nth_upd)
    next
      case False
      with g show ?thesis by (auto simp: nth_upd)
    qed
  next
    assume ?R
    then show ?L
    proof
      assume "\<exists>g. T t = Some (Waiting p' g) \<and> fs ! g = Done l"
      then obtain g where g: "T t = Some (Waiting p' g)" "fs ! g = Done l" by blast
      with f(2) have "g \<noteq> f" by auto
      with g show ?L by (auto simp: nth_upd)
    next
      assume "t = t0 \<and> p' = p \<and> l = n"
      with t0 f(1) show ?L by (auto simp: nth_upd)
    qed
  qed
  then show ?thesis unfolding owns_def by blast
qed

lemma leases_ok_serve:
  assumes fr: "frames_ok T ((p, f) # ws) fs" and f: "f < length fs" "fs ! f = Pending"
    and l: "leases_ok T fs ls prof"
    and prof: "prof = Some p \<or> (\<forall>i < length ls. ls ! i)"
  shows "leases_ok T (fs[f := Done (length ls)]) (ls @ [False]) (Some p)"
proof -
  obtain t0 where t0: "T t0 = Some (Waiting p f)" using frames_ok_head [OF fr] .
  note ow = owns_serve [OF fr f t0]
  have old: "i < length ls" if "owns T fs t r i" for t r i
    using l that by (auto simp: leases_ok_def)
  have own_prof: "r = p" if "owns T fs t r i" "\<not> ls ! i" for t r i
    using l that prof old [OF that(1)] unfolding leases_ok_def by fastforce
  have uniq: "t = t'" if "owns T fs t r i" "owns T fs t' r' i" for t t' r r' i
    using l that unfolding leases_ok_def by blast
  have live: "\<exists>t r. owns T fs t r i" if "i < length ls" "\<not> ls ! i" for i
    using l that unfolding leases_ok_def by blast
  show ?thesis
    unfolding leases_ok_def ow
  proof (intro conjI allI impI)
    fix i assume "i < length (ls @ [False])" "\<not> (ls @ [False]) ! i"
    then show "\<exists>t r. owns T fs t r i \<or> t = t0 \<and> r = p \<and> i = length ls"
      using live by (cases "i < length ls") (auto simp: nth_append)
  qed (use old own_prof uniq in \<open>fastforce simp: nth_append\<close>)+
qed

lemma owns_cancel:
  assumes "\<forall>l. fs ! f \<noteq> Done l"
  shows "owns T (fs[f := Cancelled]) t p l = owns T fs t p l"
  using assms unfolding owns_def by (auto simp: nth_upd split: if_splits)

lemma leases_ok_cancel:
  "\<forall>l. fs ! f \<noteq> Done l \<Longrightarrow> leases_ok T (fs[f := Cancelled]) ls prof = leases_ok T fs ls prof"
  by (simp add: leases_ok_def owns_cancel)

lemma leases_ok_release:
  assumes "leases_ok T fs ls prof" "l < length ls" "prof' = prof \<or> (\<forall>i < length ls. (ls[l := True]) ! i)"
  shows "leases_ok T fs (ls[l := True]) prof'"
proof -
  have own: "i < length ls" "\<not> ls ! i \<longrightarrow> prof = Some p" if "owns T fs t p i" for t p i
    using assms(1) that unfolding leases_ok_def by blast+
  have uniq: "\<forall>t t' p p' i. owns T fs t p i \<and> owns T fs t' p' i \<longrightarrow> t = t'"
    and live: "\<forall>i < length ls. \<not> ls ! i \<longrightarrow> (\<exists>t p. owns T fs t p i)"
    using assms(1) unfolding leases_ok_def by blast+
  have "\<not> ls[l := True] ! i \<longrightarrow> prof' = Some p" if "owns T fs t p i" for t p i
    using own [OF that] assms(2,3) by (auto simp: nth_upd split: if_splits)
  then show ?thesis
    using own(1) uniq live unfolding leases_ok_def by (simp add: nth_upd)
qed

subsection \<open>The operations keep the invariant\<close>

lemma adm_ok_skip:
  assumes "adm_ok T q" "waiting q = (p, f) # ws" "futures q ! f \<noteq> Pending"
  shows "adm_ok T (q\<lparr>waiting := ws\<rparr>)"
  using assms waiters_ok_tl [of p f ws "futures q"] frames_ok_tl [of T "(p, f)" ws "futures q"]
  by (auto simp: adm_ok_def counts_ok_def)

lemma adm_ok_grant:
  assumes ok: "adm_ok T q" and w: "waiting q = (p, f) # ws" and lt: "active q < limit q"
    and pend: "futures q ! f = Pending" and prof: "active q = 0 \<or> profile q = Some p"
    and q': "q' = q\<lparr>waiting := ws, active := active q + 1, profile := Some p,
        leases := leases q @ [False], futures := (futures q)[f := Done (length (leases q))]\<rparr>"
  shows "adm_ok T q'"
proof -
  have wo: "waiters_ok ((p, f) # ws) (futures q)" and fr: "frames_ok T ((p, f) # ws) (futures q)"
    using ok w by (simp_all add: adm_ok_def)
  have "profile q = Some p \<or> (\<forall>i < length (leases q). leases q ! i)"
    using prof ok by (auto simp: adm_ok_def counts_ok_def live_leases_0)
  then have "leases_ok T ((futures q)[f := Done (length (leases q))]) (leases q @ [False]) (Some p)"
    using leases_ok_serve [OF fr waiters_ok_head(1) [OF wo] pend] ok unfolding adm_ok_def by blast
  then show ?thesis
    using ok w lt waiters_ok_serve [OF wo] served_in_order_serve [OF wo] frames_ok_tl [OF fr]
    by (auto simp: adm_ok_def counts_ok_def q')
qed

lemma promote_ok: "adm_ok T q \<Longrightarrow> adm_ok T (promote q)"
proof (induction q rule: promote_induct)
  case (stop q)
  then show ?case by simp
next
  case (skip q p f ws)
  then show ?case using adm_ok_skip [OF skip.prems skip.hyps(1,3)] by simp
next
  case (grant q p f ws q')
  then show ?case using adm_ok_grant [OF grant.prems grant.hyps(1-5)] by simp
qed

lemma promote_settled: "adm_ok T q \<Longrightarrow> settled (promote q)"
proof (induction q rule: promote_induct)
  case (stop q)
  have c: "1 \<le> limit q" "active q \<le> limit q" "0 \<le> active q"
    using stop.prems by (auto simp: adm_ok_def counts_ok_def)
  from stop.hyps(2) consider "waiting q = []" | "\<not> active q < limit q"
    | p f ws where "waiting q = (p, f) # ws" "active q \<noteq> 0" "profile q \<noteq> Some p" by blast
  then have "settled q"
    using c by cases (auto simp: settled_def split: list.split)
  then show ?case using stop.hyps(1) by simp
next
  case (skip q p f ws)
  then show ?case using adm_ok_skip [OF skip.prems skip.hyps(1,3)] by simp
next
  case (grant q p f ws q')
  then show ?case using adm_ok_grant [OF grant.prems grant.hyps(1-5)] by simp
qed

lemma promote_leases:
  "length (leases q) \<le> length (leases (promote q)) \<and>
   (\<forall>l < length (leases q). leases (promote q) ! l = leases q ! l)"
  by (induction q rule: promote_induct) (auto simp: nth_append)

lemma adm_ok_released:
  assumes ok: "adm_ok T q" and l: "l < length (leases q)" and un: "\<not> leases q ! l"
  defines "q1 \<equiv> q\<lparr>leases := (leases q)[l := True], active := active q - 1\<rparr>"
  shows "adm_ok T (if active q1 = 0 then q1\<lparr>profile := None\<rparr> else q1)" (is "adm_ok T ?q2")
proof -
  have live: "live_leases (leases q) = Suc (live_leases ((leases q)[l := True]))"
    using live_leases_release [OF l un] .
  have cnt: "counts_ok ?q2"
    using ok live by (auto simp: adm_ok_def counts_ok_def q1_def)
  have "profile ?q2 = profile q \<or> (\<forall>i < length (leases q). (leases q)[l := True] ! i)"
    using ok live live_leases_0 [of "(leases q)[l := True]"] by (auto simp: adm_ok_def counts_ok_def q1_def)
  then have "leases_ok T (futures q) ((leases q)[l := True]) (profile ?q2)"
    using ok l by (intro leases_ok_release) (auto simp: adm_ok_def)
  with ok cnt show ?thesis by (auto simp: adm_ok_def q1_def)
qed

lemma promote_keeps_profile: "0 < active q \<Longrightarrow> profile (promote q) = profile q"
  by (induction q rule: promote_induct) auto

lemma lease_release_inv:
  assumes ok: "adm_ok T q" and l: "l < length (leases q)"
  shows "adm_ok T (lease_release l q)" "settled q \<Longrightarrow> settled (lease_release l q)"
proof -
  let ?q1 = "q\<lparr>leases := (leases q)[l := True], active := active q - 1\<rparr>"
  let ?q2 = "if active ?q1 = 0 then ?q1\<lparr>profile := None\<rparr> else ?q1"
  have q2: "adm_ok T ?q2" if "\<not> leases q ! l"
    using adm_ok_released [OF ok l that] .
  have eq: "lease_release l q = (if leases q ! l then q else promote ?q2)"
    by (simp add: lease_release_def Let_def)
  show "adm_ok T (lease_release l q)"
    using ok q2 promote_ok unfolding eq by auto
  show "settled q \<Longrightarrow> settled (lease_release l q)"
    using q2 promote_settled unfolding eq by auto
qed

lemma lease_release_cases:
  obtains (already) "leases q ! l" "lease_release l q = q"
  | (fresh) q2 where "\<not> leases q ! l" "lease_release l q = promote q2" "leases q2 = (leases q)[l := True]"
      "futures q2 = futures q" "waiting q2 = waiting q"
proof (cases "leases q ! l")
  case True
  then show ?thesis by (intro already) (simp_all add: lease_release_def)
next
  case False
  let ?q1 = "q\<lparr>leases := (leases q)[l := True], active := active q - 1\<rparr>"
  from False show ?thesis
    by (intro fresh [of "if active ?q1 = 0 then ?q1\<lparr>profile := None\<rparr> else ?q1"])
      (simp_all add: lease_release_def Let_def)
qed

lemma lease_released: "l < length (leases q) \<Longrightarrow> leases (lease_release l q) ! l"
proof (cases rule: lease_release_cases [of q l])
  case (fresh q2)
  then show "l < length (leases q) \<Longrightarrow> leases (lease_release l q) ! l"
    using promote_leases [of q2] by simp
qed simp

lemma lease_release_length: "length (leases q) \<le> length (leases (lease_release l q))"
proof (cases rule: lease_release_cases [of q l])
  case (fresh q2)
  then show ?thesis using promote_leases [of q2] by simp
qed simp

lemma promote_futures:
  "(futures q ! f \<noteq> Pending \<longrightarrow> futures (promote q) ! f = futures q ! f) \<and>
   set (waiting (promote q)) \<subseteq> set (waiting q)"
  by (induction q rule: promote_induct) (auto simp: nth_upd)

lemma lease_release_futures:
  "futures q ! f \<noteq> Pending \<Longrightarrow> futures (lease_release l q) ! f = futures q ! f"
  "set (waiting (lease_release l q)) \<subseteq> set (waiting q)"
proof -
  have "(futures q ! f \<noteq> Pending \<longrightarrow> futures (lease_release l q) ! f = futures q ! f) \<and>
    set (waiting (lease_release l q)) \<subseteq> set (waiting q)"
  proof (cases rule: lease_release_cases [of q l])
    case (fresh q2)
    then show ?thesis using promote_futures [of q2 f] by simp
  qed simp
  then show "futures q ! f \<noteq> Pending \<Longrightarrow> futures (lease_release l q) ! f = futures q ! f"
    "set (waiting (lease_release l q)) \<subseteq> set (waiting q)" by blast+
qed

text \<open>A task arrives, goes on to hold its lease, or leaves.\<close>

lemma owns_upd:
  "owns (T(t0 \<mapsto> fr)) fs t p l =
     (if t = t0 then fr = Holding p l \<or> (\<exists>f. fr = Waiting p f \<and> fs ! f = Done l) else owns T fs t p l)"
  by (auto simp: owns_def)

lemma frames_ok_drop:
  assumes fr: "frames_ok T ws fs" and nw: "\<forall>p f. fr' \<noteq> Waiting p f"
    and out: "\<forall>p f. T t = Some (Waiting p f) \<longrightarrow> (p, f) \<notin> set ws"
  shows "frames_ok (T(t \<mapsto> fr')) ws fs"
  unfolding frames_ok_def
proof (intro conjI ballI)
  fix e assume e: "e \<in> set ws"
  then obtain t' where t': "T t' = Some (Waiting (fst e) (snd e))" using fr unfolding frames_ok_def by blast
  with out e have "t' \<noteq> t" by auto
  with t' show "\<exists>t'. (T(t \<mapsto> fr')) t' = Some (Waiting (fst e) (snd e))" by auto
next
  show "\<forall>t' p f. (T(t \<mapsto> fr')) t' = Some (Waiting p f) \<longrightarrow> f < length fs"
    using fr nw unfolding frames_ok_def by simp
  show "\<forall>t' t'' p p' f. (T(t \<mapsto> fr')) t' = Some (Waiting p f) \<and> (T(t \<mapsto> fr')) t'' = Some (Waiting p' f) \<longrightarrow> t' = t''"
    using fr nw unfolding frames_ok_def by (auto split: if_splits)
qed

lemma frames_ok_arrive:
  "frames_ok T ws fs \<Longrightarrow> T t = None \<Longrightarrow> \<forall>p f. fr \<noteq> Waiting p f \<Longrightarrow> frames_ok (T(t \<mapsto> fr)) ws fs"
  by (rule frames_ok_drop) simp_all

lemma adm_ok_arrive_granted:
  assumes ok: "adm_ok T q" and T: "T t = None" and w: "waiting q = []" and lt: "active q < limit q"
    and prof: "active q = 0 \<or> profile q = Some p" and g: "grant p q = (l, q')"
  shows "adm_ok (T(t \<mapsto> Holding p l)) q'"
proof -
  have q': "q' = q\<lparr>active := active q + 1, profile := Some p, leases := leases q @ [False]\<rparr>"
    and l: "l = length (leases q)"
    using g by (simp_all add: grant_def)
  have no_t: "\<not> owns T fs t r i" for fs r i using T by (simp add: owns_def)
  have own: "i < length (leases q)" "\<not> leases q ! i \<longrightarrow> r = p" if "owns T (futures q) t' r i" for t' r i
    using ok prof that by (auto simp: adm_ok_def leases_ok_def counts_ok_def live_leases_0)
  have uniq: "t' = t''" if "owns T (futures q) t' r i" "owns T (futures q) t'' r' i" for t' t'' r r' i
    using ok that unfolding adm_ok_def leases_ok_def by blast
  have live: "\<exists>t' r. owns T (futures q) t' r i" if "i < length (leases q)" "\<not> leases q ! i" for i
    using ok that unfolding adm_ok_def leases_ok_def by blast
  have "leases_ok (T(t \<mapsto> Holding p l)) (futures q) (leases q @ [False]) (Some p)"
    unfolding leases_ok_def owns_upd
  proof (intro conjI allI impI)
    fix i assume i: "i < length (leases q @ [False])" "\<not> (leases q @ [False]) ! i"
    show "\<exists>t' r. if t' = t then Holding p l = Holding r i \<or> (\<exists>f. Holding p l = Waiting r f \<and> futures q ! f = Done i)
        else owns T (futures q) t' r i"
    proof (cases "i = length (leases q)")
      case True
      then show ?thesis using l by (intro exI [of _ t]) simp
    next
      case False
      with i have "i < length (leases q)" "\<not> leases q ! i" by (auto simp: nth_append split: if_splits)
      from live [OF this] obtain t' r where o: "owns T (futures q) t' r i" by blast
      with no_t have "t' \<noteq> t" by blast
      with o show ?thesis by auto
    qed
  next
    fix t' r i
    assume "if t' = t then Holding p l = Holding r i \<or> (\<exists>f. Holding p l = Waiting r f \<and> futures q ! f = Done i)
        else owns T (futures q) t' r i"
    then show "i < length (leases q @ [False])" "\<not> (leases q @ [False]) ! i \<Longrightarrow> Some p = Some r"
      using l own less_SucI [OF own(1)] by (auto simp: nth_append split: if_splits)
  next
    fix t' t'' r r' i
    assume "(if t' = t then Holding p l = Holding r i \<or> (\<exists>f. Holding p l = Waiting r f \<and> futures q ! f = Done i)
        else owns T (futures q) t' r i) \<and>
      (if t'' = t then Holding p l = Holding r' i \<or> (\<exists>f. Holding p l = Waiting r' f \<and> futures q ! f = Done i)
        else owns T (futures q) t'' r' i)"
    then show "t' = t''" using l own(1) uniq by (auto split: if_splits)
  qed
  then show ?thesis
    using ok lt w frames_ok_arrive [of T "[]" "futures q" t "Holding p l"] T
    by (auto simp: adm_ok_def q' counts_ok_def)
qed

lemma adm_ok_arrive_failed:
  assumes ok: "adm_ok T q" and T: "T t = None"
  shows "adm_ok (T(t \<mapsto> Failed)) q"
proof -
  have "owns (T(t \<mapsto> Failed)) fs t' r i = owns T fs t' r i" for fs t' r i
    using T by (auto simp: owns_def)
  then have "leases_ok (T(t \<mapsto> Failed)) fs ls pr = leases_ok T fs ls pr" for fs ls pr
    by (simp add: leases_ok_def)
  then show ?thesis
    using ok T frames_ok_arrive [of T "waiting q" "futures q" t Failed] by (simp add: adm_ok_def)
qed

lemma adm_ok_arrive_queued:
  assumes ok: "adm_ok T q" and T: "T t = None" and m: "int (length (waiting q)) < max_waiting q"
  shows "adm_ok (T(t \<mapsto> Waiting p (length (futures q))))
     (q\<lparr>futures := futures q @ [Pending], waiting := waiting q @ [(p, length (futures q))]\<rparr>)"
proof -
  have fl: "f < length (futures q)" if "T t' = Some (Waiting r f)" for t' r f
    using ok that unfolding adm_ok_def frames_ok_def by blast
  have ow: "owns (T(t \<mapsto> Waiting p (length (futures q)))) (futures q @ [Pending]) t' r i =
      owns T (futures q) t' r i" for t' r i
    using T fl by (auto simp: owns_def nth_append)
  have fr: "frames_ok T (waiting q) (futures q)" using ok by (simp add: adm_ok_def)
  have "frames_ok (T(t \<mapsto> Waiting p (length (futures q)))) (waiting q @ [(p, length (futures q))])
      (futures q @ [Pending])"
    unfolding frames_ok_def
  proof (intro conjI ballI allI impI)
    fix e assume "e \<in> set (waiting q @ [(p, length (futures q))])"
    then consider "e \<in> set (waiting q)" | "e = (p, length (futures q))" by auto
    then show "\<exists>t'. (T(t \<mapsto> Waiting p (length (futures q)))) t' = Some (Waiting (fst e) (snd e))"
    proof cases
      case 1
      then obtain t' where t': "T t' = Some (Waiting (fst e) (snd e))" using fr unfolding frames_ok_def by blast
      then have "t' \<noteq> t" using T by auto
      with t' show ?thesis by auto
    next
      case 2
      then show ?thesis by auto
    qed
  next
    fix t' r f assume "(T(t \<mapsto> Waiting p (length (futures q)))) t' = Some (Waiting r f)"
    then show "f < length (futures q @ [Pending])" using fl by (fastforce split: if_splits)
  next
    fix t' t'' r r' f
    assume "(T(t \<mapsto> Waiting p (length (futures q)))) t' = Some (Waiting r f) \<and>
      (T(t \<mapsto> Waiting p (length (futures q)))) t'' = Some (Waiting r' f)"
    then show "t' = t''"
      using frames_ok_unique [OF fr] fl less_irrefl_nat by (auto split: if_splits) blast+
  qed
  then show ?thesis
    using ok m waiters_ok_enqueue served_in_order_enqueue
    by (auto simp: adm_ok_def leases_ok_def ow counts_ok_def)
qed

lemma settled_enqueue:
  assumes ok: "adm_ok T q" and st: "settled q"
    and no: "\<not> (waiting q = [] \<and> active q < limit q \<and> (active q = 0 \<or> profile q = Some p))"
  shows "settled (q\<lparr>futures := futures q @ [Pending], waiting := waiting q @ [(p, length (futures q))]\<rparr>)"
proof (cases "waiting q")
  case Nil
  then show ?thesis using ok no by (auto simp: settled_def adm_ok_def counts_ok_def)
next
  case (Cons e ws)
  then have "snd e < length (futures q)" using ok by (auto simp: adm_ok_def waiters_ok_def)
  with Cons st show ?thesis by (auto simp: settled_def nth_append split: prod.splits)
qed

text \<open>A task leaves once it owns no live lease and is out of the deque.\<close>

lemma adm_ok_leave:
  assumes ok: "adm_ok T q"
    and out: "\<forall>p f. T t = Some (Waiting p f) \<longrightarrow> (p, f) \<notin> set (waiting q)"
    and rel: "\<forall>r i. owns T (futures q) t r i \<longrightarrow> leases q ! i"
  shows "adm_ok (T(t \<mapsto> Failed)) q"
proof -
  have lo: "leases_ok T (futures q) (leases q) (profile q)" using ok by (simp add: adm_ok_def)
  have sub: "owns (T(t \<mapsto> Failed)) (futures q) t' r i = (t' \<noteq> t \<and> owns T (futures q) t' r i)" for t' r i
    by (auto simp: owns_def)
  have "\<exists>t' r. t' \<noteq> t \<and> owns T (futures q) t' r i" if "i < length (leases q)" "\<not> leases q ! i" for i
    using lo rel that unfolding leases_ok_def by metis
  moreover have "i < length (leases q) \<and> (\<not> leases q ! i \<longrightarrow> profile q = Some r)"
    if "owns T (futures q) t' r i" for t' r i
    using lo that unfolding leases_ok_def by blast
  moreover have "t' = t''" if "owns T (futures q) t' r i" "owns T (futures q) t'' r' i" for t' t'' r r' i
    using lo that unfolding leases_ok_def by blast
  ultimately have "leases_ok (T(t \<mapsto> Failed)) (futures q) (leases q) (profile q)"
    unfolding leases_ok_def sub by blast
  moreover have "frames_ok (T(t \<mapsto> Failed)) (waiting q) (futures q)"
    using ok out by (intro frames_ok_drop) (simp_all add: adm_ok_def)
  ultimately show ?thesis using ok by (simp add: adm_ok_def)
qed

lemma adm_ok_cancel:
  assumes "adm_ok T q" "\<forall>l. futures q ! f \<noteq> Done l"
  shows "adm_ok T (q\<lparr>futures := (futures q)[f := Cancelled]\<rparr>)"
  using assms waiters_ok_cancel [of "waiting q" "futures q" f] served_in_order_cancel [of "futures q" f]
    leases_ok_cancel [OF assms(2), of T "leases q" "profile q"]
  by (auto simp: adm_ok_def counts_ok_def)

lemma adm_ok_remove:
  assumes ok: "adm_ok T q" and f: "futures q ! f \<noteq> Pending"
  shows "adm_ok T (q\<lparr>waiting := remove1 (p, f) (waiting q)\<rparr>)"
proof -
  have "frames_ok T (remove1 (p, f) (waiting q)) (futures q)"
    using ok set_remove1_subset [of "(p, f)" "waiting q"] unfolding adm_ok_def frames_ok_def by blast
  moreover have "int (length (remove1 (p, f) (waiting q))) \<le> max_waiting q"
    using ok by (auto simp: adm_ok_def length_remove1)
  ultimately show ?thesis
    using ok waiters_ok_remove [OF _ f, of "waiting q" p] by (auto simp: adm_ok_def counts_ok_def)
qed

lemma waiters_ok_distinct:
  assumes "waiters_ok ws fs"
  shows "(p, f) \<notin> set (remove1 (p, f) ws)"
proof -
  have "distinct (map snd ws)"
    using assms strict_sorted_iff unfolding waiters_ok_def by blast
  then have "distinct ws" by (rule distinct_map [THEN iffD1, THEN conjunct1])
  then show ?thesis by (simp add: set_remove1_eq)
qed

lemma acquire_abort_done:
  assumes "futures q ! f = Done l"
  shows "acquire_abort p f q =
    (let q1 = lease_release l q in promote (q1\<lparr>waiting := remove1 (p, f) (waiting q1)\<rparr>))"
  using assms by (simp add: acquire_abort_def Let_def remove1_idem)

lemma acquire_abort_not_done:
  assumes "\<forall>l. futures q ! f \<noteq> Done l"
  shows "acquire_abort p f q =
    promote (q\<lparr>futures := (futures q)[f := Cancelled], waiting := remove1 (p, f) (waiting q)\<rparr>)"
  using assms by (cases "futures q ! f") (simp_all add: acquire_abort_def Let_def remove1_idem)

text \<open>Both branches reach the same situation before the last promotion: the waiter is gone
  and, if it had been granted a lease, that lease is released.\<close>

lemma acquire_abort_inv:
  assumes ok: "adm_ok T q" and t: "T t = Some (Waiting p f)"
  obtains q2 where "acquire_abort p f q = promote q2" "adm_ok (T(t \<mapsto> Failed)) q2"
    "(p, f) \<notin> set (waiting q2)" "futures q2 ! f \<noteq> Pending"
    "\<forall>l. futures q ! f = Done l \<longrightarrow> l < length (leases q2) \<and> leases q2 ! l"
proof -
  have f: "f < length (futures q)" using ok t unfolding adm_ok_def frames_ok_def by blast
  have own_t: "owns T fs t r i \<longleftrightarrow> r = p \<and> fs ! f = Done i" for fs r i
    using t by (auto simp: owns_def)
  show ?thesis
  proof (cases "\<exists>l. futures q ! f = Done l")
    case True
    then obtain l where l: "futures q ! f = Done l" by blast
    let ?q1 = "lease_release l q" and ?q2 = "(lease_release l q)\<lparr>waiting := remove1 (p, f) (waiting (lease_release l q))\<rparr>"
    have "owns T (futures q) t p l" using t l by (auto simp: owns_def)
    then have len: "l < length (leases q)" using ok unfolding adm_ok_def leases_ok_def by blast
    have ok1: "adm_ok T ?q1" using lease_release_inv(1) [OF ok len] .
    have f1: "futures ?q1 ! f = Done l" using lease_release_futures(1) [of q f l] l by simp
    have "(p, f) \<notin> set (waiting ?q1)"
      using ok1 f1 by (auto simp: adm_ok_def waiters_ok_def)
    then have q2: "?q2 = ?q1" by (simp add: remove1_idem)
    have "adm_ok (T(t \<mapsto> Failed)) ?q1"
      using ok1 \<open>(p, f) \<notin> set (waiting ?q1)\<close> t f1 own_t lease_released [OF len]
      by (intro adm_ok_leave) auto
    then show ?thesis
      using that [of ?q1] acquire_abort_done [OF l, of p] q2 \<open>(p, f) \<notin> set (waiting ?q1)\<close> f1 l
        lease_released [OF len] lease_release_length [of q l] len by (simp add: Let_def)
  next
    case False
    let ?q1 = "q\<lparr>futures := (futures q)[f := Cancelled]\<rparr>"
    let ?q2 = "q\<lparr>futures := (futures q)[f := Cancelled], waiting := remove1 (p, f) (waiting q)\<rparr>"
    have ok1: "adm_ok T ?q1" using adm_ok_cancel [OF ok] False by simp
    have "adm_ok T ?q2" using adm_ok_remove [OF ok1, of f p] f by simp
    moreover have "(p, f) \<notin> set (waiting ?q2)"
      using waiters_ok_distinct [of "waiting q" "futures q"] ok by (simp add: adm_ok_def)
    ultimately have "adm_ok (T(t \<mapsto> Failed)) ?q2"
      using t own_t f by (intro adm_ok_leave) auto
    then show ?thesis
      using that [of ?q2] acquire_abort_not_done [of q f p] False \<open>(p, f) \<notin> set (waiting ?q2)\<close> f by simp
  qed
qed

lemma adm_ok_wake:
  assumes ok: "adm_ok T q" and t: "T t = Some (Waiting p f)" and f: "futures q ! f = Done l"
  shows "adm_ok (T(t \<mapsto> Holding p l)) q"
proof -
  have "owns (T(t \<mapsto> Holding p l)) (futures q) t' r i = owns T (futures q) t' r i" for t' r i
    using t f by (auto simp: owns_def)
  then have "leases_ok (T(t \<mapsto> Holding p l)) (futures q) (leases q) (profile q)"
    using ok by (simp add: adm_ok_def leases_ok_def)
  moreover have "frames_ok (T(t \<mapsto> Holding p l)) (waiting q) (futures q)"
    using ok t f by (intro frames_ok_drop) (auto simp: adm_ok_def waiters_ok_def)
  ultimately show ?thesis using ok by (simp add: adm_ok_def)
qed

subsection \<open>Every step keeps the invariant\<close>

lemma settled_cancel:
  assumes ok: "adm_ok T q" and st: "settled q" and f: "futures q ! f = Pending"
  shows "settled (q\<lparr>futures := (futures q)[f := Cancelled]\<rparr>)"
  using st by (auto simp: settled_def nth_upd split: list.splits)

lemma adm_step_inv: "adm_step s s' \<Longrightarrow> adm_inv s \<Longrightarrow> adm_inv s'"
proof (induction rule: adm_step.induct)
  case (adm_arrive s t p r q')
  let ?q = "queue s" and ?T = "tasks s"
  have ok: "adm_ok ?T ?q" and st: "settled ?q" using adm_arrive.prems by (simp_all add: adm_inv_def)
  consider (now) l where "waiting ?q = []" "active ?q < limit ?q" "active ?q = 0 \<or> profile ?q = Some p"
      "grant p ?q = (l, q')" "r = Inr (Granted l)"
    | (full) "r = Inl QueueFull" "q' = ?q"
    | (queued) "\<not> (waiting ?q = [] \<and> active ?q < limit ?q \<and> (active ?q = 0 \<or> profile ?q = Some p))"
      "int (length (waiting ?q)) < max_waiting ?q" "r = Inr (Queued (length (futures ?q)))"
      "q' = ?q\<lparr>futures := futures ?q @ [Pending], waiting := waiting ?q @ [(p, length (futures ?q))]\<rparr>"
    using adm_arrive.hyps(2) by (auto simp: acquire_start_def split: if_splits prod.splits)
  then show ?case
  proof cases
    case now
    then have "settled q'" by (auto simp: settled_def grant_def)
    then show ?thesis
      using adm_ok_arrive_granted [OF ok adm_arrive.hyps(1) now(1-4)] now(5) by (simp add: adm_inv_def frame_of_def)
  next
    case full
    then show ?thesis
      using adm_ok_arrive_failed [OF ok adm_arrive.hyps(1)] st by (simp add: adm_inv_def frame_of_def)
  next
    case queued
    then show ?thesis
      using adm_ok_arrive_queued [OF ok adm_arrive.hyps(1) queued(2), of p] settled_enqueue [OF ok st queued(1)]
      by (simp add: adm_inv_def frame_of_def)
  qed
next
  case (adm_interrupt s t p f)
  then show ?case
    using adm_ok_cancel [of "tasks s" "queue s" f] settled_cancel [of "tasks s" "queue s" f]
    by (simp add: adm_inv_def)
next
  case (adm_wake s t p f l)
  then show ?case using adm_ok_wake [of "tasks s" "queue s" t p f l] by (simp add: adm_inv_def)
next
  case (adm_abort s t p f)
  then have "adm_ok (tasks s) (queue s)" by (simp add: adm_inv_def)
  from acquire_abort_inv [OF this adm_abort.hyps] obtain q2 where
    "acquire_abort p f (queue s) = promote q2" "adm_ok ((tasks s)(t \<mapsto> Failed)) q2" by blast
  then show ?case using promote_ok promote_settled by (simp add: adm_inv_def)
next
  case (adm_release s t p l)
  then have ok: "adm_ok (tasks s) (queue s)" "settled (queue s)" by (simp_all add: adm_inv_def)
  moreover have "owns (tasks s) (futures (queue s)) t p l" using adm_release.hyps by (simp add: owns_def)
  ultimately have "l < length (leases (queue s))" unfolding adm_ok_def leases_ok_def by blast
  with ok show ?case using lease_release_inv [of "tasks s" "queue s" l] by (simp add: adm_inv_def)
qed

lemma adm_init_inv:
  assumes "adm_init s"
  shows "adm_inv s"
proof -
  obtain lmt maxw where q: "queue s = \<lparr>limit = lmt, max_waiting = maxw, active = 0, profile = None,
      waiting = [], futures = [], leases = []\<rparr>" "1 \<le> lmt" "0 \<le> maxw" and T: "tasks s = (\<lambda>_. None)"
    using assms by (auto simp: adm_init_def AdmissionQueue_def eq_commute [of _ "queue s"] split: if_splits)
  show ?thesis
    unfolding adm_inv_def adm_ok_def q(1) T using q(2,3)
    by (simp add: counts_ok_def waiters_ok_def served_in_order_def frames_ok_def leases_ok_def
        settled_def owns_def live_leases_def)
qed

interpretation adm: transition_system adm_init adm_step adm_inv
  by unfold_locales (blast intro: adm_init_inv adm_step_inv)+

abbreviation adm_reachable :: "adm_sys \<Rightarrow> bool" where
  "adm_reachable \<equiv> reach adm_init adm_step"

lemma adm_reachable_ok:
  assumes "adm_reachable s"
  shows "adm_ok (tasks s) (queue s)" "settled (queue s)"
  using adm.reach_inv [OF assms] by (simp_all add: adm_inv_def)

section \<open>An abstract queue\<close>

text \<open>
  The contract of the class, without futures and leases: how many requests run, for which
  profile, and which profiles wait, in order.  \<open>admit\<close> lets waiters in from the front for
  as long as there is room and the batch keeps its profile.
\<close>

type_synonym batch_queue = "int \<times> string option \<times> string list"

fun admit :: "int \<Rightarrow> batch_queue \<Rightarrow> batch_queue" where
  "admit lmt (n, pr, []) = (n, pr, [])"
| "admit lmt (n, pr, p # ps) =
     (if n < lmt \<and> (n = 0 \<or> pr = Some p) then admit lmt (n + 1, Some p, ps) else (n, pr, p # ps))"

definition waiting_profiles :: "admission \<Rightarrow> string list" where
  "waiting_profiles q = map fst (filter (\<lambda>e. futures q ! snd e = Pending) (waiting q))"

definition abs_queue :: "admission \<Rightarrow> batch_queue" where
  "abs_queue q = (active q, profile q, waiting_profiles q)"

lemma admit_full: "\<not> n < lmt \<Longrightarrow> admit lmt (n, pr, ps) = (n, pr, ps)"
  by (cases ps) auto

lemma waiting_profiles_serve:
  assumes "waiters_ok ((p, f) # ws) fs"
  shows "map fst (filter (\<lambda>e. fs[f := Done l] ! snd e = Pending) ws) =
         map fst (filter (\<lambda>e. fs ! snd e = Pending) ws)"
proof -
  have "\<forall>e \<in> set ws. snd e \<noteq> f" using waiters_ok_head(2) [OF assms] by fastforce
  then show ?thesis by (intro arg_cong [where f = "map fst"] filter_cong) (auto simp: nth_upd)
qed

lemma promote_refines: "adm_ok T q \<Longrightarrow> abs_queue (promote q) = admit (limit q) (abs_queue q)"
proof (induction q rule: promote_induct)
  case (stop q)
  then show ?case
    by (auto simp: abs_queue_def waiting_profiles_def admit_full)
next
  case (skip q p f ws)
  then show ?case
    using adm_ok_skip [OF skip.prems skip.hyps(1,3)] by (simp add: abs_queue_def waiting_profiles_def)
next
  case (grant q p f ws q')
  have wo: "waiters_ok ((p, f) # ws) (futures q)"
    using grant.prems grant.hyps(1) by (simp add: adm_ok_def)
  show ?case
    using grant adm_ok_grant [OF grant.prems grant.hyps(1-5)] waiting_profiles_serve [OF wo]
    by (auto simp: abs_queue_def waiting_profiles_def)
qed

section \<open>Properties\<close>

text \<open>
  A small run for the witnesses: one slot, task 0 holds it for profile \<open>a\<close>, tasks 1 and 2
  wait for \<open>b\<close>; then task 1 is interrupted, and task 0 releases.
\<close>

definition demo_queue :: admission where
  "demo_queue = \<lparr>limit = 1, max_waiting = 5, active = 1, profile = Some ''a'',
     waiting = [(''b'', 0), (''b'', 1)], futures = [Pending, Pending], leases = [False]\<rparr>"

definition demo_sys :: adm_sys where
  "demo_sys = \<lparr>queue = demo_queue,
     tasks = [0 \<mapsto> Holding ''a'' 0, 1 \<mapsto> Waiting ''b'' 0, 2 \<mapsto> Waiting ''b'' 1]\<rparr>"

definition demo_sys2 :: adm_sys where
  "demo_sys2 = \<lparr>queue = demo_queue\<lparr>profile := Some ''b'', waiting := [],
       futures := [Cancelled, Done 1], leases := [True, False]\<rparr>,
     tasks = tasks demo_sys\<rparr>"

lemma adm_arriveI:
  "adm_reachable s \<Longrightarrow> tasks s t = None \<Longrightarrow> acquire_start p (queue s) = (r, q') \<Longrightarrow>
   s' = \<lparr>queue = q', tasks = (tasks s)(t \<mapsto> frame_of p r)\<rparr> \<Longrightarrow> adm_reachable s'"
  by (auto intro: reach_step adm_arrive)

lemma adm_initI: "AdmissionQueue lmt maxw tmo = Inr q \<Longrightarrow> adm_init \<lparr>queue = q, tasks = (\<lambda>_. None)\<rparr>"
  by (auto simp: adm_init_def)

lemma demo_reachable: "adm_reachable demo_sys"
proof -
  let ?q0 = "\<lparr>limit = 1, max_waiting = 5, active = 0, profile = None, waiting = [], futures = [], leases = []\<rparr>"
  have 0: "adm_reachable \<lparr>queue = ?q0, tasks = (\<lambda>_. None)\<rparr>"
    by (rule reach_init, rule adm_initI [of 1 5 1]) (simp add: AdmissionQueue_def)
  have 1: "adm_reachable \<lparr>queue = ?q0\<lparr>active := 1, profile := Some ''a'', leases := [False]\<rparr>,
      tasks = [0 \<mapsto> Holding ''a'' 0]\<rparr>"
    by (rule adm_arriveI [OF 0, of 0 "''a''" "Inr (Granted 0)"])
      (simp_all add: acquire_start_def grant_def frame_of_def)
  have 2: "adm_reachable \<lparr>queue = ?q0\<lparr>active := 1, profile := Some ''a'', leases := [False],
        waiting := [(''b'', 0)], futures := [Pending]\<rparr>,
      tasks = [0 \<mapsto> Holding ''a'' 0, 1 \<mapsto> Waiting ''b'' 0]\<rparr>"
    by (rule adm_arriveI [OF 1, of 1 "''b''" "Inr (Queued 0)"])
      (simp_all add: acquire_start_def frame_of_def)
  show ?thesis
    by (rule adm_arriveI [OF 2, of 2 "''b''" "Inr (Queued 1)"])
      (simp_all add: acquire_start_def frame_of_def demo_sys_def demo_queue_def)
qed

lemma demo_release:
  "lease_release 0 (demo_queue\<lparr>futures := [Cancelled, Pending]\<rparr>) = queue demo_sys2"
  by (simp add: lease_release_def Let_def demo_queue_def demo_sys2_def promote.simps grant_def)

lemma demo2_reachable: "adm_reachable demo_sys2"
proof -
  have 1: "adm_reachable (demo_sys\<lparr>queue := demo_queue\<lparr>futures := [Cancelled, Pending]\<rparr>\<rparr>)"
    using reach_step [OF demo_reachable adm_interrupt [where t = 1 and p = "''b''" and f = 0]]
    by (simp add: demo_sys_def demo_queue_def)
  show ?thesis
    using reach_step [OF 1 adm_release [where t = 0 and p = "''a''" and l = 0]] demo_release
    by (simp add: demo_sys_def demo_sys2_def)
qed

text \<open>C1: In every reachable state the number of active requests is the number of leases that
  were handed out and not released, it never exceeds the limit, every such lease belongs to
  exactly one request, and all of these requests asked for the same profile: two profiles are
  never served at once.
\<close>

theorem admission_batch_safety:
  assumes "adm_reachable s"
  shows "0 \<le> active (queue s) \<and> active (queue s) \<le> limit (queue s) \<and>
    active (queue s) = int (live_leases (leases (queue s))) \<and>
    (\<forall>l < length (leases (queue s)). \<not> leases (queue s) ! l \<longrightarrow>
       (\<exists>!t. \<exists>p. owns (tasks s) (futures (queue s)) t p l)) \<and>
    (\<forall>t p l t' p' l'. owns (tasks s) (futures (queue s)) t p l \<and> \<not> leases (queue s) ! l \<and>
       owns (tasks s) (futures (queue s)) t' p' l' \<and> \<not> leases (queue s) ! l' \<longrightarrow> p = p')"
proof -
  have ok: "counts_ok (queue s)" "leases_ok (tasks s) (futures (queue s)) (leases (queue s)) (profile (queue s))"
    using adm_reachable_ok(1) [OF assms] by (simp_all add: adm_ok_def)
  have "\<exists>!t. \<exists>p. owns (tasks s) (futures (queue s)) t p l"
    if "l < length (leases (queue s))" "\<not> leases (queue s) ! l" for l
    using ok(2) that unfolding leases_ok_def by blast
  moreover have "p = p'"
    if "owns (tasks s) (futures (queue s)) t p l" "\<not> leases (queue s) ! l"
      "owns (tasks s) (futures (queue s)) t' p' l'" "\<not> leases (queue s) ! l'" for t p l t' p' l'
    using ok(2) that unfolding leases_ok_def by (metis option.inject)
  ultimately show ?thesis using ok(1) unfolding counts_ok_def by fastforce
qed

theorem admission_batch_safety_witness:
  "active (queue demo_sys2) \<le> limit (queue demo_sys2) \<and>
   (\<exists>!t. \<exists>p. owns (tasks demo_sys2) (futures (queue demo_sys2)) t p 1)"
  using admission_batch_safety [OF demo2_reachable] by (simp add: demo_sys2_def)

text \<open>C2: Strict FIFO: futures are numbered in order of arrival, and no request is granted while
  an earlier one still waits; a request that is granted without queueing found nobody waiting.
\<close>

theorem admission_fifo:
  assumes "adm_reachable s"
  shows "(\<forall>g < length (futures (queue s)). \<forall>f < g. \<forall>l.
      futures (queue s) ! g = Done l \<longrightarrow> futures (queue s) ! f \<noteq> Pending) \<and>
    (\<forall>p l q'. acquire_start p (queue s) = (Inr (Granted l), q') \<longrightarrow> Pending \<notin> set (futures (queue s)))"
proof -
  have ok: "waiters_ok (waiting (queue s)) (futures (queue s))" "served_in_order (futures (queue s))"
    using adm_reachable_ok(1) [OF assms] by (simp_all add: adm_ok_def)
  have "Pending \<notin> set (futures (queue s))" if "waiting (queue s) = []"
    using ok(1) that by (auto simp: waiters_ok_def in_set_conv_nth)
  moreover have "waiting (queue s) = []" if "acquire_start p (queue s) = (Inr (Granted l), q')" for p l q'
    using that by (auto simp: acquire_start_def split: if_splits prod.splits)
  ultimately show ?thesis using ok(2) by (auto simp: served_in_order_def)
qed

theorem admission_fifo_witness:
  "futures (queue demo_sys2) ! 1 = Done 1 \<and> futures (queue demo_sys2) ! 0 \<noteq> Pending"
  using admission_fifo [OF demo2_reachable] by (simp add: demo_sys2_def)

text \<open>C9: Nobody waits for nothing: while the deque is not empty some request owns a live lease
  (its release will promote), and a head that still waits is held back only by the limit or by
  a running batch of another profile.
\<close>

theorem admission_no_lost_wakeup:
  assumes "adm_reachable s" and "waiting (queue s) = (p, f) # ws"
  shows "(\<exists>t r l. owns (tasks s) (futures (queue s)) t r l \<and> l < length (leases (queue s)) \<and> \<not> leases (queue s) ! l) \<and>
    (futures (queue s) ! f = Pending \<longrightarrow>
       active (queue s) = limit (queue s) \<or> profile (queue s) \<noteq> Some p)"
proof -
  have st: "0 < active (queue s)"
    "futures (queue s) ! f = Pending \<longrightarrow> active (queue s) = limit (queue s) \<or> profile (queue s) \<noteq> Some p"
    using adm_reachable_ok(2) [OF assms(1)] assms(2) by (simp_all add: settled_def)
  have ok: "counts_ok (queue s)" "leases_ok (tasks s) (futures (queue s)) (leases (queue s)) (profile (queue s))"
    using adm_reachable_ok(1) [OF assms(1)] by (simp_all add: adm_ok_def)
  have "live_leases (leases (queue s)) \<noteq> 0" using ok(1) st(1) by (auto simp: counts_ok_def)
  then obtain l where l: "l < length (leases (queue s))" "\<not> leases (queue s) ! l"
    unfolding live_leases_0 by blast
  then obtain t r where "owns (tasks s) (futures (queue s)) t r l"
    using ok(2) unfolding leases_ok_def by blast
  with l st(2) show ?thesis by blast
qed

theorem admission_no_lost_wakeup_witness:
  "\<exists>t r l. owns (tasks demo_sys) (futures (queue demo_sys)) t r l \<and> l < length (leases (queue demo_sys)) \<and>
     \<not> leases (queue demo_sys) ! l"
  using admission_no_lost_wakeup [OF demo_reachable, of "''b''" 0 "[(''b'', 1)]"]
  by (simp add: demo_sys_def demo_queue_def)

text \<open>C10: A waiter that is cancelled or times out leaves nothing behind, even when the grant won
  the race: its future is no longer pending, its entry is out of the deque, and a lease it had
  been granted is released.
\<close>

theorem admission_abort_leaks_nothing:
  assumes "adm_reachable s" and "tasks s t = Some (Waiting p f)"
  shows "(let q' = acquire_abort p f (queue s) in
    (p, f) \<notin> set (waiting q') \<and> futures q' ! f \<noteq> Pending \<and>
    (\<forall>l. futures (queue s) ! f = Done l \<longrightarrow> leases q' ! l))"
proof -
  obtain q2 where q2: "acquire_abort p f (queue s) = promote q2" "(p, f) \<notin> set (waiting q2)"
    "futures q2 ! f \<noteq> Pending"
    "\<forall>l. futures (queue s) ! f = Done l \<longrightarrow> l < length (leases q2) \<and> leases q2 ! l"
    using acquire_abort_inv [OF adm_reachable_ok(1) [OF assms(1)] assms(2)] by blast
  then show ?thesis
    using promote_futures [of q2 f] promote_leases [of q2] by (auto simp: Let_def)
qed

theorem admission_abort_leaks_nothing_witness:
  "leases (acquire_abort ''b'' 1 (queue demo_sys2)) ! 1"
  using admission_abort_leaks_nothing [OF demo2_reachable, of 2 "''b''" 1]
  by (simp add: Let_def demo_sys_def demo_sys2_def)

text \<open>C29: Releasing a live lease implements the abstract queue: one request fewer, no profile
  when it was the last, then the front of the queue is admitted for as long as there is room
  and the batch keeps its profile.  Releasing a lease twice is the same as releasing it once.
\<close>

theorem release_refines_admit:
  assumes "adm_reachable s" and "l < length (leases (queue s))" and "\<not> leases (queue s) ! l"
  shows "abs_queue (lease_release l (queue s)) =
      admit (limit (queue s))
        (active (queue s) - 1, if active (queue s) = 1 then None else profile (queue s), waiting_profiles (queue s)) \<and>
    lease_release l (lease_release l (queue s)) = lease_release l (queue s)"
proof -
  let ?q = "queue s"
  let ?q1 = "?q\<lparr>leases := (leases ?q)[l := True], active := active ?q - 1\<rparr>"
  let ?q2 = "if active ?q1 = 0 then ?q1\<lparr>profile := None\<rparr> else ?q1"
  have ok: "adm_ok (tasks s) ?q" using adm_reachable_ok(1) [OF assms(1)] .
  have "adm_ok (tasks s) ?q2" using adm_ok_released [OF ok assms(2,3)] by simp
  from promote_refines [OF this]
  have "abs_queue (promote ?q2) = admit (limit ?q)
      (active ?q - 1, if active ?q = 1 then None else profile ?q, waiting_profiles ?q)"
    by (simp add: abs_queue_def waiting_profiles_def split: if_splits)
  moreover have "lease_release l ?q = promote ?q2" using assms(3) by (simp add: lease_release_def Let_def)
  moreover have "lease_release l (lease_release l ?q) = lease_release l ?q"
    using lease_released [OF assms(2)] by (subst lease_release_def) simp
  ultimately show ?thesis by simp
qed

theorem release_refines_admit_witness:
  "abs_queue (lease_release 0 (queue demo_sys)) = (1, Some ''b'', [''b''])"
  using release_refines_admit [OF demo_reachable, of 0]
  by (simp add: demo_sys_def demo_queue_def waiting_profiles_def)

text \<open>A busy profile cannot starve a waiting switch: when the last active request releases
  its lease, the earliest waiter gets one, for its own profile.
\<close>

theorem last_release_serves_head:
  assumes "adm_reachable s" and "active (queue s) = 1"
    and "l < length (leases (queue s))" and "\<not> leases (queue s) ! l"
    and "waiting (queue s) = (p, f) # ws" and "futures (queue s) ! f = Pending"
  shows "\<exists>l'. futures (lease_release l (queue s)) ! f = Done l' \<and> profile (lease_release l (queue s)) = Some p"
proof -
  let ?q = "queue s"
  let ?q2 = "?q\<lparr>leases := (leases ?q)[l := True], active := 0, profile := None\<rparr>"
  let ?q3 = "?q2\<lparr>waiting := ws, active := 1, profile := Some p, leases := (leases ?q)[l := True] @ [False],
      futures := (futures ?q)[f := Done (length (leases ?q))]\<rparr>"
  have ok: "adm_ok (tasks s) ?q" using adm_reachable_ok(1) [OF assms(1)] .
  have f: "f < length (futures ?q)" using ok assms(5) by (auto simp: adm_ok_def waiters_ok_def)
  have "1 \<le> limit ?q" using ok by (auto simp: adm_ok_def counts_ok_def)
  then have rel: "lease_release l ?q = promote ?q3"
    using assms(2,4,5,6) promote_grant [of ?q2 p f ws] by (simp add: lease_release_def Let_def)
  then have "futures (lease_release l ?q) ! f = Done (length (leases ?q))"
    using promote_futures [of ?q3 f] f by simp
  moreover have "profile (promote ?q3) = Some p"
    using promote_keeps_profile [of ?q3] by simp
  ultimately show ?thesis using rel by auto
qed

theorem last_release_serves_head_witness:
  "\<exists>l'. futures (lease_release 0 (queue demo_sys)) ! 0 = Done l' \<and>
     profile (lease_release 0 (queue demo_sys)) = Some ''b''"
  using last_release_serves_head [OF demo_reachable, of 0 "''b''" 0 "[(''b'', 1)]"]
  by (simp add: demo_sys_def demo_queue_def)

end
