(* ===== verification/Schemas.thy ===== *)
theory Schemas
  imports Prelude
begin

text \<open>
  The data models of \<open>gateway/schemas.py\<close> that the other components exchange: the
  enumerations, the VRAM report, the model slot, the Ray status and the agent request.
  Field names carry a prefix (\<open>gpu_\<close>, \<open>vr_\<close>, \<open>slot_\<close>, \<open>rc_\<close>,
  \<open>rs_\<close>, \<open>req_\<close>) because a record field is a constant of the theory.
\<close>

section \<open>Enumerations\<close>

datatype profile_mode = FOCUS | CREATIVE

datatype container_state = STARTING | READY | STOPPING | STOPPED | PAUSED | ERROR

datatype media_type = TEXT | IMAGE | VIDEO

datatype swap_strategy = PAUSE_UNPAUSE | STOP_START

text \<open>\<open>Enum.value\<close>: both enumerations are \<open>str\<close> subclasses.\<close>

fun profile_mode_value :: "profile_mode \<Rightarrow> string" where
  "profile_mode_value FOCUS = ''focus''"
| "profile_mode_value CREATIVE = ''creative''"

fun container_state_value :: "container_state \<Rightarrow> string" where
  "container_state_value STARTING = ''starting''"
| "container_state_value READY = ''ready''"
| "container_state_value STOPPING = ''stopping''"
| "container_state_value STOPPED = ''stopped''"
| "container_state_value PAUSED = ''paused''"
| "container_state_value ERROR = ''error''"

text \<open>
  The states are ordered by their string value, as Python compares \<open>str\<close>
  enumeration members.
\<close>

lemma container_state_value_inj: "container_state_value a = container_state_value b \<Longrightarrow> a = b"
  by (cases a; cases b) simp_all

instantiation container_state :: linorder
begin

definition less_eq_container_state :: "container_state \<Rightarrow> container_state \<Rightarrow> bool" where
  "less_eq_container_state a b = (container_state_value a \<le> container_state_value b)"

definition less_container_state :: "container_state \<Rightarrow> container_state \<Rightarrow> bool" where
  "less_container_state a b = (container_state_value a < container_state_value b)"

instance
proof
  fix x y z :: container_state
  show "x < y \<longleftrightarrow> x \<le> y \<and> \<not> y \<le> x"
    by (auto simp: less_eq_container_state_def less_container_state_def)
  show "x \<le> x" by (simp add: less_eq_container_state_def)
  show "x \<le> y \<Longrightarrow> y \<le> z \<Longrightarrow> x \<le> z"
    by (auto simp: less_eq_container_state_def)
  show "x \<le> y \<Longrightarrow> y \<le> x \<Longrightarrow> x = y"
    by (auto simp: less_eq_container_state_def intro: container_state_value_inj)
  show "x \<le> y \<or> y \<le> x" by (auto simp: less_eq_container_state_def)
qed

end

section \<open>VRAM\<close>

record gpu_info =
  gpu_index :: nat
  gpu_name :: string
  gpu_total_mb :: int
  gpu_used_mb :: int
  gpu_free_mb :: int
  gpu_temperature_c :: int
  gpu_utilization_pct :: int

record vram_report =
  vr_gpus :: "gpu_info list"
  vr_total_mb :: int
  vr_used_mb :: int
  vr_free_mb :: int
  vr_healthy :: bool

text \<open>\<open>VRAMReport()\<close> with the defaults of the class (the timestamp is not modelled).\<close>

definition empty_vram_report :: vram_report where
  "empty_vram_report = \<lparr>vr_gpus = [], vr_total_mb = 0, vr_used_mb = 0, vr_free_mb = 0, vr_healthy = True\<rparr>"

section \<open>Model slots and Ray status\<close>

text \<open>\<open>max_model_len\<close> is either a token budget or the string \<open>"auto"\<close>.\<close>

datatype int_or_str = MInt int | MStr string

record model_slot =
  slot_name :: string
  slot_label :: string
  slot_container_name :: string
  slot_vram_allocated_mb :: int
  slot_state :: container_state
  slot_port :: nat
  slot_quantization :: string
  slot_tensor_parallel_size :: nat
  slot_max_model_len :: int_or_str
  slot_kv_cache_dtype :: string

record ray_cluster_status =
  rc_container :: string
  rc_nodes_active :: int
  rc_nodes_required :: int
  rc_models :: "string list"
  rc_healthy :: bool
  rc_detail :: "string option"

record ray_status =
  rs_healthy :: bool
  rs_clusters :: "ray_cluster_status list"
  rs_checked_ms_ago :: "nat option"

section \<open>Agent requests\<close>

datatype json =
    JNull
  | JBool bool
  | JInt int
  | JFloat rat
  | JStr string
  | JArr "json list"
  | JObj "(string \<times> json) list"

text \<open>
  The declared fields of \<open>AgentRequest\<close> the gateway itself reads, and the extra fields
  the client sent (\<open>model_extra\<close>).  The sampling parameters it only forwards are
  kept as the JSON of the declared optional fields.
\<close>

record agent_request =
  req_model :: string
  req_messages :: "(string, json) dict list"
  req_stream :: bool
  req_agent_id :: "string option"
  req_session_id :: "string option"
  req_declared :: "(string, json) dict"
  req_extra :: "(string, json) dict"

definition GATEWAY_ONLY :: "string list" where
  "GATEWAY_ONLY = [''model'', ''media_type'', ''media_params'', ''priority'',
     ''agent_id'', ''session_id'', ''conversation_id'']"

text \<open>
  \<open>forwarded_params\<close>: \<open>dump\<close> is the dictionary pydantic's
  \<open>model_dump(exclude_none=True, exclude=_GATEWAY_ONLY)\<close> returned for the request.
\<close>

definition forwarded_params ::
    "(agent_request \<Rightarrow> string list \<Rightarrow> (string, json) dict) \<Rightarrow> agent_request \<Rightarrow> (string, json) dict" where
  "forwarded_params dump r =
     dict_merge (dump r GATEWAY_ONLY) (filter (\<lambda>(k, v). k \<notin> set GATEWAY_ONLY) (req_extra r))"

end
