(* ===== verification/Config.thy ===== *)
theory Config
  imports Schemas
begin

text \<open>
  \<open>gateway/config.py\<close>: the settings read from the environment, the model definitions
  and load profiles, the catalog of three models and three profiles, and the choice of the
  swap strategy.

  The environment is a map from variable names to values, and the files the module opens are
  a map from paths to lists of lines (\<open>None\<close> is an \<open>OSError\<close>).  The catalog
  depends on one setting, the name of the cluster container, which is an argument here.
\<close>

section \<open>Environment variables\<close>

definition getenv :: "(string \<rightharpoonup> string) \<Rightarrow> string \<Rightarrow> string \<Rightarrow> string" where
  "getenv env k dflt = (case env k of None \<Rightarrow> dflt | Some v \<Rightarrow> v)"

definition getenv_int :: "(string \<rightharpoonup> string) \<Rightarrow> string \<Rightarrow> string \<Rightarrow> exn + int" where
  "getenv_int env k dflt = py_int (getenv env k dflt)"

record settings =
  GATEWAY_PORT :: int
  RAY_HEAD_HOST :: string
  SPARK_CLUSTER_CONTAINER :: string
  SPARK_WORKER_HOSTS :: "string list"
  SPARK_SSH_USER :: string
  SPARK_SSH_KEY :: string
  SPARK_MASTER_PORT :: int
  MODELS_PATH :: string
  SYSTEM_RAM_GB :: int
  SWAP_TIMEOUT_S :: int
  VRAM_SAFETY_MARGIN_MB :: int
  DOCKER_NETWORK :: string
  RETRY_AFTER_SECONDS :: int
  RETRY_LOG_INTERVAL_S :: int
  MAX_QUEUE_SIZE :: int
  MAX_CONCURRENT_REQUESTS :: int
  INFERENCE_QUEUE_SIZE :: int
  LONG_POLLING_ENABLED :: bool
  LONG_POLLING_TIMEOUT_S :: int

definition parse_worker_hosts :: "string \<Rightarrow> string list" where
  "parse_worker_hosts raw =
     map py_strip (filter (\<lambda>h. py_strip h \<noteq> []) (split_char (CHR '','') raw))"

text \<open>
  \<open>_detect_system_ram_gb\<close>: the first \<open>MemTotal:\<close> line of the first file that has a
  well-formed one.  A file that cannot be opened, or whose line does not parse, is skipped; so
  is a file without such a line.
\<close>

fun scan_mem_total :: "string list \<Rightarrow> int option" where
  "scan_mem_total [] = None"
| "scan_mem_total (line # ls) =
     (if prefix ''MemTotal:'' line then
        (case split_ws line of
           _ # kb # _ \<Rightarrow> (case py_int kb of Inl _ \<Rightarrow> None | Inr n \<Rightarrow> Some (n div (1024 * 1024)))
         | _ \<Rightarrow> None)
      else scan_mem_total ls)"

fun detect_system_ram_gb :: "(string \<rightharpoonup> string list) \<Rightarrow> string list \<Rightarrow> int \<Rightarrow> int" where
  "detect_system_ram_gb files [] dflt = dflt"
| "detect_system_ram_gb files (path # paths) dflt =
     (case files path of
        None \<Rightarrow> detect_system_ram_gb files paths dflt
      | Some ls \<Rightarrow> (case scan_mem_total ls of
            None \<Rightarrow> detect_system_ram_gb files paths dflt
          | Some gb \<Rightarrow> gb))"

text \<open>\<open>int(os.getenv("SYSTEM_RAM_GB", "0")) or _detect_system_ram_gb()\<close>.\<close>

definition system_ram_gb :: "(string \<rightharpoonup> string) \<Rightarrow> (string \<rightharpoonup> string list) \<Rightarrow> exn + int" where
  "system_ram_gb env files =
     and_then (getenv_int env ''SYSTEM_RAM_GB'' ''0'') (\<lambda>n.
       Inr (if n \<noteq> 0 then n
            else detect_system_ram_gb files
                   [getenv env ''HOST_MEMINFO_PATH'' ''/host/meminfo'', ''/proc/meminfo''] 512))"

definition load_settings :: "(string \<rightharpoonup> string) \<Rightarrow> (string \<rightharpoonup> string list) \<Rightarrow> exn + settings" where
  "load_settings env files =
     and_then (getenv_int env ''GATEWAY_PORT'' ''8000'') (\<lambda>gport.
     and_then (getenv_int env ''SPARK_MASTER_PORT'' ''29501'') (\<lambda>mport.
     and_then (system_ram_gb env files) (\<lambda>ram.
     and_then (getenv_int env ''SWAP_TIMEOUT_S'' ''600'') (\<lambda>swap_timeout.
     and_then (getenv_int env ''VRAM_SAFETY_MARGIN_MB'' ''4096'') (\<lambda>margin.
     and_then (getenv_int env ''RETRY_AFTER_SECONDS'' ''5'') (\<lambda>retry_after.
     and_then (getenv_int env ''RETRY_LOG_INTERVAL_S'' ''10'') (\<lambda>retry_log.
     and_then (getenv_int env ''MAX_QUEUE_SIZE'' ''200'') (\<lambda>max_queue.
     and_then (getenv_int env ''MAX_CONCURRENT_REQUESTS'' ''5'') (\<lambda>max_conc.
     and_then (getenv_int env ''INFERENCE_QUEUE_SIZE'' ''200'') (\<lambda>inf_queue.
     and_then (getenv_int env ''LONG_POLLING_TIMEOUT_S'' ''600'') (\<lambda>lp_timeout.
       Inr \<lparr>GATEWAY_PORT = gport,
            RAY_HEAD_HOST = getenv env ''RAY_HEAD_HOST'' ''192.168.200.12'',
            SPARK_CLUSTER_CONTAINER = getenv env ''SPARK_CLUSTER_CONTAINER'' ''vllm_node'',
            SPARK_WORKER_HOSTS = parse_worker_hosts (getenv env ''SPARK_WORKER_HOSTS'' ''192.168.200.13''),
            SPARK_SSH_USER = getenv env ''SPARK_SSH_USER'' ''alejandroacho'',
            SPARK_SSH_KEY = getenv env ''SPARK_SSH_KEY'' ''/ssh/id_spark'',
            SPARK_MASTER_PORT = mport,
            MODELS_PATH = getenv env ''MODELS_PATH'' ''/home/alejandroacho/Models'',
            SYSTEM_RAM_GB = ram,
            SWAP_TIMEOUT_S = swap_timeout,
            VRAM_SAFETY_MARGIN_MB = margin,
            DOCKER_NETWORK = getenv env ''DOCKER_NETWORK'' ''blackwell_net'',
            RETRY_AFTER_SECONDS = retry_after,
            RETRY_LOG_INTERVAL_S = retry_log,
            MAX_QUEUE_SIZE = max_queue,
            MAX_CONCURRENT_REQUESTS = max_conc,
            INFERENCE_QUEUE_SIZE = inf_queue,
            LONG_POLLING_ENABLED = (py_lower (getenv env ''LONG_POLLING_ENABLED'' ''true'') = ''true''),
            LONG_POLLING_TIMEOUT_S = lp_timeout\<rparr>)))))))))))"

text \<open>The settings of an empty environment on a machine whose memory cannot be read.\<close>

definition default_settings :: settings where
  "default_settings =
     \<lparr>GATEWAY_PORT = 8000, RAY_HEAD_HOST = ''192.168.200.12'', SPARK_CLUSTER_CONTAINER = ''vllm_node'',
      SPARK_WORKER_HOSTS = [''192.168.200.13''], SPARK_SSH_USER = ''alejandroacho'',
      SPARK_SSH_KEY = ''/ssh/id_spark'', SPARK_MASTER_PORT = 29501,
      MODELS_PATH = ''/home/alejandroacho/Models'', SYSTEM_RAM_GB = 512, SWAP_TIMEOUT_S = 600,
      VRAM_SAFETY_MARGIN_MB = 4096, DOCKER_NETWORK = ''blackwell_net'', RETRY_AFTER_SECONDS = 5,
      RETRY_LOG_INTERVAL_S = 10, MAX_QUEUE_SIZE = 200, MAX_CONCURRENT_REQUESTS = 5,
      INFERENCE_QUEUE_SIZE = 200, LONG_POLLING_ENABLED = True, LONG_POLLING_TIMEOUT_S = 600\<rparr>"

lemma parse_worker_hosts_default: "parse_worker_hosts ''192.168.200.13'' = [''192.168.200.13'']"
  by (simp add: parse_worker_hosts_def str_eval)

lemma load_settings_default: "load_settings (\<lambda>_. None) (\<lambda>_. None) = Inr default_settings"
  by (simp add: load_settings_def default_settings_def getenv_int_def getenv_def system_ram_gb_def
      parse_worker_hosts_default)
     (simp add: py_int_def parse_nat_def is_digit_def digit_val_def str_eval)

definition EXEC_ENGINES :: "string list" where
  "EXEC_ENGINES = [''ray_vllm'', ''spark_cluster'']"

section \<open>Model definitions\<close>

text \<open>The values of \<open>extra_args\<close>: strings, integers and booleans (a flag).\<close>

datatype arg_value = ABool bool | AInt int | AStr string

text \<open>\<open>str(val)\<close>.\<close>

fun show_arg :: "arg_value \<Rightarrow> string" where
  "show_arg (ABool b) = (if b then ''True'' else ''False'')"
| "show_arg (AInt i) = show_int i"
| "show_arg (AStr s) = s"

fun show_int_or_str :: "int_or_str \<Rightarrow> string" where
  "show_int_or_str (MInt i) = show_int i"
| "show_int_or_str (MStr s) = s"

record volume_mount =
  vol_bind :: string
  vol_mode :: string

record model_definition =
  md_name :: string
  md_container_image :: string
  md_container_name :: string
  md_vram_required_mb :: int
  md_port :: nat
  md_quantization :: string
  md_tensor_parallel_size :: nat
  md_max_model_len :: int_or_str
  md_kv_cache_dtype :: string
  md_model_path :: string
  md_hf_model_id :: string
  md_engine :: string
  md_exec_container :: string
  md_cluster_nodes :: nat
  md_requires_ray_cluster :: bool
  md_extra_args :: "(string, arg_value) dict"
  md_cmd_prefix :: "string list"
  md_extra_volumes :: "(string, volume_mount) dict"
  md_extra_env :: "(string, string) dict"
  md_container_entrypoint :: "string list option"

text \<open>The dataclass constructor: five required fields, the rest at their defaults.\<close>

definition model_defaults :: "string \<Rightarrow> string \<Rightarrow> string \<Rightarrow> int \<Rightarrow> nat \<Rightarrow> model_definition" where
  "model_defaults nm img cname vram prt =
     \<lparr>md_name = nm, md_container_image = img, md_container_name = cname,
      md_vram_required_mb = vram, md_port = prt, md_quantization = ''Q8_0'',
      md_tensor_parallel_size = 2, md_max_model_len = MInt 128000, md_kv_cache_dtype = ''fp8'',
      md_model_path = '''', md_hf_model_id = '''', md_engine = ''vllm'', md_exec_container = '''',
      md_cluster_nodes = 1, md_requires_ray_cluster = False, md_extra_args = [],
      md_cmd_prefix = [], md_extra_volumes = [], md_extra_env = [],
      md_container_entrypoint = None\<rparr>"

definition required_ray_nodes :: "model_definition \<Rightarrow> nat" where
  "required_ray_nodes m =
     (if md_engine m = ''ray_vllm'' \<or> md_requires_ray_cluster m
      then max (md_tensor_parallel_size m) 1 else 0)"

definition to_slot :: "model_definition \<Rightarrow> container_state \<Rightarrow> model_slot" where
  "to_slot m st =
     \<lparr>slot_name = md_name m, slot_label = '''', slot_container_name = md_container_name m,
      slot_vram_allocated_mb = md_vram_required_mb m, slot_state = st, slot_port = md_port m,
      slot_quantization = md_quantization m,
      slot_tensor_parallel_size = md_tensor_parallel_size m,
      slot_max_model_len = md_max_model_len m, slot_kv_cache_dtype = md_kv_cache_dtype m\<rparr>"

abbreviation exec_managed :: "model_definition \<Rightarrow> bool" where
  "exec_managed m \<equiv> md_engine m \<in> set EXEC_ENGINES"

section \<open>The model catalog\<close>

definition DEEPSEEK_V4_FLASH :: "string \<Rightarrow> model_definition" where
  \<open>DEEPSEEK_V4_FLASH cluster =
     (model_defaults ''deepseek-v4-flash'' ''vllm-node-b12x:latest'' cluster 220000 8020)
     \<lparr>md_quantization := ''auto'', md_tensor_parallel_size := 2, md_max_model_len := MStr ''auto'',
      md_kv_cache_dtype := ''fp8'', md_hf_model_id := ''deepseek-ai/DeepSeek-V4-Flash-0731'',
      md_engine := ''spark_cluster'', md_exec_container := cluster, md_cluster_nodes := 2,
      md_extra_env :=
        [(''CUTE_DSL_ARCH'', ''sm_121a''),
         (''VLLM_USE_AOT_COMPILE'', ''1''),
         (''VLLM_USE_BREAKABLE_CUDAGRAPH'', ''0''),
         (''VLLM_USE_MEGA_AOT_ARTIFACT'', ''1''),
         (''VLLM_MEMORY_PROFILE_INCLUDE_ATTN'', ''1''),
         (''VLLM_USE_FLASHINFER_SAMPLER'', ''1''),
         (''VLLM_USE_B12X_WO_PROJECTION'', ''1''),
         (''VLLM_USE_B12X_MHC'', ''1''),
         (''VLLM_USE_B12X_FP8_GEMM'', ''1''),
         (''VLLM_USE_B12X_MOE'', ''1''),
         (''VLLM_USE_B12X_SPARSE_INDEXER'', ''1''),
         (''VLLM_USE_V2_MODEL_RUNNER'', ''1''),
         (''VLLM_MOE_SKIP_PADDING'', ''0''),
         (''B12X_MLA_SM120_UNIFIED'', ''1''),
         (''B12X_MOE_FORCE_A8'', ''1'')],
      md_extra_args :=
        [(''--host'', AStr ''0.0.0.0''),
         (''--block-size'', AInt 256),
         (''--max-num-seqs'', AInt 8),
         (''--max-num-batched-tokens'', AInt 8192),
         (''--gpu-memory-utilization'', AStr ''0.85''),
         (''--tokenizer-mode'', AStr ''deepseek_v4''),
         (''--tool-call-parser'', AStr ''deepseek_v4''),
         (''--enable-auto-tool-choice'', ABool True),
         (''--reasoning-parser'', AStr ''deepseek_v4''),
         (''--reasoning-config'',
          AStr (''{"reasoning_parser":"deepseek_v4",'' @
                ''"reasoning_start_str":"","reasoning_end_str":""}'')),
         (''--default-chat-template-kwargs.thinking=true'', ABool True),
         (''--default-chat-template-kwargs.reasoning_effort=high'', ABool True),
         (''--load-format'', AStr ''b12x''),
         (''--moe-backend'', AStr ''b12x''),
         (''--linear-backend'', AStr ''b12x''),
         (''--attention-backend'', AStr ''B12X''),
         (''--max-cudagraph-capture-size'', AInt 48),
         (''--compilation-config'',
          AStr ''{"cudagraph_mode":"FULL_AND_PIECEWISE","custom_ops":["all"]}''),
         (''--speculative-config'',
          AStr (''{"method":"dspark","num_speculative_tokens":5,'' @
                ''"draft_sample_method":"probabilistic",'' @
                ''"attention_backend":"B12X"}''))]\<rparr>\<close>

definition QWEN35_122B_FP8 :: "string \<Rightarrow> model_definition" where
  \<open>QWEN35_122B_FP8 cluster =
     (model_defaults ''qwen3.5-122b'' ''vllm-node-b12x:latest'' cluster 140000 8021)
     \<lparr>md_quantization := ''auto'', md_tensor_parallel_size := 2, md_max_model_len := MInt 262144,
      md_kv_cache_dtype := ''auto'', md_hf_model_id := ''Qwen/Qwen3.5-122B-A10B-FP8'',
      md_engine := ''spark_cluster'', md_exec_container := cluster, md_cluster_nodes := 1,
      md_requires_ray_cluster := True,
      md_extra_args :=
        [(''--host'', AStr ''0.0.0.0''),
         (''--distributed-executor-backend'', AStr ''ray''),
         (''--gpu-memory-utilization'', AStr ''0.8''),
         (''--max-num-batched-tokens'', AInt 8192),
         (''--load-format'', AStr ''instanttensor''),
         (''--enable-auto-tool-choice'', ABool True),
         (''--tool-call-parser'', AStr ''qwen3_coder''),
         (''--reasoning-parser'', AStr ''qwen3''),
         (''--chat-template'', AStr ''/workspace/unsloth.jinja'')]\<rparr>\<close>

definition QWEN38_FLASH_NEXT :: "string \<Rightarrow> model_definition" where
  \<open>QWEN38_FLASH_NEXT cluster =
     (model_defaults ''qwen3.8-flash-next'' ''vllm-node-b12x:latest'' cluster 150000 8022)
     \<lparr>md_quantization := ''modelopt_mixed'', md_tensor_parallel_size := 2,
      md_max_model_len := MInt 1000000, md_kv_cache_dtype := ''fp8'',
      md_hf_model_id := ''local-inference-lab/Qwen3.8-Flash-Next-NVFP4'',
      md_engine := ''spark_cluster'', md_exec_container := cluster, md_cluster_nodes := 2,
      md_requires_ray_cluster := False,
      md_extra_env :=
        [(''VLLM_ALLOW_LONG_MAX_MODEL_LEN'', ''1''),
         (''CUTE_DSL_ARCH'', ''sm_121a''),
         (''SAFETENSORS_FAST_GPU'', ''1''),
         (''VLLM_WORKER_MULTIPROC_METHOD'', ''spawn''),
         (''VLLM_SSM_CONV_STATE_LAYOUT'', ''DS''),
         (''VLLM_USE_AOT_COMPILE'', ''1''),
         (''VLLM_USE_MEGA_AOT_ARTIFACT'', ''1''),
         (''VLLM_USE_V2_MODEL_RUNNER'', ''1''),
         (''B12X_POLICY_MODE'', ''auto''),
         (''VLLM_ENABLE_ROCE_ALLREDUCE'', ''1''),
         (''VLLM_ROCE_ALLREDUCE_MAX_SIZE'', ''2MB'')],
      md_extra_args :=
        [(''--revision'', AStr ''7c4f1bc1a2d6847e0cbc01ac6b823f00251de8dd''),
         (''--hf-overrides'',
          AStr (''{"text_config":{"rope_parameters":{"mrope_interleaved":true,'' @
                ''"mrope_section":[11,11,10],"rope_type":"yarn",'' @
                ''"rope_theta":10000000,"partial_rotary_factor":0.25,'' @
                ''"factor":4.0,"original_max_position_embeddings":262144}}}'')),
         (''--host'', AStr ''0.0.0.0''),
         (''--pipeline-parallel-size'', AInt 1),
         (''--dtype'', AStr ''bfloat16''),
         (''--block-size'', AInt 16),
         (''--max-num-seqs'', AInt 16),
         (''--max-num-batched-tokens'', AInt 4096),
         (''--gpu-memory-utilization'', AStr ''0.7''),
         (''--mamba-cache-mode'', AStr ''align''),
         (''--enable-chunked-prefill'', ABool True),
         (''--load-format'', AStr ''b12x''),
         (''--gdn-decode-kernel'', AStr ''b12x''),
         (''--linear-backend'', AStr ''b12x''),
         (''--moe-backend'', AStr ''b12x''),
         (''--no-enable-flashinfer-autotune'', ABool True),
         (''--mm-encoder-tp-mode'', AStr ''data''),
         (''--enable-auto-tool-choice'', ABool True),
         (''--tool-call-parser'', AStr ''qwen3_xml''),
         (''--reasoning-parser'', AStr ''qwen3''),
         (''--compilation-config'', AStr ''{"pass_config":{"fuse_act_quant":true}}'')]\<rparr>\<close>

section \<open>Load profiles\<close>

record vram_profile =
  vp_mode :: profile_mode
  vp_description :: string
  vp_primary_models :: "model_definition list"
  vp_secondary_models :: "model_definition list"
  vp_labels :: "(string, model_definition) dict"
  vp_total_vram_required_mb :: int
  vp_skip_vram_check :: bool

abbreviation all_models_of :: "vram_profile \<Rightarrow> model_definition list" where
  "all_models_of p \<equiv> vp_primary_models p @ vp_secondary_models p"

text \<open>The constructor with \<open>__post_init__\<close>, which computes the total.\<close>

definition mk_profile ::
    "profile_mode \<Rightarrow> string \<Rightarrow> model_definition list \<Rightarrow> model_definition list \<Rightarrow>
     (string, model_definition) dict \<Rightarrow> bool \<Rightarrow> vram_profile" where
  "mk_profile mode descr prim sec labels skip =
     \<lparr>vp_mode = mode, vp_description = descr, vp_primary_models = prim,
      vp_secondary_models = sec, vp_labels = labels,
      vp_total_vram_required_mb = sum_list (map md_vram_required_mb (prim @ sec)),
      vp_skip_vram_check = skip\<rparr>"

definition PROFILE_DEEPSEEK :: "string \<Rightarrow> vram_profile" where
  "PROFILE_DEEPSEEK cluster = mk_profile FOCUS
     (''DeepSeek-V4-Flash 284B-A13B FP4 experts, TP=2 across both Sparks, '' @
      ''1M context + dspark speculative decoding (~220 GB cluster-wide)'')
     [DEEPSEEK_V4_FLASH cluster] []
     [(''chat'', DEEPSEEK_V4_FLASH cluster), (''code'', DEEPSEEK_V4_FLASH cluster)] True"

definition PROFILE_QWEN35 :: "string \<Rightarrow> vram_profile" where
  "PROFILE_QWEN35 cluster = mk_profile FOCUS
     (''Qwen3.5-122B-A10B FP8, TP=2 across both Sparks via Ray, '' @
      ''256K context (~140 GB cluster-wide)'')
     [QWEN35_122B_FP8 cluster] []
     [(''chat'', QWEN35_122B_FP8 cluster), (''code'', QWEN35_122B_FP8 cluster)] True"

definition PROFILE_QWEN38 :: "string \<Rightarrow> vram_profile" where
  "PROFILE_QWEN38 cluster = mk_profile FOCUS
     (''Qwen3.8-Flash-Next NVFP4, TP=2 across both Sparks (native multi-node, '' @
      ''no Ray), 256K context + MTP speculative decoding (~150 GB cluster-wide)'')
     [QWEN38_FLASH_NEXT cluster] []
     [(''chat'', QWEN38_FLASH_NEXT cluster), (''code'', QWEN38_FLASH_NEXT cluster)] True"

text \<open>The registry the other components consult: \<open>PROFILES\<close>, \<open>ALL_MODELS\<close> and the
  default profile.\<close>

record catalog =
  PROFILES :: "(string, vram_profile) dict"
  ALL_MODELS :: "model_definition list"
  DEFAULT_PROFILE :: vram_profile

definition gateway_catalog :: "string \<Rightarrow> catalog" where
  "gateway_catalog cluster =
     \<lparr>PROFILES = [(''deepseek'', PROFILE_DEEPSEEK cluster), (''qwen35'', PROFILE_QWEN35 cluster),
                  (''qwen38'', PROFILE_QWEN38 cluster)],
      ALL_MODELS = [DEEPSEEK_V4_FLASH cluster, QWEN35_122B_FP8 cluster, QWEN38_FLASH_NEXT cluster],
      DEFAULT_PROFILE = PROFILE_DEEPSEEK cluster\<rparr>"

definition get_swap_strategy :: "int \<Rightarrow> swap_strategy" where
  "get_swap_strategy ram_gb = (if ram_gb \<ge> 512 then PAUSE_UNPAUSE else STOP_START)"

section \<open>Facts about the catalog\<close>

text \<open>The fields the other components read, as simplification rules, so that no proof
  needs to unfold a whole model definition.\<close>

lemma deepseek_simps [simp]:
  "md_name (DEEPSEEK_V4_FLASH c) = ''deepseek-v4-flash''"
  "md_container_name (DEEPSEEK_V4_FLASH c) = c"
  "md_exec_container (DEEPSEEK_V4_FLASH c) = c"
  "md_engine (DEEPSEEK_V4_FLASH c) = ''spark_cluster''"
  "md_port (DEEPSEEK_V4_FLASH c) = 8020"
  "md_cluster_nodes (DEEPSEEK_V4_FLASH c) = 2"
  "md_requires_ray_cluster (DEEPSEEK_V4_FLASH c) = False"
  "md_tensor_parallel_size (DEEPSEEK_V4_FLASH c) = 2"
  by (simp_all add: DEEPSEEK_V4_FLASH_def model_defaults_def)

lemma qwen35_simps [simp]:
  "md_name (QWEN35_122B_FP8 c) = ''qwen3.5-122b''"
  "md_container_name (QWEN35_122B_FP8 c) = c"
  "md_exec_container (QWEN35_122B_FP8 c) = c"
  "md_engine (QWEN35_122B_FP8 c) = ''spark_cluster''"
  "md_port (QWEN35_122B_FP8 c) = 8021"
  "md_cluster_nodes (QWEN35_122B_FP8 c) = 1"
  "md_requires_ray_cluster (QWEN35_122B_FP8 c) = True"
  "md_tensor_parallel_size (QWEN35_122B_FP8 c) = 2"
  by (simp_all add: QWEN35_122B_FP8_def model_defaults_def)

lemma qwen38_simps [simp]:
  "md_name (QWEN38_FLASH_NEXT c) = ''qwen3.8-flash-next''"
  "md_container_name (QWEN38_FLASH_NEXT c) = c"
  "md_exec_container (QWEN38_FLASH_NEXT c) = c"
  "md_engine (QWEN38_FLASH_NEXT c) = ''spark_cluster''"
  "md_port (QWEN38_FLASH_NEXT c) = 8022"
  "md_cluster_nodes (QWEN38_FLASH_NEXT c) = 2"
  "md_requires_ray_cluster (QWEN38_FLASH_NEXT c) = False"
  "md_tensor_parallel_size (QWEN38_FLASH_NEXT c) = 2"
  by (simp_all add: QWEN38_FLASH_NEXT_def model_defaults_def)

lemma catalog_models_distinct [simp]:
  "DEEPSEEK_V4_FLASH c \<noteq> QWEN35_122B_FP8 c" "QWEN35_122B_FP8 c \<noteq> DEEPSEEK_V4_FLASH c"
  "DEEPSEEK_V4_FLASH c \<noteq> QWEN38_FLASH_NEXT c" "QWEN38_FLASH_NEXT c \<noteq> DEEPSEEK_V4_FLASH c"
  "QWEN35_122B_FP8 c \<noteq> QWEN38_FLASH_NEXT c" "QWEN38_FLASH_NEXT c \<noteq> QWEN35_122B_FP8 c"
  by (auto dest: arg_cong [where f = md_port])

lemma mk_profile_simps [simp]:
  "vp_mode (mk_profile mode d ps ss ls skip) = mode"
  "vp_primary_models (mk_profile mode d ps ss ls skip) = ps"
  "vp_secondary_models (mk_profile mode d ps ss ls skip) = ss"
  "vp_labels (mk_profile mode d ps ss ls skip) = ls"
  "vp_skip_vram_check (mk_profile mode d ps ss ls skip) = skip"
  "vp_total_vram_required_mb (mk_profile mode d ps ss ls skip) =
     sum_list (map md_vram_required_mb (ps @ ss))"
  by (simp_all add: mk_profile_def)

lemmas profile_defs = PROFILE_DEEPSEEK_def PROFILE_QWEN35_def PROFILE_QWEN38_def

lemma profiles_distinct [simp]:
  "PROFILE_DEEPSEEK c \<noteq> PROFILE_QWEN35 c" "PROFILE_QWEN35 c \<noteq> PROFILE_DEEPSEEK c"
  "PROFILE_DEEPSEEK c \<noteq> PROFILE_QWEN38 c" "PROFILE_QWEN38 c \<noteq> PROFILE_DEEPSEEK c"
  "PROFILE_QWEN35 c \<noteq> PROFILE_QWEN38 c" "PROFILE_QWEN38 c \<noteq> PROFILE_QWEN35 c"
  by (auto simp: profile_defs dest: arg_cong [where f = vp_primary_models])

text \<open>
  What the router and the orchestrator rely on.  A profile has a primary model and its labels
  name its own models.  A catalog has distinct keys, distinct profiles, models with distinct
  names and ports, and no profile mentions a model outside \<open>ALL_MODELS\<close>.  A container
  that hosts exec-managed processes hosts nothing else.
\<close>

definition wf_profile :: "vram_profile \<Rightarrow> bool" where
  "wf_profile p = (vp_primary_models p \<noteq> [] \<and>
     (\<forall>m \<in> set (map snd (vp_labels p)). m \<in> set (all_models_of p)))"

definition wf_catalog :: "catalog \<Rightarrow> bool" where
  "wf_catalog cat =
     (distinct (dict_keys (PROFILES cat)) \<and>
      distinct (map snd (PROFILES cat)) \<and>
      distinct (map md_name (ALL_MODELS cat)) \<and>
      distinct (map md_port (ALL_MODELS cat)) \<and>
      (\<forall>p \<in> set (map snd (PROFILES cat)). wf_profile p \<and> set (all_models_of p) \<subseteq> set (ALL_MODELS cat)) \<and>
      DEFAULT_PROFILE cat \<in> set (map snd (PROFILES cat)) \<and>
      (\<forall>m \<in> set (ALL_MODELS cat). \<forall>m' \<in> set (ALL_MODELS cat).
         md_container_name m = md_container_name m' \<longrightarrow> exec_managed m = exec_managed m'))"

lemma gateway_catalog_simps [simp]:
  "PROFILES (gateway_catalog c) =
     [(''deepseek'', PROFILE_DEEPSEEK c), (''qwen35'', PROFILE_QWEN35 c), (''qwen38'', PROFILE_QWEN38 c)]"
  "ALL_MODELS (gateway_catalog c) = [DEEPSEEK_V4_FLASH c, QWEN35_122B_FP8 c, QWEN38_FLASH_NEXT c]"
  "DEFAULT_PROFILE (gateway_catalog c) = PROFILE_DEEPSEEK c"
  by (simp_all add: gateway_catalog_def)

lemma wf_profile_registry:
  "wf_profile (PROFILE_DEEPSEEK c)" "wf_profile (PROFILE_QWEN35 c)" "wf_profile (PROFILE_QWEN38 c)"
  by (simp_all add: wf_profile_def profile_defs)

lemma wf_gateway_catalog: "wf_catalog (gateway_catalog c)"
  by (simp add: wf_catalog_def wf_profile_registry) (simp add: profile_defs)

lemma wf_catalogD:
  assumes "wf_catalog cat" "(k, p) \<in> set (PROFILES cat)"
  shows "wf_profile p" "set (all_models_of p) \<subseteq> set (ALL_MODELS cat)" "dict_get (PROFILES cat) k = Some p"
  using assms by (force simp: wf_catalog_def)+

lemma wf_profile_label:
  "wf_profile p \<Longrightarrow> dict_get (vp_labels p) l = Some m \<Longrightarrow> m \<in> set (all_models_of p)"
  by (force simp: wf_profile_def dest: map_of_SomeD)

lemma parse_worker_hosts_nonempty: "h \<in> set (parse_worker_hosts raw) \<Longrightarrow> h \<noteq> []"
  by (auto simp: parse_worker_hosts_def)

end
