(* ===== verification/RequestBuffer.thy ===== *)
theory RequestBuffer
  imports Config
begin

text \<open>
  \<open>gateway/request_buffer.py\<close>: the prefix cache, an \<open>OrderedDict\<close> with least
  recently used eviction, and the bounded queue that holds requests during a swap.

  The SHA-256 digest (first 16 hexadecimal digits) is the parameter \<open>sha16\<close>; clock
  readings are arguments, in milliseconds.  A request's \<open>asyncio.Future\<close> is an index into a
  list of future states, so that the buffer, the waiting client and the dispatcher share it.
\<close>

section \<open>The prefix cache\<close>

record cached_prefix =
  cp_hash :: string
  cp_text :: string
  cp_token_estimate :: nat
  cp_last_used :: nat
  cp_hit_count :: nat

record prefix_cache =
  pc_cache :: "(string, cached_prefix) dict"
  pc_max_entries :: int

definition RadixPrefixCache :: "int \<Rightarrow> prefix_cache" where
  "RadixPrefixCache n = \<lparr>pc_cache = [], pc_max_entries = n\<rparr>"

text \<open>The contents of the leading \<open>system\<close> messages; content that is not a string is
  passed over.\<close>

fun system_parts :: "(string, json) dict list \<Rightarrow> string list" where
  "system_parts [] = []"
| "system_parts (msg # msgs) =
     (if dict_get msg ''role'' = Some (JStr ''system'') then
        (case dict_get msg ''content'' of
           None \<Rightarrow> [] # system_parts msgs
         | Some (JStr content) \<Rightarrow> content # system_parts msgs
         | Some _ \<Rightarrow> system_parts msgs)
      else [])"

definition new_entry :: "string \<Rightarrow> string \<Rightarrow> nat \<Rightarrow> cached_prefix" where
  "new_entry h combined now =
     \<lparr>cp_hash = h, cp_text = take 200 combined,
      cp_token_estimate = length (split_ws combined) * 2, cp_last_used = now, cp_hit_count = 0\<rparr>"

text \<open>The \<open>Register in cache\<close> part: eviction pops the first key of the dictionary (a
  \<open>KeyError\<close> if there is none), a hit moves the key to the end.\<close>

definition register_prefix :: "string \<Rightarrow> string \<Rightarrow> nat \<Rightarrow> prefix_cache \<Rightarrow> exn + prefix_cache" where
  "register_prefix h combined now pc =
     (case dict_get (pc_cache pc) h of
        None \<Rightarrow>
          if int (length (pc_cache pc)) \<ge> pc_max_entries pc then
            (case pc_cache pc of
               [] \<Rightarrow> Inl KeyError
             | _ # rest \<Rightarrow> Inr (pc\<lparr>pc_cache := dict_set rest h (new_entry h combined now)\<rparr>))
          else Inr (pc\<lparr>pc_cache := dict_set (pc_cache pc) h (new_entry h combined now)\<rparr>)
      | Some e \<Rightarrow>
          Inr (pc\<lparr>pc_cache := dict_pop (pc_cache pc) h @
                 [(h, e\<lparr>cp_hit_count := cp_hit_count e + 1, cp_last_used := now\<rparr>)]\<rparr>))"

definition get_prefix_hash ::
    "(string \<Rightarrow> string) \<Rightarrow> nat \<Rightarrow> (string, json) dict list \<Rightarrow> prefix_cache \<Rightarrow> exn + (string \<times> prefix_cache)" where
  "get_prefix_hash sha16 now msgs pc =
     (let parts = system_parts msgs in
      if parts = [] then Inr ('''', pc)
      else (let combined = py_join [CHR 0x0A] parts; h = sha16 combined
            in and_then (register_prefix h combined now pc) (\<lambda>pc'. Inr (h, pc'))))"

definition cache_stats :: "prefix_cache \<Rightarrow> nat \<times> (string \<times> nat \<times> nat) list" where
  "cache_stats pc = (length (pc_cache pc),
     map (\<lambda>e. (cp_hash e, cp_hit_count e, cp_token_estimate e)) (map snd (pc_cache pc)))"

subsection \<open>The recency contract\<close>

text \<open>
  What a bounded least-recently-used store promises about its keys, in eviction order: a hit
  moves the key to the back, a miss appends it, and evicts the front when the store is full.
  Then the keys are always the last \<open>n\<close> distinct keys of the access history.
\<close>

lemma remdups_snoc: "remdups (xs @ [x]) = filter (\<lambda>y. y \<noteq> x) (remdups xs) @ [x]"
  by (induction xs) auto

locale recency_store =
  fixes touch :: "'e \<Rightarrow> 's \<Rightarrow> 's" and key_of :: "'e \<Rightarrow> 'k" and keys :: "'s \<Rightarrow> 'k list"
    and empty :: 's and invar :: "'s \<Rightarrow> bool" and capacity :: nat
  assumes capacity_pos: "0 < capacity"
    and invar_empty: "invar empty" and keys_empty: "keys empty = []"
    and invar_touch: "invar s \<Longrightarrow> invar (touch e s)"
    and touch_hit: "invar s \<Longrightarrow> key_of e \<in> set (keys s) \<Longrightarrow>
      keys (touch e s) = filter (\<lambda>y. y \<noteq> key_of e) (keys s) @ [key_of e]"
    and touch_miss: "invar s \<Longrightarrow> key_of e \<notin> set (keys s) \<Longrightarrow> length (keys s) < capacity \<Longrightarrow>
      keys (touch e s) = keys s @ [key_of e]"
    and touch_evict: "invar s \<Longrightarrow> key_of e \<notin> set (keys s) \<Longrightarrow> length (keys s) = capacity \<Longrightarrow>
      keys (touch e s) = tl (keys s) @ [key_of e]"
begin

lemma touch_recency:
  assumes inv: "invar s" and keys: "keys s = last_n capacity (remdups hist)"
  shows "keys (touch e s) = last_n capacity (remdups (hist @ [key_of e]))"
proof -
  define r where "r = remdups hist"
  define old where "old = take (length r - capacity) r"
  obtain c where c: "capacity = Suc c" using capacity_pos by (cases capacity) auto
  have r: "r = old @ keys s" by (simp add: keys old_def r_def last_n_def)
  have dist: "distinct (old @ keys s)" using r by (metis distinct_remdups r_def)
  have len: "length (keys s) \<le> capacity" by (simp add: keys)
  have full: "old = [] \<or> length (keys s) = capacity"
    by (auto simp: old_def keys r_def)
  have target: "last_n capacity (remdups (hist @ [key_of e])) =
      last_n c (filter (\<lambda>y. y \<noteq> key_of e) old @ filter (\<lambda>y. y \<noteq> key_of e) (keys s)) @ [key_of e]"
    using last_n_snoc [of c "filter (\<lambda>y. y \<noteq> key_of e) old @ filter (\<lambda>y. y \<noteq> key_of e) (keys s)" "key_of e"]
    by (simp add: remdups_snoc c r_def [symmetric] r)
  show ?thesis
  proof (cases "key_of e \<in> set (keys s)")
    case True
    then have "key_of e \<notin> set old" using dist by auto
    then have "filter (\<lambda>y. y \<noteq> key_of e) old = old" by (simp add: filter_id_conv) blast
    moreover have "Suc (length (filter (\<lambda>y. y \<noteq> key_of e) (keys s))) = length (keys s)"
      using True dist by (simp add: length_filter_neq)
    ultimately show ?thesis
      unfolding target using full len c touch_hit [OF inv True] by (auto simp: last_n_def)
  next
    case False
    then have f: "filter (\<lambda>y. y \<noteq> key_of e) (keys s) = keys s" by (simp add: filter_id_conv) blast
    show ?thesis
    proof (cases "length (keys s) = capacity")
      case True
      then have "keys s \<noteq> []" using c by auto
      then have "last_n c (filter (\<lambda>y. y \<noteq> key_of e) old @ keys s) = tl (keys s)"
        using True c by (cases "keys s") (simp_all add: last_n_def)
      then show ?thesis unfolding target f using touch_evict [OF inv False True] by simp
    next
      case not_full: False
      then have "old = []" "length (keys s) < capacity" using full len by auto
      then show ?thesis unfolding target f using touch_miss [OF inv False] c by (simp add: last_n_all)
    qed
  qed
qed

lemma history_invar: "invar (fold touch evs empty)"
  by (induction evs rule: rev_induct) (simp_all add: invar_empty invar_touch)

lemma history_recency: "keys (fold touch evs empty) = last_n capacity (remdups (map key_of evs))"
proof (induction evs rule: rev_induct)
  case Nil
  show ?case by (simp add: keys_empty last_n_def)
next
  case (snoc e evs)
  then show ?case using touch_recency [OF history_invar snoc, of e] by simp
qed

end

subsection \<open>The cache meets the contract\<close>

text \<open>One registration, as \<open>get_prefix_hash\<close> performs it; with room for at least one entry
  it never raises.\<close>

definition register_event :: "string \<times> string \<times> nat \<Rightarrow> prefix_cache \<Rightarrow> prefix_cache" where
  "register_event ev pc = (case ev of (h, combined, now) \<Rightarrow>
     (case register_prefix h combined now pc of Inl _ \<Rightarrow> pc | Inr pc' \<Rightarrow> pc'))"

definition cache_keys :: "prefix_cache \<Rightarrow> string list" where
  "cache_keys pc = dict_keys (pc_cache pc)"

definition cache_ok :: "nat \<Rightarrow> prefix_cache \<Rightarrow> bool" where
  "cache_ok n pc = (pc_max_entries pc = int n \<and> distinct (cache_keys pc) \<and> length (cache_keys pc) \<le> n)"

lemma keys_dict_pop: "dict_keys (dict_pop d k) = filter (\<lambda>y. y \<noteq> k) (dict_keys d)"
  by (induction d) auto

lemma register_prefix_ok:
  assumes "cache_ok (Suc n) pc"
  obtains pc' where "register_prefix h combined now pc = Inr pc'" "pc_max_entries pc' = pc_max_entries pc"
    "cache_keys pc' = (if h \<in> set (cache_keys pc) then filter (\<lambda>y. y \<noteq> h) (cache_keys pc) @ [h]
       else if length (cache_keys pc) = Suc n then tl (cache_keys pc) @ [h] else cache_keys pc @ [h])"
proof (cases "dict_get (pc_cache pc) h")
  case None
  then have h: "h \<notin> set (cache_keys pc)" by (simp add: cache_keys_def dict_get_None_iff)
  show ?thesis
  proof (cases "int (length (pc_cache pc)) \<ge> pc_max_entries pc")
    case True
    with assms have "length (pc_cache pc) = Suc n" by (auto simp: cache_ok_def cache_keys_def)
    then obtain e rest where r: "pc_cache pc = e # rest" "length rest = n"
      by (cases "pc_cache pc") auto
    with h have "h \<notin> set (dict_keys rest)" by (simp add: cache_keys_def)
    then have "dict_keys (dict_set rest h (new_entry h combined now)) = dict_keys rest @ [h]"
      by (simp add: dict_keys_set)
    then show ?thesis
      using None True h r
      by (intro that [of "pc\<lparr>pc_cache := dict_set rest h (new_entry h combined now)\<rparr>"])
         (simp_all add: register_prefix_def cache_keys_def)
  next
    case False
    with assms have "length (pc_cache pc) \<noteq> Suc n" by (auto simp: cache_ok_def)
    then show ?thesis
      using None False h
      by (intro that [of "pc\<lparr>pc_cache := dict_set (pc_cache pc) h (new_entry h combined now)\<rparr>"])
         (simp_all add: register_prefix_def cache_keys_def dict_keys_set)
  qed
next
  case (Some e)
  then have "h \<in> set (cache_keys pc)" by (metis cache_keys_def dict_get_None_iff option.distinct(1))
  then show ?thesis
    using Some
    by (intro that [of "pc\<lparr>pc_cache := dict_pop (pc_cache pc) h @
          [(h, e\<lparr>cp_hit_count := cp_hit_count e + 1, cp_last_used := now\<rparr>)]\<rparr>"])
       (simp_all add: register_prefix_def cache_keys_def keys_dict_pop)
qed

lemma register_event_keys:
  assumes "cache_ok (Suc n) pc"
  shows "cache_keys (register_event (h, combined, now) pc) =
      (if h \<in> set (cache_keys pc) then filter (\<lambda>y. y \<noteq> h) (cache_keys pc) @ [h]
       else if length (cache_keys pc) = Suc n then tl (cache_keys pc) @ [h] else cache_keys pc @ [h])"
    and "pc_max_entries (register_event (h, combined, now) pc) = pc_max_entries pc"
  by (rule register_prefix_ok [OF assms, of h combined now], simp add: register_event_def)+

lemma cache_ok_register:
  assumes "cache_ok (Suc n) pc"
  shows "cache_ok (Suc n) (register_event ev pc)"
proof -
  obtain h combined now where ev: "ev = (h, combined, now)" by (cases ev)
  note k = register_event_keys [OF assms, of h combined now]
  have "distinct (cache_keys pc)" "length (cache_keys pc) \<le> Suc n"
    using assms by (simp_all add: cache_ok_def)
  then have "distinct (cache_keys (register_event ev pc)) \<and> length (cache_keys (register_event ev pc)) \<le> Suc n"
    unfolding ev k(1)
    using length_filter_neq [of "cache_keys pc" h] by (auto simp: distinct_tl dest: list.set_sel(2) [rotated])
  then show ?thesis using assms k(2) unfolding cache_ok_def ev by simp
qed

interpretation lru: recency_store register_event fst cache_keys "RadixPrefixCache (int (Suc n))" "cache_ok (Suc n)" "Suc n"
  for n :: nat
proof unfold_locales
  show "cache_ok (Suc n) (RadixPrefixCache (int (Suc n)))" "cache_keys (RadixPrefixCache (int (Suc n))) = []"
    by (simp_all add: cache_ok_def cache_keys_def RadixPrefixCache_def)
qed (auto simp: cache_ok_register register_event_keys)

text \<open>C38: registering any sequence of prefixes in a fresh cache of capacity \<open>n + 1\<close> leaves
  exactly the last \<open>n + 1\<close> distinct hashes of the sequence, the most recent one last: the
  cache evicts the least recently used prefix and nothing else.\<close>

theorem prefix_cache_lru:
  "cache_keys (fold register_event evs (RadixPrefixCache (int (Suc n)))) =
     last_n (Suc n) (remdups (map fst evs))"
  by (rule lru.history_recency)

text \<open>Two requests with the same system prefix get the same hash, and the cache holds it after
  the call.\<close>

lemma get_prefix_hash_registers:
  assumes "cache_ok (Suc n) pc" "system_parts msgs \<noteq> []"
  obtains pc' where "get_prefix_hash sha16 now msgs pc = Inr (sha16 (py_join [CHR 0x0A] (system_parts msgs)), pc')"
    "cache_ok (Suc n) pc'" "sha16 (py_join [CHR 0x0A] (system_parts msgs)) \<in> set (cache_keys pc')"
proof -
  let ?c = "py_join [CHR 0x0A] (system_parts msgs)"
  obtain pc' where pc': "register_prefix (sha16 ?c) ?c now pc = Inr pc'"
    by (rule register_prefix_ok [OF assms(1)])
  then have ev: "register_event (sha16 ?c, ?c, now) pc = pc'" by (simp add: register_event_def)
  show ?thesis
  proof (rule that [of pc'])
    show "get_prefix_hash sha16 now msgs pc = Inr (sha16 ?c, pc')"
      using assms(2) pc' by (simp add: get_prefix_hash_def Let_def)
    show "cache_ok (Suc n) pc'" using cache_ok_register [OF assms(1)] ev by blast
    show "sha16 ?c \<in> set (cache_keys pc')"
      using register_event_keys(1) [OF assms(1), of "sha16 ?c" ?c now] by (auto simp: ev)
  qed
qed

section \<open>The request buffer\<close>

datatype 'r bfut = BPending | BResult 'r | BExc exn | BCancelled

record buffered_request =
  br_request :: agent_request
  br_future :: nat
  br_enqueued_at :: int
  br_timeout :: int

record 'r request_buffer =
  rb_queue :: "buffered_request list"
  rb_maxsize :: int
  rb_futures :: "'r bfut list"

fun bfut_done :: "'r bfut \<Rightarrow> bool" where
  "bfut_done BPending = False"
| "bfut_done _ = True"

definition RequestBuffer :: "settings \<Rightarrow> 'r request_buffer" where
  "RequestBuffer cfg = \<lparr>rb_queue = [], rb_maxsize = MAX_QUEUE_SIZE cfg, rb_futures = []\<rparr>"

text \<open>\<open>queue_size\<close>; the code's \<open>_pending\<close> list is never filled.\<close>

definition queue_size :: "'r request_buffer \<Rightarrow> nat" where
  "queue_size b = length (rb_queue b)"

text \<open>\<open>asyncio.Queue.full\<close>: a bound of zero or less is no bound.\<close>

definition queue_full :: "'r request_buffer \<Rightarrow> bool" where
  "queue_full b = (rb_maxsize b > 0 \<and> int (length (rb_queue b)) \<ge> rb_maxsize b)"

text \<open>\<open>set_result\<close> and \<open>set_exception\<close> behind their \<open>if not future.done()\<close> guard.\<close>

definition settle_future :: "nat \<Rightarrow> 'r bfut \<Rightarrow> 'r bfut list \<Rightarrow> 'r bfut list" where
  "settle_future f v fs = (if bfut_done (fs ! f) then fs else fs[f := v])"

text \<open>\<open>enqueue\<close> returns the index of the fresh future.\<close>

definition enqueue :: "settings \<Rightarrow> int \<Rightarrow> agent_request \<Rightarrow> 'r request_buffer \<Rightarrow> nat \<times> 'r request_buffer" where
  "enqueue cfg now r b =
     (let f = length (rb_futures b);
          item = \<lparr>br_request = r, br_future = f, br_enqueued_at = now,
                  br_timeout = 1000 * LONG_POLLING_TIMEOUT_S cfg\<rparr>
      in (f, if queue_full b then b\<lparr>rb_futures := rb_futures b @ [BExc BufferOverflowError]\<rparr>
             else b\<lparr>rb_futures := rb_futures b @ [BPending], rb_queue := rb_queue b @ [item]\<rparr>))"

text \<open>The loop of \<open>drain_all\<close>; \<open>clk i\<close> is the clock at its \<open>i\<close>-th iteration.\<close>

fun drain_loop ::
    "(nat \<Rightarrow> int) \<Rightarrow> nat \<Rightarrow> buffered_request list \<Rightarrow> buffered_request list \<Rightarrow> 'r bfut list \<Rightarrow>
     buffered_request list \<times> 'r bfut list" where
  "drain_loop clk i [] drained fs = (drained, fs)"
| "drain_loop clk i (item # q) drained fs =
     (if clk i - br_enqueued_at item < br_timeout item
      then drain_loop clk (Suc i) q (drained @ [item]) fs
      else drain_loop clk (Suc i) q drained (settle_future (br_future item) (BExc TimeoutError) fs))"

definition drain_all :: "(nat \<Rightarrow> int) \<Rightarrow> 'r request_buffer \<Rightarrow> buffered_request list \<times> 'r request_buffer" where
  "drain_all clk b = (let (drained, fs) = drain_loop clk 0 (rb_queue b) [] (rb_futures b)
     in (drained, b\<lparr>rb_queue := [], rb_futures := fs\<rparr>))"

definition resolve :: "buffered_request \<Rightarrow> 'r \<Rightarrow> 'r request_buffer \<Rightarrow> 'r request_buffer" where
  "resolve item v b = b\<lparr>rb_futures := settle_future (br_future item) (BResult v) (rb_futures b)\<rparr>"

fun reject_loop :: "string \<Rightarrow> buffered_request list \<Rightarrow> 'r bfut list \<Rightarrow> 'r bfut list" where
  "reject_loop why [] fs = fs"
| "reject_loop why (item # q) fs =
     reject_loop why q (settle_future (br_future item) (BExc (RuntimeError why)) fs)"

definition reject_all :: "string \<Rightarrow> 'r request_buffer \<Rightarrow> 'r request_buffer" where
  "reject_all why b = b\<lparr>rb_queue := [], rb_futures := reject_loop why (rb_queue b) (rb_futures b)\<rparr>"

subsection \<open>What the loops do\<close>

lemma bfut_done_iff [simp]: "bfut_done v \<longleftrightarrow> v \<noteq> BPending"
  by (cases v) simp_all

lemma length_settle [simp]: "length (settle_future f v fs) = length fs"
  by (simp add: settle_future_def)

lemma settle_nth:
  "settle_future f v fs ! g = (if g = f \<and> g < length fs \<and> fs ! f = BPending then v else fs ! g)"
  by (auto simp: settle_future_def nth_upd)

text \<open>An item is served if the clock of its iteration finds it within its timeout.\<close>

definition in_time :: "(nat \<Rightarrow> int) \<Rightarrow> nat \<times> buffered_request \<Rightarrow> bool" where
  "in_time clk p = (clk (fst p) - br_enqueued_at (snd p) < br_timeout (snd p))"

lemma drain_loop_drained:
  "fst (drain_loop clk i q drained fs) =
     drained @ map snd (filter (in_time clk) (zip [i..<i + length q] q))"
  by (induction q arbitrary: i drained fs) (simp_all add: upt_conv_Cons in_time_def del: upt_Suc)

lemma drain_loop_futures:
  "snd (drain_loop clk i q drained fs) =
     fold (\<lambda>p. settle_future (br_future (snd p)) (BExc TimeoutError))
       (filter (\<lambda>p. \<not> in_time clk p) (zip [i..<i + length q] q)) fs"
  by (induction q arbitrary: i drained fs) (simp_all add: upt_conv_Cons in_time_def del: upt_Suc)

lemma reject_loop_fold:
  "reject_loop why q fs = fold (\<lambda>item. settle_future (br_future item) (BExc (RuntimeError why))) q fs"
  by (induction q arbitrary: fs) simp_all

text \<open>Settling a list of futures with a value that is not pending.\<close>

lemma length_fold_settle [simp]: "length (fold (\<lambda>x. settle_future (g x) v) xs fs) = length fs"
  by (induction xs arbitrary: fs) simp_all

lemma fold_settle_nth:
  "v \<noteq> BPending \<Longrightarrow> fold (\<lambda>x. settle_future (g x) v) xs fs ! f =
     (if f \<in> g ` set xs \<and> f < length fs \<and> fs ! f = BPending then v else fs ! f)"
  by (induction xs arbitrary: fs) (auto simp: settle_nth)

lemma drain_all_simps:
  "fst (drain_all clk b) = map snd (filter (in_time clk) (zip [0..<length (rb_queue b)] (rb_queue b)))"
  "rb_queue (snd (drain_all clk b)) = []"
  "rb_maxsize (snd (drain_all clk b)) = rb_maxsize b"
  "length (rb_futures (snd (drain_all clk b))) = length (rb_futures b)"
  "rb_futures (snd (drain_all clk b)) ! f =
     (if f \<in> (br_future \<circ> snd) ` set (filter (\<lambda>p. \<not> in_time clk p) (zip [0..<length (rb_queue b)] (rb_queue b)))
         \<and> f < length (rb_futures b) \<and> rb_futures b ! f = BPending
      then BExc TimeoutError else rb_futures b ! f)"
  using drain_loop_drained [of clk 0 "rb_queue b" "[]" "rb_futures b"]
    drain_loop_futures [of clk 0 "rb_queue b" "[]" "rb_futures b"]
  by (simp_all add: drain_all_def split_def Let_def fold_settle_nth)

lemma reject_all_simps:
  "rb_queue (reject_all why b) = []" "rb_maxsize (reject_all why b) = rb_maxsize b"
  "length (rb_futures (reject_all why b)) = length (rb_futures b)"
  "rb_futures (reject_all why b) ! f =
     (if f \<in> br_future ` set (rb_queue b) \<and> f < length (rb_futures b) \<and> rb_futures b ! f = BPending
      then BExc (RuntimeError why) else rb_futures b ! f)"
  by (simp_all add: reject_all_def reject_loop_fold fold_settle_nth)

subsection \<open>Clients, the buffer and the dispatcher\<close>

text \<open>
  The futures are shared by three parties: the clients that wait on them (and give up, which
  cancels the future), the buffer, and the drain task, which holds the items it drained
  and settles them one by one with a result or with an exception.
\<close>

record 'r buf_sys =
  bs_buffer :: "'r request_buffer"
  bs_drained :: "buffered_request list"

inductive buf_step :: "settings \<Rightarrow> 'r buf_sys \<Rightarrow> 'r buf_sys \<Rightarrow> bool" for cfg :: settings where
  buf_enqueue: "buf_step cfg s (s\<lparr>bs_buffer := snd (enqueue cfg now r (bs_buffer s))\<rparr>)"
| buf_give_up: "rb_futures (bs_buffer s) ! f = BPending \<Longrightarrow>
     buf_step cfg s (s\<lparr>bs_buffer := (bs_buffer s)\<lparr>rb_futures := (rb_futures (bs_buffer s))[f := BCancelled]\<rparr>\<rparr>)"
| buf_drain: "drain_all clk (bs_buffer s) = (items, b') \<Longrightarrow>
     buf_step cfg s \<lparr>bs_buffer = b', bs_drained = bs_drained s @ items\<rparr>"
| buf_resolve: "bs_drained s = item # items \<Longrightarrow>
     buf_step cfg s \<lparr>bs_buffer = resolve item v (bs_buffer s), bs_drained = items\<rparr>"
| buf_fail: "bs_drained s = item # items \<Longrightarrow>
     buf_step cfg s \<lparr>bs_buffer = (bs_buffer s)\<lparr>rb_futures :=
         settle_future (br_future item) (BExc e) (rb_futures (bs_buffer s))\<rparr>, bs_drained = items\<rparr>"
| buf_reject: "buf_step cfg s (s\<lparr>bs_buffer := reject_all why (bs_buffer s)\<rparr>)"

definition buf_init :: "settings \<Rightarrow> 'r buf_sys \<Rightarrow> bool" where
  "buf_init cfg s = (s = \<lparr>bs_buffer = RequestBuffer cfg, bs_drained = []\<rparr>)"

text \<open>Every future index is held at most once, by the buffer or by the drain task, and every
  pending future is held; a positive bound is respected.\<close>

definition holders :: "buffered_request list \<Rightarrow> buffered_request list \<Rightarrow> nat list" where
  "holders q d = map br_future q @ map br_future d"

definition held_ok :: "buffered_request list \<Rightarrow> buffered_request list \<Rightarrow> 'r bfut list \<Rightarrow> bool" where
  "held_ok q d fs =
     (distinct (holders q d) \<and> (\<forall>f \<in> set (holders q d). f < length fs) \<and>
      (\<forall>f < length fs. fs ! f = BPending \<longrightarrow> f \<in> set (holders q d)))"

definition buf_inv :: "settings \<Rightarrow> 'r buf_sys \<Rightarrow> bool" where
  "buf_inv cfg s =
     (held_ok (rb_queue (bs_buffer s)) (bs_drained s) (rb_futures (bs_buffer s)) \<and>
      rb_maxsize (bs_buffer s) = MAX_QUEUE_SIZE cfg \<and>
      (MAX_QUEUE_SIZE cfg > 0 \<longrightarrow> int (length (rb_queue (bs_buffer s))) \<le> MAX_QUEUE_SIZE cfg))"

lemma held_settle_head:
  assumes "held_ok q (item # d) fs" "v \<noteq> BPending"
  shows "held_ok q d (settle_future (br_future item) v fs)"
  using assms by (auto simp: held_ok_def holders_def settle_nth)

lemma held_enqueue:
  assumes "held_ok q d fs" "br_future item = length fs"
  shows "held_ok (q @ [item]) d (fs @ [BPending])"
  using assms by (auto simp: held_ok_def holders_def nth_append less_Suc_eq)

lemma held_overflow: "held_ok q d fs \<Longrightarrow> v \<noteq> BPending \<Longrightarrow> held_ok q d (fs @ [v])"
  by (auto simp: held_ok_def nth_append less_Suc_eq)

lemma held_cancel: "held_ok q d fs \<Longrightarrow> v \<noteq> BPending \<Longrightarrow> held_ok q d (fs[f := v])"
  by (auto simp: held_ok_def nth_upd split: if_splits)

lemma held_drain:
  assumes held: "held_ok q d fs" and q: "map snd zs = q" and len: "length fs' = length fs"
    and fs': "\<And>f. fs' ! f = (if f \<in> (br_future \<circ> snd) ` set (filter (\<lambda>p. \<not> P p) zs) \<and> f < length fs \<and> fs ! f = BPending
        then BExc TimeoutError else fs ! f)"
  shows "held_ok [] (d @ map snd (filter P zs)) fs'"
proof -
  have q': "map br_future q = map (br_future \<circ> snd) zs" using q by auto
  have dist: "distinct (map (br_future \<circ> snd) zs)" "distinct (map br_future d)"
    and disj: "set (map (br_future \<circ> snd) zs) \<inter> set (map br_future d) = {}"
    using held unfolding held_ok_def holders_def q' by auto
  have "distinct (map (br_future \<circ> snd) (filter P zs))"
    using dist(1) by (rule distinct_map_filter)
  then have "distinct (holders [] (d @ map snd (filter P zs)))"
    using dist(2) disj by (auto simp: holders_def)
  moreover have "\<forall>f \<in> set (holders [] (d @ map snd (filter P zs))). f < length fs'"
    using held unfolding held_ok_def holders_def q' len by auto
  moreover have "f \<in> set (holders [] (d @ map snd (filter P zs)))"
    if f: "f < length fs'" "fs' ! f = BPending" for f
  proof -
    have "fs ! f = BPending" "f \<notin> (br_future \<circ> snd) ` set (filter (\<lambda>p. \<not> P p) zs)"
      using f fs' [of f] len by (auto split: if_splits)
    moreover from this have "f \<in> set (map (br_future \<circ> snd) zs) \<or> f \<in> set (map br_future d)"
      using held f(1) unfolding held_ok_def holders_def q' len by auto
    ultimately show ?thesis by (auto simp: holders_def)
  qed
  ultimately show ?thesis by (simp add: held_ok_def)
qed

lemma held_reject:
  assumes "held_ok q d fs" "length fs' = length fs" "v \<noteq> BPending"
    and "\<And>f. fs' ! f = (if f \<in> br_future ` set q \<and> f < length fs \<and> fs ! f = BPending then v else fs ! f)"
  shows "held_ok [] d fs'"
  using assms by (auto simp: held_ok_def holders_def)

lemma held_drain_all:
  assumes "held_ok (rb_queue b) d (rb_futures b)" "drain_all clk b = (items, b')"
  shows "held_ok (rb_queue b') (d @ items) (rb_futures b')"
proof -
  let ?zs = "zip [0..<length (rb_queue b)] (rb_queue b)"
  have i: "items = map snd (filter (in_time clk) ?zs)" and b': "b' = snd (drain_all clk b)"
    using assms(2) drain_all_simps(1) [of clk b] by simp_all
  have "held_ok [] (d @ map snd (filter (in_time clk) ?zs)) (rb_futures b')"
    by (rule held_drain [OF assms(1)]) (simp_all add: b' drain_all_simps)
  then show ?thesis by (simp add: i b' drain_all_simps(2))
qed

interpretation buf: transition_system "buf_init cfg" "buf_step cfg" "buf_inv cfg" for cfg
proof
  fix s :: "'a buf_sys"
  assume "buf_init cfg s"
  then show "buf_inv cfg s"
    by (simp add: buf_init_def buf_inv_def RequestBuffer_def held_ok_def holders_def)
next
  fix s t :: "'a buf_sys"
  assume "buf_step cfg s t" "buf_inv cfg s"
  then show "buf_inv cfg t"
  proof cases
    case (buf_enqueue now r)
    then show ?thesis using \<open>buf_inv cfg s\<close>
      by (auto simp: buf_inv_def enqueue_def queue_full_def Let_def intro: held_enqueue held_overflow)
  next
    case (buf_give_up f)
    then show ?thesis using \<open>buf_inv cfg s\<close> by (simp add: buf_inv_def held_cancel)
  next
    case (buf_drain clk items b')
    then have "b' = snd (drain_all clk (bs_buffer s))" by simp
    then have "rb_maxsize b' = rb_maxsize (bs_buffer s)" "rb_queue b' = []"
      by (simp_all add: drain_all_simps)
    then show ?thesis using buf_drain \<open>buf_inv cfg s\<close> held_drain_all
      by (fastforce simp: buf_inv_def)
  next
    case (buf_resolve item items v)
    then show ?thesis using \<open>buf_inv cfg s\<close> by (simp add: buf_inv_def resolve_def held_settle_head)
  next
    case (buf_fail item items e)
    then show ?thesis using \<open>buf_inv cfg s\<close> by (simp add: buf_inv_def held_settle_head)
  next
    case (buf_reject why)
    then show ?thesis using \<open>buf_inv cfg s\<close>
      held_reject [of "rb_queue (bs_buffer s)" "bs_drained s" "rb_futures (bs_buffer s)"
        "rb_futures (reject_all why (bs_buffer s))" "BExc (RuntimeError why)"]
      by (simp add: buf_inv_def reject_all_simps)
  qed
qed

text \<open>C13: no client of the buffer is forgotten.  However enqueues, drains, rejections, client
  timeouts and the settling of drained items interleave, a future that is still pending is held
  by exactly one entry, in the queue or among the drained items, so some later step settles it;
  and the queue never exceeds a positive \<open>MAX_QUEUE_SIZE\<close>.\<close>

theorem buffer_no_lost_request:
  assumes "reach (buf_init cfg) (buf_step cfg) s"
    and "f < length (rb_futures (bs_buffer s))" "rb_futures (bs_buffer s) ! f = BPending"
  shows "length (filter (\<lambda>item. br_future item = f) (rb_queue (bs_buffer s) @ bs_drained s)) = 1 \<and>
    (MAX_QUEUE_SIZE cfg > 0 \<longrightarrow> int (queue_size (bs_buffer s)) \<le> MAX_QUEUE_SIZE cfg)"
proof -
  let ?l = "rb_queue (bs_buffer s) @ bs_drained s"
  have inv: "buf_inv cfg s" by (rule buf.reach_inv [OF assms(1)])
  then have d: "distinct (map br_future ?l)" and f: "f \<in> set (map br_future ?l)"
    using assms(2,3) unfolding buf_inv_def held_ok_def holders_def by auto
  have "length (filter (\<lambda>item. br_future item = f) l) = 1"
    if "distinct (map br_future l)" "f \<in> set (map br_future l)" for l
    using that by (induction l) (auto simp: filter_empty_conv image_iff)
  from this [OF d f] inv show ?thesis unfolding buf_inv_def queue_size_def by blast
qed

definition sample_request :: agent_request where
  "sample_request = \<lparr>req_model = ''auto'', req_messages = [], req_stream = False, req_agent_id = None,
     req_session_id = None, req_declared = [], req_extra = []\<rparr>"

definition one_waiting :: "unit buf_sys" where
  "one_waiting = \<lparr>bs_buffer = snd (enqueue default_settings 0 sample_request (RequestBuffer default_settings)),
     bs_drained = []\<rparr>"

lemma one_waiting_reach: "reach (buf_init default_settings) (buf_step default_settings) one_waiting"
proof -
  define s0 :: "unit buf_sys" where "s0 = \<lparr>bs_buffer = RequestBuffer default_settings, bs_drained = []\<rparr>"
  have "buf_step default_settings s0 one_waiting"
    using buf_enqueue [of default_settings s0 0 sample_request] by (simp add: s0_def one_waiting_def)
  moreover have "reach (buf_init default_settings) (buf_step default_settings) s0"
    by (rule reach_init) (simp add: buf_init_def s0_def)
  ultimately show ?thesis by (rule reach_step [rotated])
qed

theorem buffer_no_lost_request_witness:
  "length (filter (\<lambda>item. br_future item = 0) (rb_queue (bs_buffer one_waiting) @ bs_drained one_waiting)) = 1"
proof -
  have "0 < length (rb_futures (bs_buffer one_waiting))" "rb_futures (bs_buffer one_waiting) ! 0 = BPending"
    by (simp_all add: one_waiting_def enqueue_def RequestBuffer_def queue_full_def default_settings_def Let_def)
  from buffer_no_lost_request [OF one_waiting_reach this] show ?thesis by blast
qed

text \<open>After a successful swap \<open>drain_all\<close> empties the queue and hands out, in arrival
  order, exactly the requests that are within their timeout; the others get a
  \<open>TimeoutError\<close> unless their client had already gone, and no other future changes.\<close>

theorem drain_all_spec:
  assumes "distinct (map br_future (rb_queue b))"
    and "\<forall>item \<in> set (rb_queue b). br_future item < length (rb_futures b)"
    and "i < length (rb_queue b)"
  shows "fst (drain_all clk b) = map snd (filter (in_time clk) (zip [0..<length (rb_queue b)] (rb_queue b)))
    \<and> rb_queue (snd (drain_all clk b)) = []
    \<and> rb_futures (snd (drain_all clk b)) ! br_future (rb_queue b ! i) =
       (if \<not> clk i - br_enqueued_at (rb_queue b ! i) < br_timeout (rb_queue b ! i)
           \<and> rb_futures b ! br_future (rb_queue b ! i) = BPending
        then BExc TimeoutError else rb_futures b ! br_future (rb_queue b ! i))
    \<and> (\<forall>f. f \<notin> br_future ` set (rb_queue b) \<longrightarrow> rb_futures (snd (drain_all clk b)) ! f = rb_futures b ! f)"
proof -
  let ?q = "rb_queue b" let ?late = "filter (\<lambda>p. \<not> in_time clk p) (zip [0..<length ?q] ?q)"
  have late: "br_future (?q ! i) \<in> (br_future \<circ> snd) ` set ?late \<longleftrightarrow> \<not> in_time clk (i, ?q ! i)"
  proof
    assume "br_future (?q ! i) \<in> (br_future \<circ> snd) ` set ?late"
    then obtain j where "j < length ?q" "br_future (?q ! j) = br_future (?q ! i)" "\<not> in_time clk (j, ?q ! j)"
      by (auto simp: set_zip)
    then show "\<not> in_time clk (i, ?q ! i)"
      using assms(1,3) by (metis distinct_conv_nth length_map nth_map)
  next
    assume "\<not> in_time clk (i, ?q ! i)"
    then show "br_future (?q ! i) \<in> (br_future \<circ> snd) ` set ?late"
      using assms(3) by (force simp: set_zip image_iff)
  qed
  have "f \<notin> br_future ` set ?q \<Longrightarrow> f \<notin> (br_future \<circ> snd) ` set ?late" for f
    by (auto dest: set_zip_rightD)
  then show ?thesis
    unfolding drain_all_simps using assms(2,3) late by (auto simp: in_time_def)
qed

text \<open>Two requests, of which the first has expired when the swap ends.\<close>

definition two_waiting :: "unit request_buffer" where
  "two_waiting = snd (enqueue default_settings 500000 sample_request
     (snd (enqueue default_settings 0 sample_request (RequestBuffer default_settings))))"

theorem drain_all_spec_witness:
  "rb_futures (snd (drain_all (\<lambda>_. 700000) two_waiting)) ! br_future (rb_queue two_waiting ! 0) = BExc TimeoutError
   \<and> map br_future (fst (drain_all (\<lambda>_. 700000) two_waiting)) = [1]"
proof -
  note ev = two_waiting_def enqueue_def RequestBuffer_def queue_full_def default_settings_def Let_def
  have 1: "distinct (map br_future (rb_queue two_waiting))" by (simp add: ev)
  have 2: "\<forall>item \<in> set (rb_queue two_waiting). br_future item < length (rb_futures two_waiting)"
    by (simp add: ev)
  have 3: "0 < length (rb_queue two_waiting)" by (simp add: ev)
  show ?thesis
    using drain_all_spec [OF 1 2 3, of "\<lambda>_. 700000"] by (simp add: ev in_time_def upt_rec)
qed

end
