(* ===== verification/Router.thy ===== *)
theory Router
  imports Config
begin

text \<open>
  \<open>gateway/router.py\<close>: which profile and which model serve a request.

  The two loops over the catalog, in \<open>_find_profile_for_model\<close> and in
  \<open>_match_global\<close>, are the same search with early return, \<open>best_match\<close>; its contract is
  the locale \<open>name_search\<close>.  \<open>primary_models[0]\<close> may raise \<open>IndexError\<close>, so the
  choice of a model is a sum.
\<close>

section \<open>The decision\<close>

record routing_decision =
  rd_media_type :: media_type
  rd_profile :: vram_profile
  rd_target_model :: model_definition
  rd_requires_swap :: bool

text \<open>\<open>requested in name or name in requested\<close>.\<close>

definition name_matches :: "string \<Rightarrow> string \<Rightarrow> bool" where
  "name_matches requested name = (str_in requested name \<or> str_in name requested)"

fun best_match :: "('a \<Rightarrow> string) \<Rightarrow> string \<Rightarrow> 'a list \<Rightarrow> 'a option \<Rightarrow> nat \<Rightarrow> 'a option" where
  "best_match nm requested [] best best_len = best"
| "best_match nm requested (x # xs) best best_len =
     (if nm x = requested then Some x
      else if name_matches requested (nm x) \<and> length (nm x) > best_len
      then best_match nm requested xs (Some x) (length (nm x))
      else best_match nm requested xs best best_len)"

abbreviation lower_name :: "model_definition \<Rightarrow> string" where
  "lower_name m \<equiv> py_lower (md_name m)"

text \<open>The iteration order of the two nested loops.\<close>

definition owner_pairs :: "catalog \<Rightarrow> (vram_profile \<times> model_definition) list" where
  "owner_pairs cat = concat (map (\<lambda>p. map (Pair p) (all_models_of p)) (map snd (PROFILES cat)))"

definition find_profile_for_model :: "catalog \<Rightarrow> string \<Rightarrow> vram_profile option" where
  "find_profile_for_model cat requested =
     map_option fst (best_match (lower_name \<circ> snd) requested (owner_pairs cat) None 0)"

definition match_global :: "catalog \<Rightarrow> string \<Rightarrow> model_definition option" where
  "match_global cat requested = best_match lower_name requested (ALL_MODELS cat) None 0"

definition resolve_label ::
    "catalog \<Rightarrow> string \<Rightarrow> vram_profile option \<Rightarrow> (vram_profile \<times> model_definition) option" where
  "resolve_label cat l act =
     (case Option.bind act (\<lambda>p. map_option (Pair p) (dict_get (vp_labels p) l)) of
        Some r \<Rightarrow> Some r
      | None \<Rightarrow> Option.bind (find (\<lambda>p. dict_get (vp_labels p) l \<noteq> None) (map snd (PROFILES cat)))
                 (\<lambda>p. map_option (Pair p) (dict_get (vp_labels p) l)))"

definition select_profile :: "catalog \<Rightarrow> agent_request \<Rightarrow> vram_profile option \<Rightarrow> vram_profile" where
  "select_profile cat r act =
     (let requested = py_lower (py_strip (req_model r));
          stay = (case act of Some p \<Rightarrow> p | None \<Rightarrow> DEFAULT_PROFILE cat)
      in if requested \<noteq> [] \<and> requested \<noteq> ''auto''
         then (case find_profile_for_model cat requested of Some p \<Rightarrow> p | None \<Rightarrow> stay)
         else stay)"

definition primary_model :: "vram_profile \<Rightarrow> exn + model_definition" where
  "primary_model p = (case vp_primary_models p of [] \<Rightarrow> Inl IndexError | m # _ \<Rightarrow> Inr m)"

definition select_model :: "catalog \<Rightarrow> agent_request \<Rightarrow> vram_profile \<Rightarrow> exn + model_definition" where
  "select_model cat r p =
     (let requested = (if req_model r \<noteq> [] then py_lower (req_model r) else ''auto'')
      in if requested = ''auto'' \<or> requested = [] then
           (case dict_get (vp_labels p) ''chat'' of Some m \<Rightarrow> Inr m | None \<Rightarrow> primary_model p)
         else (case find (\<lambda>m. str_in (lower_name m) requested \<or> str_in requested (lower_name m)) (all_models_of p) of
             Some m \<Rightarrow> Inr m
           | None \<Rightarrow>
             (case match_global cat requested of
                Some m \<Rightarrow> if m \<in> set (all_models_of p) then Inr m
                  else (case dict_get (vp_labels p) ''code'' of Some m \<Rightarrow> Inr m | None \<Rightarrow>
                    (case dict_get (vp_labels p) ''chat'' of Some m \<Rightarrow> Inr m | None \<Rightarrow> primary_model p))
              | None \<Rightarrow> (case dict_get (vp_labels p) ''code'' of Some m \<Rightarrow> Inr m | None \<Rightarrow>
                    (case dict_get (vp_labels p) ''chat'' of Some m \<Rightarrow> Inr m | None \<Rightarrow> primary_model p)))))"

definition route :: "catalog \<Rightarrow> agent_request \<Rightarrow> vram_profile option \<Rightarrow> exn + routing_decision" where
  "route cat r act =
     (let requested = py_lower (py_strip (req_model r));
          resolved = (if requested \<noteq> [] \<and> requested \<noteq> ''auto'' then resolve_label cat requested act else None)
      in case resolved of
           Some (p, m) \<Rightarrow> Inr \<lparr>rd_media_type = TEXT, rd_profile = p, rd_target_model = m, rd_requires_swap = False\<rparr>
         | None \<Rightarrow> (let p = select_profile cat r act in
             and_then (select_model cat r p) (\<lambda>m.
               Inr \<lparr>rd_media_type = TEXT, rd_profile = p, rd_target_model = m, rd_requires_swap = False\<rparr>)))"

section \<open>The search contract\<close>

text \<open>
  What a search by name promises: an exact match wins, and is the first one; otherwise the
  result is a match, no match has a longer name, and there is a result if there is a match.
\<close>

locale name_search =
  fixes search :: "'a list \<Rightarrow> string \<Rightarrow> 'a option" and nm :: "'a \<Rightarrow> string"
  assumes exact: "\<exists>x \<in> set xs. nm x = req \<Longrightarrow> search xs req = find (\<lambda>x. nm x = req) xs"
    and found: "search xs req = Some x \<Longrightarrow> x \<in> set xs \<and> name_matches req (nm x)"
    and longest: "search xs req = Some x \<Longrightarrow> nm x \<noteq> req \<Longrightarrow> y \<in> set xs \<Longrightarrow> name_matches req (nm y) \<Longrightarrow>
      length (nm y) \<le> length (nm x)"
    and complete: "x \<in> set xs \<Longrightarrow> name_matches req (nm x) \<Longrightarrow> nm x \<noteq> [] \<Longrightarrow> search xs req \<noteq> None"
begin

lemma exact_unique:
  assumes "x \<in> set xs" "nm x = req" "\<And>y. y \<in> set xs \<Longrightarrow> nm y = req \<Longrightarrow> g y = g x"
  shows "map_option g (search xs req) = Some (g x)"
proof -
  have "\<exists>x \<in> set xs. nm x = req" using assms(1,2) by blast
  then obtain y where y: "search xs req = Some y" "y \<in> set xs" "nm y = req"
    using exact by (metis (mono_tags, lifting) find_None_iff2 find_SomeD not_None_eq)
  with assms(3) show ?thesis by simp
qed

lemma none_iff: "\<forall>x \<in> set xs. nm x \<noteq> [] \<Longrightarrow> search xs req = None \<longleftrightarrow> (\<forall>x \<in> set xs. \<not> name_matches req (nm x))"
  using found complete by (metis not_None_eq)

end

lemma name_matches_refl [simp]: "name_matches s s"
  by (simp add: name_matches_def)

lemma best_match_exact:
  "\<exists>x \<in> set xs. nm x = req \<Longrightarrow> best_match nm req xs b n = find (\<lambda>x. nm x = req) xs"
  by (induction xs arbitrary: b n) auto

lemma best_match_found:
  "best_match nm req xs b n = Some x \<Longrightarrow> (x \<in> set xs \<and> name_matches req (nm x)) \<or> b = Some x"
  by (induction xs arbitrary: b n) (auto split: if_splits)

lemma best_match_longest:
  assumes "best_match nm req xs b n = Some x" "nm x \<noteq> req" "\<forall>z. b = Some z \<longrightarrow> length (nm z) = n"
    "b = None \<longrightarrow> n = 0"
  shows "n \<le> length (nm x) \<and> (\<forall>y \<in> set xs. name_matches req (nm y) \<longrightarrow> length (nm y) \<le> length (nm x))"
  using assms
proof (induction xs arbitrary: b n)
  case Nil
  then show ?case by simp
next
  case (Cons y ys)
  have ne: "nm y \<noteq> req" using Cons.prems by auto
  show ?case
  proof (cases "name_matches req (nm y) \<and> length (nm y) > n")
    case True
    then have "best_match nm req ys (Some y) (length (nm y)) = Some x" using Cons.prems ne by simp
    from Cons.IH [OF this Cons.prems(2)] True show ?thesis by force
  next
    case False
    then have "best_match nm req ys b n = Some x" using Cons.prems(1) ne by (simp split: if_splits)
    from Cons.IH [OF this Cons.prems(2-4)] False show ?thesis by force
  qed
qed

lemma best_match_some: "\<exists>y. best_match nm req xs (Some b) n = Some y"
  by (induction xs arbitrary: b n) auto

lemma best_match_complete:
  "x \<in> set xs \<Longrightarrow> name_matches req (nm x) \<Longrightarrow> nm x \<noteq> [] \<Longrightarrow> best_match nm req xs None 0 \<noteq> None"
  by (induction xs) (auto simp: best_match_some)

interpretation nsearch: name_search "\<lambda>xs req. best_match nm req xs None 0" nm
  for nm :: "'a \<Rightarrow> string"
  using best_match_exact best_match_found best_match_longest best_match_complete
  by unfold_locales (fastforce | blast)+

section \<open>Decisions stay inside the catalog\<close>

lemma owner_pairs_iff:
  "(p, m) \<in> set (owner_pairs cat) \<longleftrightarrow> p \<in> set (map snd (PROFILES cat)) \<and> m \<in> set (all_models_of p)"
  by (auto simp: owner_pairs_def)

lemma find_profile_in_catalog:
  "find_profile_for_model cat req = Some p \<Longrightarrow> p \<in> set (map snd (PROFILES cat))"
  using nsearch.found [of "lower_name \<circ> snd" req "owner_pairs cat"] by (fastforce simp: find_profile_for_model_def owner_pairs_iff)

lemma resolve_label_in_catalog:
  assumes "wf_catalog cat" "\<forall>a. act = Some a \<longrightarrow> a \<in> set (map snd (PROFILES cat))"
    "resolve_label cat l act = Some (p, m)"
  shows "p \<in> set (map snd (PROFILES cat)) \<and> m \<in> set (all_models_of p)"
proof -
  have "p \<in> set (map snd (PROFILES cat)) \<and> dict_get (vp_labels p) l = Some m"
    using assms(2,3) find_SomeD unfolding resolve_label_def
    by (fastforce split: option.splits simp: bind_eq_Some_conv)
  moreover from this have "wf_profile p" using assms(1) by (auto simp: wf_catalog_def)
  ultimately show ?thesis using wf_profile_label by blast
qed

lemma select_profile_in_catalog:
  assumes "wf_catalog cat" "\<forall>a. act = Some a \<longrightarrow> a \<in> set (map snd (PROFILES cat))"
  shows "select_profile cat r act \<in> set (map snd (PROFILES cat))"
proof -
  have "DEFAULT_PROFILE cat \<in> set (map snd (PROFILES cat))" using assms(1) by (simp add: wf_catalog_def)
  then show ?thesis
    using assms(2) find_profile_in_catalog [of cat]
    by (auto simp: select_profile_def Let_def split: option.splits)
qed

lemma primary_model_in: "wf_profile p \<Longrightarrow> \<exists>m. primary_model p = Inr m \<and> m \<in> set (all_models_of p)"
  by (auto simp: wf_profile_def primary_model_def split: list.split)

lemma select_model_in_profile:
  assumes "wf_profile p"
  shows "\<exists>m. select_model cat r p = Inr m \<and> m \<in> set (all_models_of p)"
  using primary_model_in [OF assms] wf_profile_label [OF assms] unfolding select_model_def Let_def
  by (auto split: option.splits if_splits dest!: find_SomeD)

text \<open>C22: for a well-formed catalog routing never fails, and the model it chooses belongs to the
  profile it chooses, which is one of the catalog, so the orchestrator is never asked for a
  model outside the profile it loads.\<close>

theorem route_in_catalog:
  assumes "wf_catalog cat" "\<forall>a. act = Some a \<longrightarrow> a \<in> set (map snd (PROFILES cat))"
  shows "\<exists>d. route cat r act = Inr d \<and> rd_profile d \<in> set (map snd (PROFILES cat))
    \<and> rd_target_model d \<in> set (all_models_of (rd_profile d))
    \<and> rd_media_type d = TEXT \<and> \<not> rd_requires_swap d"
proof -
  define requested where "requested = py_lower (py_strip (req_model r))"
  show ?thesis
  proof (cases "if requested \<noteq> [] \<and> requested \<noteq> ''auto'' then resolve_label cat requested act else None")
    case None
    have p: "select_profile cat r act \<in> set (map snd (PROFILES cat))"
      by (rule select_profile_in_catalog [OF assms])
    then have "wf_profile (select_profile cat r act)" using assms(1) by (auto simp: wf_catalog_def)
    with select_model_in_profile obtain m where "select_model cat r (select_profile cat r act) = Inr m"
      "m \<in> set (all_models_of (select_profile cat r act))" by blast
    then show ?thesis
      using p None unfolding route_def Let_def requested_def [symmetric] by simp
  next
    case (Some pm)
    then obtain p m where pm: "pm = (p, m)" "resolve_label cat requested act = Some (p, m)"
      by (cases pm) (auto split: if_splits)
    then show ?thesis
      using resolve_label_in_catalog [OF assms pm(2)] Some
      unfolding route_def Let_def requested_def [symmetric] by simp
  qed
qed

theorem route_in_catalog_witness:
  "\<exists>d. route (gateway_catalog ''vllm_node'') \<lparr>req_model = ''gpt-4'', req_messages = [], req_stream = False,
      req_agent_id = None, req_session_id = None, req_declared = [], req_extra = []\<rparr>
      (Some (PROFILE_QWEN35 ''vllm_node'')) = Inr d
    \<and> rd_profile d \<in> set (map snd (PROFILES (gateway_catalog ''vllm_node'')))"
proof -
  have "\<forall>a. Some (PROFILE_QWEN35 ''vllm_node'') = Some a \<longrightarrow> a \<in> set (map snd (PROFILES (gateway_catalog ''vllm_node'')))"
    by simp
  from route_in_catalog [OF wf_gateway_catalog this] show ?thesis by blast
qed

section \<open>Labels and names\<close>

lemma route_by_label:
  assumes "py_lower (py_strip (req_model r)) = l" "l \<noteq> []" "l \<noteq> ''auto''"
    and "find (\<lambda>p. dict_get (vp_labels p) l \<noteq> None) (case_option [] (\<lambda>a. [a]) act @ map snd (PROFILES cat)) = Some p"
    and "dict_get (vp_labels p) l = Some m"
  shows "route cat r act = Inr \<lparr>rd_media_type = TEXT, rd_profile = p, rd_target_model = m, rd_requires_swap = False\<rparr>"
proof -
  have "resolve_label cat l act = Some (p, m)"
    using assms(4,5) by (auto simp: resolve_label_def split: option.splits if_splits)
  then show ?thesis using assms(1-3) by (simp add: route_def)
qed

text \<open>A label of the active profile is served by the active profile, with the model the
  label names; a label it lacks is served by the first profile that has it.  Case and
  surrounding whitespace of the request do not matter.\<close>

theorem route_label:
  assumes "py_lower (py_strip (req_model r)) = l" "l \<noteq> []" "l \<noteq> ''auto''"
    and "find (\<lambda>p. dict_get (vp_labels p) l \<noteq> None) (case_option [] (\<lambda>a. [a]) act @ map snd (PROFILES cat)) = Some p"
    and "dict_get (vp_labels p) l = Some m"
  shows "route cat r act = Inr \<lparr>rd_media_type = TEXT, rd_profile = p, rd_target_model = m, rd_requires_swap = False\<rparr>"
  using route_by_label [OF assms] .

theorem route_label_witness:
  "route (gateway_catalog ''n'') \<lparr>req_model = '' Code '', req_messages = [], req_stream = False,
      req_agent_id = None, req_session_id = None, req_declared = [], req_extra = []\<rparr>
      (Some (PROFILE_QWEN38 ''n'')) =
    Inr \<lparr>rd_media_type = TEXT, rd_profile = PROFILE_QWEN38 ''n'', rd_target_model = QWEN38_FLASH_NEXT ''n'',
      rd_requires_swap = False\<rparr>"
  by (rule route_label [where l = "''code''"]) (simp_all add: str_eval profile_defs)

lemma py_strip_sublist: "str_in (py_strip s) s"
proof -
  have "suffix (lstrip s) s" by (metis lstrip_def suffix_dropWhile)
  moreover have "prefix (rstrip t) t" for t
    by (metis rstrip_def rev_rev_ident suffix_dropWhile suffix_to_prefix)
  ultimately show ?thesis
    unfolding str_in_def py_strip_def by (meson prefix_imp_sublist sublist_order.order.trans suffix_imp_sublist)
qed

lemma py_lower_sublist: "str_in a b \<Longrightarrow> str_in (py_lower a) (py_lower b)"
  unfolding str_in_def py_lower_def by (rule map_mono_sublist)

lemma is_space_lower [simp]: "is_space (lower_char c) = is_space c"
  by (auto simp: is_space_def lower_char_def Let_def)

lemma py_lower_strip: "py_lower (py_strip s) = py_strip (py_lower s)"
proof -
  have "map lower_char (dropWhile is_space t) = dropWhile is_space (map lower_char t)" for t
    by (simp add: dropWhile_map o_def)
  then show ?thesis by (simp add: py_lower_def py_strip_def lstrip_def rstrip_def flip: rev_map)
qed

lemma py_strip_auto: "py_strip ''auto'' = ''auto''" "py_strip [] = []"
  by (simp_all add: str_eval)

text \<open>A request that is a model name up to case and whitespace, when no label has that name,
  one profile owns it, and no other model of that profile can be confused with it.\<close>

lemma route_exact:
  assumes p: "p \<in> set (map snd (PROFILES cat))" "m \<in> set (all_models_of p)"
    and q: "py_lower (py_strip (req_model r)) = lower_name m" "lower_name m \<noteq> []" "lower_name m \<noteq> ''auto''"
    and labels: "resolve_label cat (lower_name m) act = None"
    and owner: "\<And>p' m'. p' \<in> set (map snd (PROFILES cat)) \<Longrightarrow> m' \<in> set (all_models_of p') \<Longrightarrow>
      lower_name m' = lower_name m \<Longrightarrow> p' = p"
    and unique: "\<And>m'. m' \<in> set (all_models_of p) \<Longrightarrow> name_matches (py_lower (req_model r)) (lower_name m') \<Longrightarrow> m' = m"
  shows "route cat r act = Inr \<lparr>rd_media_type = TEXT, rd_profile = p, rd_target_model = m, rd_requires_swap = False\<rparr>"
proof -
  have "map_option fst (best_match (lower_name \<circ> snd) (lower_name m) (owner_pairs cat) None 0) = Some (fst (p, m))"
  proof (rule nsearch.exact_unique)
    show "(p, m) \<in> set (owner_pairs cat)" using p by (simp only: owner_pairs_iff simp_thms)
    show "(lower_name \<circ> snd) (p, m) = lower_name m" by simp
    show "fst y = fst (p, m)"
      if "y \<in> set (owner_pairs cat)" "(lower_name \<circ> snd) y = lower_name m" for y
      using that owner [of "fst y" "snd y"] owner_pairs_iff [of "fst y" "snd y" cat]
      unfolding prod.collapse comp_apply fst_conv by blast
  qed
  then have profile: "select_profile cat r act = p"
    using q by (auto simp: select_profile_def find_profile_for_model_def Let_def)
  let ?raw = "py_lower (req_model r)"
  have raw: "?raw \<noteq> ''auto''" "?raw \<noteq> []" "req_model r \<noteq> []"
    using q by (auto simp: py_lower_strip py_strip_auto) (simp add: py_lower_def py_strip_auto)
  have "str_in (lower_name m) ?raw"
    using py_lower_sublist [OF py_strip_sublist [of "req_model r"]] q(1) by simp
  then have "find (\<lambda>m. str_in (lower_name m) ?raw \<or> str_in ?raw (lower_name m)) (all_models_of p) \<noteq> None"
    using p(2) by (auto simp: find_None_iff)
  then obtain m' where m': "find (\<lambda>m. str_in (lower_name m) ?raw \<or> str_in ?raw (lower_name m)) (all_models_of p) = Some m'"
    by blast
  then have "m' = m"
    using find_SomeD [OF m'] by (intro unique) (auto simp: name_matches_def)
  with m' raw have "select_model cat r p = Inr m"
    by (simp add: select_model_def)
  then show ?thesis using q labels profile by (simp add: route_def)
qed

lemma catalog_lower_names [simp]:
  "py_lower ''deepseek-v4-flash'' = ''deepseek-v4-flash''"
  "py_lower ''qwen3.5-122b'' = ''qwen3.5-122b''"
  "py_lower ''qwen3.8-flash-next'' = ''qwen3.8-flash-next''"
  by (simp_all add: str_eval)

lemma route_catalog_model:
  assumes "m \<in> set (ALL_MODELS (gateway_catalog c))"
    and "\<forall>a. act = Some a \<longrightarrow> a \<in> set (map snd (PROFILES (gateway_catalog c)))"
    and "py_lower (py_strip (req_model r)) = md_name m"
  shows "\<exists>p \<in> set (map snd (PROFILES (gateway_catalog c))). m \<in> set (all_models_of p) \<and>
    route (gateway_catalog c) r act =
      Inr \<lparr>rd_media_type = TEXT, rd_profile = p, rd_target_model = m, rd_requires_swap = False\<rparr>"
proof -
  have act: "act = None \<or> act = Some (PROFILE_DEEPSEEK c) \<or> act = Some (PROFILE_QWEN35 c) \<or> act = Some (PROFILE_QWEN38 c)"
    using assms(2) by (cases act) auto
  have labels: "resolve_label (gateway_catalog c) (lower_name m) act = None"
    using act assms(1) by (auto simp: resolve_label_def profile_defs)
  have "\<exists>p \<in> set (map snd (PROFILES (gateway_catalog c))). m \<in> set (all_models_of p) \<and> all_models_of p = [m]"
    using assms(1) by (auto simp: profile_defs)
  then obtain p where p: "p \<in> set (map snd (PROFILES (gateway_catalog c)))" "all_models_of p = [m]" by blast
  have "route (gateway_catalog c) r act =
      Inr \<lparr>rd_media_type = TEXT, rd_profile = p, rd_target_model = m, rd_requires_swap = False\<rparr>"
  proof (rule route_exact [OF p(1) _ _ _ _ labels])
    show "p' = p" if "p' \<in> set (map snd (PROFILES (gateway_catalog c)))" "m' \<in> set (all_models_of p')"
      "lower_name m' = lower_name m" for p' m'
      using that p by (auto simp: profile_defs)
  qed (use assms(1,3) p(2) in auto)
  with p show ?thesis by (intro bexI [of _ p]) simp_all
qed

text \<open>C23: a request that names a model of the gateway's catalog, in any case and with any
  surrounding whitespace, is routed to that model in the one profile that owns it, whichever
  profile is active.\<close>

theorem route_gateway_model:
  assumes "m \<in> set (ALL_MODELS (gateway_catalog c))"
    and "\<forall>a. act = Some a \<longrightarrow> a \<in> set (map snd (PROFILES (gateway_catalog c)))"
    and "py_lower (py_strip (req_model r)) = md_name m"
  shows "\<exists>p \<in> set (map snd (PROFILES (gateway_catalog c))). m \<in> set (all_models_of p) \<and>
    route (gateway_catalog c) r act =
      Inr \<lparr>rd_media_type = TEXT, rd_profile = p, rd_target_model = m, rd_requires_swap = False\<rparr>"
  using route_catalog_model [OF assms] .

theorem route_gateway_model_witness:
  "\<exists>p. route (gateway_catalog ''n'') \<lparr>req_model = '' Qwen3.5-122B '', req_messages = [], req_stream = False,
      req_agent_id = None, req_session_id = None, req_declared = [], req_extra = []\<rparr> None =
    Inr \<lparr>rd_media_type = TEXT, rd_profile = p, rd_target_model = QWEN35_122B_FP8 ''n'', rd_requires_swap = False\<rparr>"
proof -
  let ?r = "\<lparr>req_model = '' Qwen3.5-122B '', req_messages = [], req_stream = False,
      req_agent_id = None, req_session_id = None, req_declared = [], req_extra = []\<rparr>"
  have "py_lower (py_strip (req_model ?r)) = md_name (QWEN35_122B_FP8 ''n'')" by (simp add: str_eval)
  from route_gateway_model [of "QWEN35_122B_FP8 ''n''" "''n''" None ?r, OF _ _ this] show ?thesis by auto
qed

text \<open>A request that names no model exactly goes to a profile that owns a model whose name
  contains the request or is contained in it, and no matching name in the catalog is longer;
  when nothing matches, or nothing specific was asked, the active profile stays (the default
  profile if there is none).\<close>

theorem select_profile_longest:
  assumes "\<forall>p \<in> set (map snd (PROFILES cat)). \<forall>m \<in> set (all_models_of p). md_name m \<noteq> []"
    and "requested = py_lower (py_strip (req_model r))"
    and "\<forall>p \<in> set (map snd (PROFILES cat)). \<forall>m \<in> set (all_models_of p). lower_name m \<noteq> requested"
  shows "if requested \<in> {[], ''auto''} \<or> (\<forall>p \<in> set (map snd (PROFILES cat)). \<forall>m \<in> set (all_models_of p).
            \<not> name_matches requested (lower_name m))
    then select_profile cat r act = (case act of Some p \<Rightarrow> p | None \<Rightarrow> DEFAULT_PROFILE cat)
    else \<exists>m \<in> set (all_models_of (select_profile cat r act)). name_matches requested (lower_name m) \<and>
      (\<forall>p \<in> set (map snd (PROFILES cat)). \<forall>m' \<in> set (all_models_of p).
         name_matches requested (lower_name m') \<longrightarrow> length (md_name m') \<le> length (md_name m))"
proof -
  let ?search = "best_match (lower_name \<circ> snd) requested (owner_pairs cat) None 0"
  have "\<forall>x \<in> set (owner_pairs cat). (lower_name \<circ> snd) x \<noteq> []"
  proof
    fix x assume "x \<in> set (owner_pairs cat)"
    then have "md_name (snd x) \<noteq> []"
      using assms(1) owner_pairs_iff [of "fst x" "snd x" cat] unfolding prod.collapse by blast
    then show "(lower_name \<circ> snd) x \<noteq> []" by (simp add: py_lower_def)
  qed
  then have none: "?search = None \<longleftrightarrow> (\<forall>x \<in> set (owner_pairs cat). \<not> name_matches requested (lower_name (snd x)))"
    using nsearch.none_iff [of "owner_pairs cat" "lower_name \<circ> snd" requested] by simp
  show ?thesis
  proof (cases ?search)
    case None
    moreover from this none have "\<forall>p \<in> set (map snd (PROFILES cat)). \<forall>m \<in> set (all_models_of p).
        \<not> name_matches requested (lower_name m)"
      using owner_pairs_iff by (metis snd_conv)
    ultimately show ?thesis
      using assms(2) by (auto simp: select_profile_def find_profile_for_model_def Let_def)
  next
    case (Some x)
    obtain p m where x: "x = (p, m)" by (cases x)
    have pm: "p \<in> set (map snd (PROFILES cat))" "m \<in> set (all_models_of p)" "name_matches requested (lower_name m)"
      using nsearch.found [OF Some] by (auto simp: x owner_pairs_iff)
    have ne: "(lower_name \<circ> snd) x \<noteq> requested" using assms(3) pm(1,2) by (auto simp: x)
    have longest: "length (md_name m') \<le> length (md_name m)"
      if "p' \<in> set (map snd (PROFILES cat))" "m' \<in> set (all_models_of p')" "name_matches requested (lower_name m')" for p' m'
      using nsearch.longest [OF Some ne, of "(p', m')"] that by (simp add: x owner_pairs_iff)
    have "select_profile cat r act = (if requested \<in> {[], ''auto''}
        then (case act of Some p \<Rightarrow> p | None \<Rightarrow> DEFAULT_PROFILE cat) else p)"
      using Some assms(2) by (auto simp: select_profile_def find_profile_for_model_def Let_def x)
    then show ?thesis using pm longest by (auto split: option.splits)
  qed
qed

theorem select_profile_longest_witness:
  "\<exists>m \<in> set (all_models_of (select_profile (gateway_catalog ''n'')
        \<lparr>req_model = ''Qwen'', req_messages = [], req_stream = False, req_agent_id = None,
         req_session_id = None, req_declared = [], req_extra = []\<rparr> None)).
     name_matches ''qwen'' (lower_name m) \<and> 18 \<le> length (md_name m)"
proof -
  let ?c = "gateway_catalog ''n''"
  let ?r = "\<lparr>req_model = ''Qwen'', req_messages = [], req_stream = False, req_agent_id = None,
         req_session_id = None, req_declared = [], req_extra = []\<rparr>"
  let ?m = "QWEN38_FLASH_NEXT ''n''"
  have 1: "\<forall>p \<in> set (map snd (PROFILES ?c)). \<forall>m \<in> set (all_models_of p). md_name m \<noteq> []"
    by (simp add: profile_defs)
  have 2: "''qwen'' = py_lower (py_strip (req_model ?r))" by (simp add: str_eval)
  have 3: "\<forall>p \<in> set (map snd (PROFILES ?c)). \<forall>m \<in> set (all_models_of p). lower_name m \<noteq> ''qwen''"
    by (simp add: profile_defs)
  have p: "PROFILE_QWEN38 ''n'' \<in> set (map snd (PROFILES ?c))" "?m \<in> set (all_models_of (PROFILE_QWEN38 ''n''))"
    by (simp_all add: profile_defs)
  have "name_matches ''qwen'' (lower_name ?m)"
    by (simp add: name_matches_def str_in_def)
  with p have some: "\<not> (''qwen'' \<in> {[], ''auto''} \<or> (\<forall>p \<in> set (map snd (PROFILES ?c)).
      \<forall>m \<in> set (all_models_of p). \<not> name_matches ''qwen'' (lower_name m)))"
    by blast
  have len: "length (md_name ?m) = 18" by simp
  show ?thesis
    using select_profile_longest [OF 1 2 3, of None] p \<open>name_matches ''qwen'' (lower_name ?m)\<close>
    unfolding if_not_P [OF some] len [symmetric] by blast
qed

section \<open>A padded \<open>auto\<close>\<close>

text \<open>
  \<open>_select_profile\<close> strips the requested name and \<open>_select_model\<close> does not.  A request
  for \<open>auto\<close> takes the \<open>chat\<close> label of the profile, the same request with
  surrounding blanks takes its \<open>code\<close> label.
\<close>

lemma best_match_no_match:
  "\<forall>x \<in> set xs. \<not> name_matches req (nm x) \<Longrightarrow> best_match nm req xs b n = b"
  by (induction xs) auto

text \<open>For a profile whose \<open>chat\<close> and \<open>code\<close> labels differ, blanks around
  \<open>auto\<close> change the model the router selects, although the profile is selected as if they
  were not there.\<close>

theorem padded_auto_takes_code_label:
  assumes "dict_get (vp_labels p) ''chat'' = Some chat_model" "dict_get (vp_labels p) ''code'' = Some code_model"
    and "\<forall>m \<in> set (all_models_of p) \<union> set (ALL_MODELS cat). \<not> name_matches '' auto '' (lower_name m)"
    and "req_model r = ''auto''" "req_model r' = '' auto ''"
  shows "select_model cat r p = Inr chat_model \<and> select_model cat r' p = Inr code_model \<and>
    select_profile cat r (Some p) = p \<and> select_profile cat r' (Some p) = p"
proof -
  have "find (\<lambda>m. str_in (lower_name m) '' auto '' \<or> str_in '' auto '' (lower_name m)) (all_models_of p) = None"
    using assms(3) by (auto simp: find_None_iff name_matches_def)
  moreover have "match_global cat '' auto '' = None"
    using assms(3) by (simp add: match_global_def best_match_no_match)
  ultimately show ?thesis
    using assms by (simp add: select_model_def select_profile_def str_eval)
qed

definition two_label_profile :: vram_profile where
  "two_label_profile = mk_profile FOCUS ''two''
     [model_defaults ''alpha'' ''img'' ''x'' 1 1, model_defaults ''beta'' ''img'' ''y'' 1 2] []
     [(''chat'', model_defaults ''alpha'' ''img'' ''x'' 1 1), (''code'', model_defaults ''beta'' ''img'' ''y'' 1 2)] True"

theorem padded_auto_takes_code_label_witness:
  "select_model (gateway_catalog ''n'') \<lparr>req_model = '' auto '', req_messages = [], req_stream = False,
      req_agent_id = None, req_session_id = None, req_declared = [], req_extra = []\<rparr> two_label_profile =
    Inr (model_defaults ''beta'' ''img'' ''y'' 1 2)"
proof -
  let ?r = "\<lambda>m. \<lparr>req_model = m, req_messages = [], req_stream = False, req_agent_id = None,
      req_session_id = None, req_declared = [], req_extra = []\<rparr>"
  have 1: "dict_get (vp_labels two_label_profile) ''chat'' = Some (model_defaults ''alpha'' ''img'' ''x'' 1 1)"
    "dict_get (vp_labels two_label_profile) ''code'' = Some (model_defaults ''beta'' ''img'' ''y'' 1 2)"
    by (simp_all add: two_label_profile_def)
  have names: "md_name (model_defaults n i c v k) = n" for n i c v k by (simp add: model_defaults_def)
  have 2: "\<forall>m \<in> set (all_models_of two_label_profile) \<union> set (ALL_MODELS (gateway_catalog ''n'')).
      \<not> name_matches '' auto '' (lower_name m)"
    by (simp add: two_label_profile_def names name_matches_def str_in_def)
       (simp add: str_eval sublist_Cons_right)
  show ?thesis
    using padded_auto_takes_code_label [OF 1 2, of "?r ''auto''" "?r '' auto ''"] by simp
qed

end
