(* ===== verification/Shell.thy ===== *)
theory Shell
  imports Prelude
begin

text \<open>
  The quoting layers the orchestrator sends commands through: \<open>str.encode\<close>,
  \<open>base64.b64encode\<close> and \<open>shlex.quote\<close> of the Python library as the code uses
  them, and the other side, which the properties are about: \<open>base64 -d\<close>, the word splitting
  of a POSIX shell, and a here-document with a quoted delimiter.

  \<open>sh_words\<close> is defined for the part of the shell's grammar the gateway relies on: blanks,
  single quotes, double quotes without expansions, backslash, and the characters no shell
  gives a meaning to.  On anything else it is \<open>None\<close>, so a result \<open>Some ws\<close> means the
  command is one simple command with exactly these words.
\<close>

section \<open>Bytes and base64\<close>

text \<open>UTF-8 of the code points below 256; a byte is a \<open>char\<close>.\<close>

definition utf8_char :: "char \<Rightarrow> string" where
  "utf8_char c = (let n = code c in
     if n < 128 then [c] else [char_of (192 + n div 64), char_of (128 + n mod 64)])"

definition utf8 :: "string \<Rightarrow> string" where
  "utf8 s = concat (map utf8_char s)"

text \<open>The alphabet: capitals, small letters, digits, \<open>+\<close> and \<open>/\<close>.\<close>

definition b64_char :: "nat \<Rightarrow> char" where
  "b64_char n = (if n < 26 then char_of (65 + n) else if n < 52 then char_of (71 + n)
     else if n < 62 then char_of (n - 4) else if n = 62 then CHR ''+'' else CHR ''/'')"

fun b64encode :: "string \<Rightarrow> string" where
  "b64encode [] = []"
| "b64encode [a] = [b64_char (code a div 4), b64_char (code a mod 4 * 16), CHR ''='', CHR ''='']"
| "b64encode [a, b] = [b64_char (code a div 4), b64_char (code a mod 4 * 16 + code b div 16),
     b64_char (code b mod 16 * 4), CHR ''='']"
| "b64encode (a # b # c # r) = b64_char (code a div 4) # b64_char (code a mod 4 * 16 + code b div 16)
     # b64_char (code b mod 16 * 4 + code c div 64) # b64_char (code c mod 64) # b64encode r"

text \<open>The value of a digit, and \<open>base64 -d\<close> on padded input.\<close>

definition b64_val :: "char \<Rightarrow> nat" where
  "b64_val c = (let n = code c in
     if 65 \<le> n \<and> n \<le> 90 then n - 65
     else if 97 \<le> n \<and> n \<le> 122 then n - 71
     else if 48 \<le> n \<and> n \<le> 57 then n + 4
     else if n = 43 then 62 else 63)"

text \<open>The three bytes of a group of digits; \<open>char_of\<close> keeps the low eight bits.\<close>

definition b64_byte1 :: "nat \<Rightarrow> nat \<Rightarrow> char" where
  "b64_byte1 w x = char_of ((w * 64 + x) div 16)"

definition b64_byte2 :: "nat \<Rightarrow> nat \<Rightarrow> char" where
  "b64_byte2 x y = char_of ((x * 64 + y) div 4)"

definition b64_byte3 :: "nat \<Rightarrow> nat \<Rightarrow> char" where
  "b64_byte3 y z = char_of (y * 64 + z)"

fun b64decode :: "string \<Rightarrow> string option" where
  "b64decode [] = Some []"
| "b64decode (w # x # y # z # r) =
     (if z = CHR ''='' then
        (if r \<noteq> [] then None
         else if y = CHR ''='' then Some [b64_byte1 (b64_val w) (b64_val x)]
         else Some [b64_byte1 (b64_val w) (b64_val x), b64_byte2 (b64_val x) (b64_val y)])
      else map_option (\<lambda>t. b64_byte1 (b64_val w) (b64_val x) # b64_byte2 (b64_val x) (b64_val y)
             # b64_byte3 (b64_val y) (b64_val z) # t) (b64decode r))"
| "b64decode _ = None"

text \<open>The characters base64 output consists of: none of them means anything to a shell in
  double quotes.\<close>

definition b64_safe :: "char \<Rightarrow> bool" where
  "b64_safe c = (let n = code c in (48 \<le> n \<and> n \<le> 57) \<or> (65 \<le> n \<and> n \<le> 90) \<or> (97 \<le> n \<and> n \<le> 122) \<or>
     c \<in> set ''+/='')"

lemma b64_val_char: "n < 64 \<Longrightarrow> b64_val (b64_char n) = n"
  by (auto simp: b64_val_def b64_char_def Let_def)

lemma b64_char_safe: "n < 64 \<Longrightarrow> b64_safe (b64_char n)"
  by (auto simp: b64_safe_def b64_char_def Let_def)

lemma b64_char_not_pad: "n < 64 \<Longrightarrow> b64_char n \<noteq> CHR ''=''"
proof -
  assume "n < 64"
  have "of_char (b64_char n) \<noteq> (61::nat)"
    using \<open>n < 64\<close> by (auto simp: b64_char_def)
  then show ?thesis by auto
qed

lemma code_bounds: "code c < (256::nat)"
  by (rule nat_of_char_less_256)

lemma b64_digit_bounds:
  fixes a b c :: nat
  assumes "a < 256" "b < 256" "c < 256"
  shows "a div 4 < 64" "a mod 4 * 16 + b div 16 < 64" "a mod 4 * 16 < 64"
    "b mod 16 * 4 + c div 64 < 64" "b mod 16 * 4 < 64" "c mod 64 < 64"
proof -
  have "a mod 4 < 4" "b mod 16 < 16" "b div 16 < 16" "c div 64 < 4" using assms by auto
  then show "a div 4 < 64" "a mod 4 * 16 + b div 16 < 64" "a mod 4 * 16 < 64"
    "b mod 16 * 4 + c div 64 < 64" "b mod 16 * 4 < 64" "c mod 64 < 64"
    using assms by linarith+
qed

lemmas b64_code_bounds = b64_digit_bounds [OF code_bounds code_bounds code_bounds]

lemma b64encode_safe: "list_all b64_safe (b64encode bs)"
  by (induction bs rule: b64encode.induct)
     (simp_all add: b64_char_safe b64_code_bounds, simp_all add: b64_safe_def)

text \<open>The bits of three bytes regrouped in sixes and back.\<close>

lemma char_of_add_256: "char_of (256 * k + code c) = c"
proof -
  have "(256 * k + code c) mod 256 = code c" using code_bounds [of c] by simp
  then show ?thesis by (metis char_of_mod_256 char_of_char)
qed

text \<open>The arithmetic, with quotients and remainders as variables.\<close>

lemma regroup_arith:
  fixes q r a b :: nat
  shows "q * 4 + r = a \<Longrightarrow> q * 64 + (r * 16 + x) = a * 16 + x"
    and "q * 16 + r = b \<Longrightarrow> (y * 16 + q) * 64 + (r * 4 + x) = (256 * y + b) * 4 + x"
    and "q * 64 + r = b \<Longrightarrow> (y * 4 + q) * 64 + r = 256 * y + b"
  by auto

lemma b64_byte1_encode:
  "b < 256 \<Longrightarrow> b64_byte1 (code a div 4) (code a mod 4 * 16 + b div 16) = a"
proof -
  assume b: "b < 256"
  have "code a div 4 * 64 + (code a mod 4 * 16 + b div 16) = code a * 16 + b div 16"
    by (rule regroup_arith(1)) (rule div_mult_mod_eq)
  moreover have "b div 16 < 16" using b by auto
  ultimately have "(code a div 4 * 64 + (code a mod 4 * 16 + b div 16)) div 16 = code a" by simp
  then show ?thesis unfolding b64_byte1_def by simp
qed

lemma b64_byte2_encode:
  "c < 256 \<Longrightarrow> b64_byte2 (a mod 4 * 16 + code b div 16) (code b mod 16 * 4 + c div 64) = b"
proof -
  assume c: "c < 256"
  have "(a mod 4 * 16 + code b div 16) * 64 + (code b mod 16 * 4 + c div 64)
      = (256 * (a mod 4) + code b) * 4 + c div 64"
    by (rule regroup_arith(2)) (rule div_mult_mod_eq)
  moreover have "c div 64 < 4" using c by auto
  ultimately have "((a mod 4 * 16 + code b div 16) * 64 + (code b mod 16 * 4 + c div 64)) div 4 = 256 * (a mod 4) + code b"
    by simp
  then show ?thesis unfolding b64_byte2_def by (simp only: char_of_add_256)
qed

lemma b64_byte3_encode: "b64_byte3 (b mod 16 * 4 + code c div 64) (code c mod 64) = c"
proof -
  have "(b mod 16 * 4 + code c div 64) * 64 + code c mod 64 = 256 * (b mod 16) + code c"
    by (rule regroup_arith(3)) (rule div_mult_mod_eq)
  then show ?thesis unfolding b64_byte3_def by (simp only: char_of_add_256)
qed

lemma b64_decode_encode: "b64decode (b64encode bs) = Some bs"
proof (induction bs rule: b64encode.induct)
  case (2 a)
  then show ?case
    using b64_byte1_encode [of 0 a] by (simp add: b64_val_char b64_code_bounds del: One_nat_def)
next
  case (3 a b)
  then show ?case
    using b64_byte1_encode [of "code b" a] b64_byte2_encode [of 0 "code a" b]
    by (simp add: b64_val_char b64_code_bounds code_bounds b64_char_not_pad)
next
  case (4 a b c r)
  then show ?case
    using b64_byte1_encode [of "code b" a] b64_byte2_encode [of "code c" "code a" b] b64_byte3_encode [of "code b" c]
    by (simp add: b64_val_char b64_code_bounds code_bounds b64_char_not_pad)
qed simp

section \<open>Words of a command line\<close>

text \<open>\<open>shlex.quote\<close>: the safe characters are \<open>[a-zA-Z0-9_@%+=:,./-]\<close>; a single quote is
  replaced by a quote in double quotes between two quoted parts.\<close>

definition shell_safe :: "char \<Rightarrow> bool" where
  "shell_safe c = (let n = code c in (48 \<le> n \<and> n \<le> 57) \<or> (65 \<le> n \<and> n \<le> 90) \<or> (97 \<le> n \<and> n \<le> 122) \<or>
     c \<in> set ''_@%+=:,./-'')"

definition QUOTE :: char where "QUOTE = CHR 0x27"

fun escape_quotes :: "string \<Rightarrow> string \<Rightarrow> string" where
  "escape_quotes repl [] = []"
| "escape_quotes repl (c # cs) = (if c = QUOTE then repl @ escape_quotes repl cs else c # escape_quotes repl cs)"

definition shlex_quote :: "string \<Rightarrow> string" where
  "shlex_quote s =
     (if s = [] then [QUOTE, QUOTE]
      else if list_all shell_safe s then s
      else QUOTE # escape_quotes [QUOTE, CHR 0x22, QUOTE, CHR 0x22, QUOTE] s @ [QUOTE])"

datatype quoting = Unquoted | Single | Double

text \<open>The word being read is \<open>None\<close> between words.\<close>

fun sh_scan :: "quoting \<Rightarrow> string option \<Rightarrow> string \<Rightarrow> string list option" where
  "sh_scan Unquoted w [] = Some (case w of None \<Rightarrow> [] | Some t \<Rightarrow> [t])"
| "sh_scan Unquoted w (c # cs) =
     (if c = CHR 0x20 then
        (case w of None \<Rightarrow> sh_scan Unquoted None cs | Some t \<Rightarrow> map_option ((#) t) (sh_scan Unquoted None cs))
      else if c = QUOTE then sh_scan Single (Some (case w of None \<Rightarrow> [] | Some t \<Rightarrow> t)) cs
      else if c = CHR 0x22 then sh_scan Double (Some (case w of None \<Rightarrow> [] | Some t \<Rightarrow> t)) cs
      else if c = CHR 0x5C then
        (case cs of d # ds \<Rightarrow> if d = CHR 0x0A then None
             else sh_scan Unquoted (Some ((case w of None \<Rightarrow> [] | Some t \<Rightarrow> t) @ [d])) ds
           | [] \<Rightarrow> None)
      else if shell_safe c then sh_scan Unquoted (Some ((case w of None \<Rightarrow> [] | Some t \<Rightarrow> t) @ [c])) cs
      else None)"
| "sh_scan Single w [] = None"
| "sh_scan Single w (c # cs) =
     (if c = QUOTE then sh_scan Unquoted w cs
      else sh_scan Single (Some ((case w of None \<Rightarrow> [] | Some t \<Rightarrow> t) @ [c])) cs)"
| "sh_scan Double w [] = None"
| "sh_scan Double w (c # cs) =
     (if c = CHR 0x22 then sh_scan Unquoted w cs
      else if c \<in> {CHR 0x24, CHR 0x60, CHR 0x5C} then None
      else sh_scan Double (Some ((case w of None \<Rightarrow> [] | Some t \<Rightarrow> t) @ [c])) cs)"

definition sh_words :: "string \<Rightarrow> string list option" where
  "sh_words s = sh_scan Unquoted None s"

lemma shell_safe_special:
  "shell_safe c \<Longrightarrow> c \<noteq> CHR 0x20 \<and> c \<noteq> QUOTE \<and> c \<noteq> CHR 0x22 \<and> c \<noteq> CHR 0x5C"
  by (auto simp: shell_safe_def QUOTE_def Let_def)

lemma scan_safe:
  "list_all shell_safe s \<Longrightarrow> sh_scan Unquoted (Some t) (s @ rest) = sh_scan Unquoted (Some (t @ s)) rest"
  by (induction s arbitrary: t) (auto dest: shell_safe_special)

lemma scan_escaped:
  "sh_scan Single (Some t) (escape_quotes [QUOTE, CHR 0x22, QUOTE, CHR 0x22, QUOTE] s @ QUOTE # rest) =
   sh_scan Unquoted (Some (t @ s)) rest"
  by (induction s arbitrary: t) (auto simp: QUOTE_def)

text \<open>One quoted word, whatever its characters, is read back as that word.\<close>

lemma scan_quoted:
  "sh_scan Unquoted None (shlex_quote s @ rest) = sh_scan Unquoted (Some s) rest"
proof -
  consider "s = []" | c cs where "s = c # cs" "list_all shell_safe s" | "s \<noteq> []" "\<not> list_all shell_safe s"
    by (cases s) auto
  then show ?thesis
  proof cases
    case 1
    then show ?thesis by (simp add: shlex_quote_def) (simp add: QUOTE_def)
  next
    case 2
    then have "sh_scan Unquoted None (s @ rest) = sh_scan Unquoted (Some [c]) (cs @ rest)"
      by (auto dest: shell_safe_special)
    with 2 show ?thesis by (simp add: shlex_quote_def scan_safe)
  next
    case 3
    have "sh_scan Unquoted None (QUOTE # t) = sh_scan Single (Some []) t" for t by (simp add: QUOTE_def)
    with 3 show ?thesis using scan_escaped [of "[]" s rest] by (simp add: shlex_quote_def)
  qed
qed

theorem shlex_join_words: "sh_words (py_join '' '' (map shlex_quote ws)) = Some ws"
proof -
  have space: "sh_scan Unquoted (Some t) ('' '' @ rest) = map_option ((#) t) (sh_scan Unquoted None rest)" for t rest
    by simp
  have "sh_scan Unquoted None (py_join '' '' (map shlex_quote ws)) = Some ws"
  proof (induction ws rule: induct_list012)
    case (2 w)
    then show ?case using scan_quoted [of w "[]"] by simp
  next
    case (3 w v ws)
    then show ?case
      unfolding list.map py_join.simps scan_quoted space by simp
  qed simp
  then show ?thesis by (simp add: sh_words_def)
qed

section \<open>Here-documents\<close>

text \<open>The lines a here-document with a quoted delimiter passes on: they are not expanded.\<close>

definition heredoc_body :: "string \<Rightarrow> string \<Rightarrow> string list" where
  "heredoc_body delim script = takeWhile (\<lambda>l. l \<noteq> delim) (tl (split_char (CHR 0x0A) script))"

lemma heredoc_lines:
  assumes "CHR 0x0A \<notin> set first" "ls \<noteq> []" "\<forall>l \<in> set ls. CHR 0x0A \<notin> set l \<and> l \<noteq> delim" "CHR 0x0A \<notin> set delim"
  shows "heredoc_body delim (first @ [CHR 0x0A] @ py_join [CHR 0x0A] ls @ [CHR 0x0A] @ delim @ [CHR 0x0A] @ rest) = ls"
proof -
  have tw: "takeWhile (\<lambda>l. l \<noteq> delim) (ls @ delim # r) = ls" for r
    using assms(3) by (subst takeWhile_append2) auto
  show ?thesis
    using assms by (simp add: heredoc_body_def split_char_app split_char_lines tw)
qed

section \<open>Reading back the pieces\<close>

lemma scan_word:
  "list_all shell_safe s \<Longrightarrow> s \<noteq> [] \<Longrightarrow> sh_scan Unquoted None (s @ rest) = sh_scan Unquoted (Some s) rest"
proof -
  assume s: "list_all shell_safe s" "s \<noteq> []"
  then have "shlex_quote s = s" by (simp add: shlex_quote_def)
  with scan_quoted [of s rest] show ?thesis by simp
qed

lemma scan_double:
  "\<forall>c \<in> set s. c \<notin> {CHR 0x22, CHR 0x24, CHR 0x60, CHR 0x5C} \<Longrightarrow>
   sh_scan Double (Some t) (s @ CHR 0x22 # rest) = sh_scan Unquoted (Some (t @ s)) rest"
  by (induction s arbitrary: t) auto

lemma scan_single_escaped:
  "sh_scan Single (Some t) (escape_quotes [QUOTE, CHR 0x5C, QUOTE, QUOTE] s @ QUOTE # rest) =
   sh_scan Unquoted (Some (t @ s)) rest"
  by (induction s arbitrary: t) (auto simp: QUOTE_def)

lemma scan_space [simp]:
  "sh_scan Unquoted (Some t) (CHR 0x20 # rest) = map_option ((#) t) (sh_scan Unquoted None rest)"
  "sh_scan Unquoted None (CHR 0x20 # rest) = sh_scan Unquoted None rest"
  by simp_all

text \<open>A word glued to quoted text, as in \<open>export K='v'\<close>.\<close>

lemma scan_glued:
  "sh_scan Unquoted (Some t) (shlex_quote s @ rest) = sh_scan Unquoted (Some (t @ s)) rest"
proof -
  consider "s = []" | "s \<noteq> []" "list_all shell_safe s" | "s \<noteq> []" "\<not> list_all shell_safe s" by blast
  then show ?thesis
  proof cases
    case 1
    then show ?thesis by (simp add: shlex_quote_def QUOTE_def)
  next
    case 2
    then show ?thesis by (simp add: shlex_quote_def scan_safe)
  next
    case 3
    have "sh_scan Unquoted (Some t) (QUOTE # u) = sh_scan Single (Some t) u" for u by (simp add: QUOTE_def)
    with 3 show ?thesis using scan_escaped [of t s rest] by (simp add: shlex_quote_def)
  qed
qed

lemma scan_words: "sh_scan Unquoted None (py_join '' '' (map shlex_quote ws)) = Some ws"
  using shlex_join_words by (simp add: sh_words_def)

lemma shlex_quote_no_newline: "CHR 0x0A \<notin> set s \<Longrightarrow> CHR 0x0A \<notin> set (shlex_quote s)"
proof -
  have "CHR 0x0A \<notin> set r \<Longrightarrow> CHR 0x0A \<notin> set s \<Longrightarrow> CHR 0x0A \<notin> set (escape_quotes r s)" for r
    by (induction s) auto
  then show "CHR 0x0A \<notin> set s \<Longrightarrow> CHR 0x0A \<notin> set (shlex_quote s)"
    by (simp add: shlex_quote_def QUOTE_def)
qed

lemma py_join_set: "set (py_join sep ws) \<subseteq> set sep \<union> (\<Union>w \<in> set ws. set w)"
  by (induction sep ws rule: py_join.induct) auto

lemma digits_safe: "is_digit c \<Longrightarrow> shell_safe c"
  by (simp add: is_digit_def shell_safe_def Let_def)

lemma show_nat_safe: "list_all shell_safe (show_nat n)"
  using show_nat_digits by (auto simp: list_all_iff digits_safe)

lemma safe_no_newline: "list_all shell_safe s \<Longrightarrow> CHR 0x0A \<notin> set s"
  by (auto simp: list_all_iff shell_safe_def Let_def dest!: bspec)

text \<open>Safe words in front of anything else, each followed by a blank.\<close>

lemma scan_prefix:
  "list_all (\<lambda>w. list_all shell_safe w \<and> w \<noteq> []) ws \<Longrightarrow>
   sh_scan Unquoted None (concat (map (\<lambda>w. w @ [CHR 0x20]) ws) @ rest) =
     map_option ((@) ws) (sh_scan Unquoted None rest)"
proof (induction ws)
  case Nil
  then show ?case by (cases "sh_scan Unquoted None rest") simp_all
next
  case (Cons w ws)
  then show ?case
    by (simp add: scan_word option.map_comp o_def)
qed

end
