(* ===== verification/Commands.thy ===== *)
theory Commands
  imports Config Shell
begin

text \<open>
  The command lines of \<open>gateway/orchestrator.py\<close>: the environment and the arguments of a
  workload, the launch and kill scripts of the Spark ranks, the commands for the Ray head, and
  the keys of profiles.  All of them are pure functions of a model, a rank and the settings;
  \<open>Orchestrator\<close> runs them.
\<close>

section \<open>Environment and arguments of a workload\<close>

definition build_env :: "model_definition \<Rightarrow> (string, string) dict" where
  "build_env m =
     (let env = dict_merge [(''MODEL_NAME'', md_name m), (''NVIDIA_VISIBLE_DEVICES'', ''all'')] (md_extra_env m)
      in if md_engine m = ''vllm'' then dict_set env ''VLLM_PORT'' (show_nat (md_port m)) else env)"

fun extra_arg :: "string \<times> arg_value \<Rightarrow> string list" where
  "extra_arg (key, ABool b) = (if b then [key] else [])"
| "extra_arg (key, val) = [key, show_arg val]"

definition build_cmd :: "model_definition \<Rightarrow> string list option" where
  "build_cmd m =
     (if md_engine m \<in> {''vllm'', ''ray_vllm'', ''spark_cluster''} then
        Some (md_cmd_prefix m @
          [if md_hf_model_id m \<noteq> [] then md_hf_model_id m else ''/models'',
           ''--port'', show_nat (md_port m),
           ''--served-model-name'', md_name m,
           ''--tensor-parallel-size'', show_nat (md_tensor_parallel_size m),
           ''--max-model-len'', show_int_or_str (md_max_model_len m),
           ''--kv-cache-dtype'', md_kv_cache_dtype m,
           ''--enable-prefix-caching'', ''--trust-remote-code''] @
          (if py_lower (md_quantization m) \<noteq> ''auto''
           then [''--quantization'', py_lower (md_quantization m)] else []) @
          concat (map extra_arg (md_extra_args m)))
      else None)"

text \<open>The volumes of \<open>_create_and_start\<close>.\<close>

definition workload_volumes :: "settings \<Rightarrow> model_definition \<Rightarrow> (string, volume_mount) dict" where
  "workload_volumes cfg m =
     (if md_hf_model_id m = []
      then dict_set (md_extra_volumes m) (MODELS_PATH cfg @ ''/'' @ md_model_path m)
             \<lparr>vol_bind = ''/models'', vol_mode = ''ro''\<rparr>
      else md_extra_volumes m)"

section \<open>Profile keys\<close>

definition profile_key :: "vram_profile \<Rightarrow> string" where
  "profile_key p = profile_mode_value (vp_mode p) @ '':'' @ py_join ''|'' (sort (map md_name (all_models_of p)))"

text \<open>The code compares profile objects with \<open>is\<close>; the profiles of a well-formed catalog are
  distinct values, so equality picks the same entry.\<close>

definition registry_key :: "catalog \<Rightarrow> vram_profile \<Rightarrow> string" where
  "registry_key cat p = (case find (\<lambda>(k, p'). p' = p) (PROFILES cat) of
     Some (k, _) \<Rightarrow> k | None \<Rightarrow> profile_key p)"

lemma registry_key_of:
  assumes "wf_catalog cat" "(k, p) \<in> set (PROFILES cat)"
  shows "registry_key cat p = k"
proof -
  have "inj_on snd (set (PROFILES cat))" using assms(1) by (auto simp: wf_catalog_def distinct_map)
  moreover obtain k' where k': "find (\<lambda>(k, p'). p' = p) (PROFILES cat) = Some (k', p)"
    using assms(2) find_SomeD [of "\<lambda>(k, p'). p' = p" "PROFILES cat"]
    by (cases "find (\<lambda>(k, p'). p' = p) (PROFILES cat)") (auto simp: find_None_iff)
  moreover have "(k', p) \<in> set (PROFILES cat)" using find_SomeD [OF k'] by simp
  ultimately have "(k', p) = (k, p)" using assms(2) by (metis inj_on_contraD snd_conv)
  with k' show ?thesis by (simp add: registry_key_def)
qed

lemma registry_key_lookup:
  assumes "wf_catalog cat" "p \<in> set (map snd (PROFILES cat))"
  shows "dict_get (PROFILES cat) (registry_key cat p) = Some p"
proof -
  obtain k where k: "(k, p) \<in> set (PROFILES cat)" using assms(2) by auto
  then show ?thesis using registry_key_of [OF assms(1) k] wf_catalogD(3) [OF assms(1) k] by simp
qed

section \<open>Scripts for the Spark cluster\<close>

abbreviation NL :: string where "NL \<equiv> [CHR 0x0A]"

definition spark_process_tag :: "model_definition \<Rightarrow> nat \<Rightarrow> string" where
  "spark_process_tag m rank = ''spark-serve-'' @ md_name m @ ''-r'' @ show_nat rank"

definition spark_container :: "settings \<Rightarrow> model_definition \<Rightarrow> string" where
  "spark_container cfg m = (if md_exec_container m \<noteq> [] then md_exec_container m else SPARK_CLUSTER_CONTAINER cfg)"

text \<open>What \<open>_exec_shell_script\<close> sends to rank 0, and to a worker over SSH.\<close>

definition script_runner :: "string \<Rightarrow> string" where
  "script_runner script = ''echo '' @ b64encode (utf8 script) @ '' | base64 -d | bash''"

definition worker_command :: "string \<Rightarrow> string \<Rightarrow> string" where
  \<open>worker_command container runner = ''docker exec '' @ container @ '' bash -c "'' @ runner @ ''"''\<close>

text \<open>The SSH command line of \<open>_run_on_worker\<close>.\<close>

definition ssh_argv :: "settings \<Rightarrow> string \<Rightarrow> string \<Rightarrow> string list" where
  "ssh_argv cfg host command =
     [''ssh'', ''-i'', SPARK_SSH_KEY cfg, ''-o'', ''BatchMode=yes'', ''-o'', ''StrictHostKeyChecking=accept-new'',
      ''-o'', ''ConnectTimeout=10'', SPARK_SSH_USER cfg @ ''@'' @ host, command]"

text \<open>The arguments of one rank (\<open>args\<close> is the result of \<open>_build_cmd\<close>).\<close>

definition rank_cmd :: "settings \<Rightarrow> model_definition \<Rightarrow> string list \<Rightarrow> nat \<Rightarrow> string list" where
  "rank_cmd cfg m args rank =
     [''vllm'', ''serve''] @ args @
     (if md_cluster_nodes m > 1 then
        [''--nnodes'', show_nat (md_cluster_nodes m), ''--node-rank'', show_nat rank,
         ''--master-addr'', RAY_HEAD_HOST cfg, ''--master-port'', show_int (SPARK_MASTER_PORT cfg)] @
        (if rank > 0 then [''--headless''] else [])
      else [])"

definition export_line :: "string \<times> string \<Rightarrow> string" where
  "export_line kv = ''export '' @ fst kv @ ''='' @ shlex_quote (snd kv)"

definition exec_line :: "string \<Rightarrow> string list \<Rightarrow> string" where
  "exec_line tag cmd = ''exec -a '' @ tag @ '' '' @ py_join '' '' (map shlex_quote cmd)"

definition launch_script :: "settings \<Rightarrow> model_definition \<Rightarrow> string list \<Rightarrow> nat \<Rightarrow> string" where
  "launch_script cfg m args rank =
     (let exports = py_join NL (map export_line (md_extra_env m));
          suffix = md_name m @ ''_r'' @ show_nat rank;
          log_file = ''/tmp/vllm_'' @ suffix @ ''.log'';
          runner = ''/tmp/start_'' @ suffix @ ''.sh''
      in ''cat > '' @ runner @ '' <<'' @ [QUOTE] @ ''SPARK_LAUNCH_EOF'' @ [QUOTE] @ NL @
         exports @ NL @
         exec_line (spark_process_tag m rank) (rank_cmd cfg m args rank) @ NL @
         ''SPARK_LAUNCH_EOF'' @ NL @
         ''nohup bash '' @ runner @ '' > '' @ log_file @ '' 2>&1 &'' @ NL)"

definition kill_pattern :: "model_definition \<Rightarrow> string" where
  "kill_pattern m = ''vllm serve '' @ (if md_hf_model_id m \<noteq> [] then md_hf_model_id m else md_name m)"

definition kill_script :: "model_definition \<Rightarrow> string" where
  \<open>kill_script m =
     ''for pid in $(pgrep -f '' @ shlex_quote (kill_pattern m) @ ''); do '' @
     ''pgid=$(ps -o pgid= -p "$pid" 2>/dev/null | tr -d '' @ [QUOTE] @ '' '' @ [QUOTE] @ ''); '' @
     ''[ -n "$pgid" ] && kill -TERM -"$pgid" 2>/dev/null; '' @
     ''done; '' @
     ''sleep 5; '' @
     ''pkill -KILL -f '' @ shlex_quote (kill_pattern m) @ '' 2>/dev/null; '' @
     ''pgrep -f '' @ [QUOTE] @ ''vllm serve'' @ [QUOTE] @ '' >/dev/null 2>&1 || '' @
     ''pkill -KILL -f '' @ [QUOTE] @ ''VLLM::'' @ [QUOTE] @ '' 2>/dev/null; '' @
     ''true'' @ NL\<close>

section \<open>Commands for the Ray head\<close>

definition RAY_HEAD_NAME :: string where "RAY_HEAD_NAME = ''ray-node-head''"

definition count_nodes_cmd :: "string list" where
  "count_nodes_cmd = [''bash'', ''-c'',
     ''ray status 2>/dev/null | grep -c '' @ [QUOTE] @ '' node_'' @ [QUOTE]]"

text \<open>The background command of \<open>_start_ray_vllm\<close>; every single quote is doubled up for the
  outer shell.\<close>

definition ray_serve_cmd :: "model_definition \<Rightarrow> string list \<Rightarrow> string" where
  "ray_serve_cmd m args =
     (let cmd_list = (if md_cmd_prefix m = [] then [''vllm'', ''serve''] @ args else args);
          cmd_str = py_join '' '' (map shlex_quote cmd_list);
          inner_cmd = escape_quotes [QUOTE, CHR 0x5C, QUOTE, QUOTE] cmd_str
      in ''nohup bash -c '' @ [QUOTE] @ ''exec -a vllm-serve-'' @ md_container_name m @ '' '' @ inner_cmd @ [QUOTE] @
         '' > /tmp/vllm_'' @ md_container_name m @ ''.log 2>&1 &'')"

definition ray_kill_cmd :: "model_definition \<Rightarrow> string" where
  "ray_kill_cmd m =
     (let tag = [QUOTE] @ ''vllm-serve-'' @ md_container_name m @ [QUOTE]
      in ''pkill -TERM -f '' @ tag @ '' 2>/dev/null; '' @
         ''sleep 2; '' @
         ''pkill -KILL -f '' @ tag @ '' 2>/dev/null; '' @
         ''pkill -f '' @ [QUOTE] @ ''vllm.*--port '' @ show_nat (md_port m) @ [QUOTE] @ '' 2>/dev/null; '' @
         ''true'')"

definition ray_kill_all_cmd :: string where
  "ray_kill_all_cmd = ''pkill -f '' @ [QUOTE] @ ''vllm-serve-vllm-'' @ [QUOTE] @ '' 2>/dev/null; '' @
     ''pkill -f '' @ [QUOTE] @ ''vllm serve'' @ [QUOTE] @ '' 2>/dev/null; true''"

definition placement_cleanup_cmd :: "string list" where
  "placement_cleanup_cmd = [''python3'', ''-c'', concat
     [''import os, ray'', NL,
      ''os.environ.setdefault('', [QUOTE], ''RAY_ADDRESS'', [QUOTE], '', '', [QUOTE], ''auto'', [QUOTE], '')'', NL,
      ''ray.init()'', NL,
      ''pgs = ray.util.placement_group_table()'', NL,
      ''for pg_id in pgs:'', NL,
      ''    try:'', NL,
      ''        from ray.util.placement_group import PlacementGroup'', NL,
      ''        pg = PlacementGroup(ray.PlacementGroupID(bytes.fromhex(pg_id)))'', NL,
      ''        ray.util.remove_placement_group(pg)'', NL,
      ''    except Exception:'', NL,
      ''        pass'', NL,
      ''print(f'', [QUOTE], ''Removed {len(pgs)} placement group(s)'', [QUOTE], '')'', NL,
      ''ray.shutdown()'', NL]]"

section \<open>The commands arrive verbatim\<close>

text \<open>What the quoting relies on: single-line arguments and values, names that need no quoting where
  the code inserts them unquoted, and variable names the shell accepts.\<close>

definition ident_char :: "char \<Rightarrow> bool" where
  "ident_char c = (is_digit c \<or> (65 \<le> code c \<and> code c \<le> 90) \<or> (97 \<le> code c \<and> code c \<le> 122) \<or> c = CHR ''_'')"

definition var_name :: "string \<Rightarrow> bool" where
  "var_name k = (k \<noteq> [] \<and> \<not> is_digit (hd k) \<and> list_all ident_char k)"

text \<open>What \<open>bash\<close> does with the lines of a launch file: an empty line is passed over, \<open>export\<close>
  sets a variable, \<open>exec -a\<close> replaces the shell by a command under another name and ends the
  script.  Anything else is \<open>None\<close>: it is not a script of this form.\<close>

definition assignment :: "string \<Rightarrow> (string \<times> string) option" where
  "assignment w = (case dropWhile (\<lambda>c. c \<noteq> CHR ''='') w of
     [] \<Rightarrow> None | _ # v \<Rightarrow> Some (takeWhile (\<lambda>c. c \<noteq> CHR ''='') w, v))"

fun run_lines :: "(string, string) dict \<Rightarrow> string list \<Rightarrow> ((string, string) dict \<times> string \<times> string list) option" where
  "run_lines env [] = None"
| "run_lines env (l # ls) =
     (case sh_words l of
        Some [] \<Rightarrow> run_lines env ls
      | Some [cmd, w] \<Rightarrow> (case assignment w of
            Some (k, v) \<Rightarrow> if cmd = ''export'' \<and> var_name k then run_lines (dict_set env k v) ls else None
          | None \<Rightarrow> None)
      | Some (cmd # flag # tag # arg # args) \<Rightarrow>
          if cmd = ''exec'' \<and> flag = ''-a'' then Some (env, tag, arg # args) else None
      | _ \<Rightarrow> None)"

abbreviation single_line :: "string \<Rightarrow> bool" where
  "single_line s \<equiv> CHR 0x0A \<notin> set s"

definition launchable :: "settings \<Rightarrow> model_definition \<Rightarrow> string list \<Rightarrow> bool" where
  "launchable cfg m args =
     (list_all single_line args \<and> single_line (RAY_HEAD_HOST cfg) \<and> list_all shell_safe (md_name m) \<and>
      list_all (\<lambda>(k, v). var_name k \<and> single_line v) (md_extra_env m))"

lemma ident_safe: "ident_char c \<Longrightarrow> shell_safe c" "\<not> ident_char (CHR ''='')"
  unfolding ident_char_def shell_safe_def is_digit_def Let_def by (elim disjE, simp_all)

lemma var_name_safe: "var_name k \<Longrightarrow> list_all shell_safe k \<and> CHR ''='' \<notin> set k"
  using ident_safe by (auto simp: var_name_def list_all_iff)

lemma assignment_of: "CHR ''='' \<notin> set k \<Longrightarrow> assignment (k @ ''='' @ v) = Some (k, v)"
proof -
  assume "CHR ''='' \<notin> set k"
  then have "dropWhile (\<lambda>c. c \<noteq> CHR ''='') (k @ ''='' @ v) = ''='' @ v" "takeWhile (\<lambda>c. c \<noteq> CHR ''='') (k @ ''='' @ v) = k"
    by (induction k) auto
  then show ?thesis by (simp add: assignment_def)
qed

lemma show_int_single_line: "single_line (show_int i)"
  using safe_no_newline [OF show_nat_safe] by (simp add: show_int_def)

lemma rank_cmd_single_line: "launchable cfg m args \<Longrightarrow> list_all single_line (rank_cmd cfg m args rank)"
  by (simp add: rank_cmd_def launchable_def safe_no_newline [OF show_nat_safe] show_int_single_line)

lemma exec_line_words:
  assumes "list_all shell_safe tag" "tag \<noteq> []"
  shows "sh_words (exec_line tag cmd) = Some (''exec'' # ''-a'' # tag # cmd)"
proof -
  have "list_all (\<lambda>w. list_all shell_safe w \<and> w \<noteq> []) [''exec'', ''-a'', tag]"
    using assms by (simp add: shell_safe_def)
  from scan_prefix [OF this, of "py_join '' '' (map shlex_quote cmd)"] show ?thesis
    by (simp add: sh_words_def exec_line_def scan_words del: sh_scan.simps)
qed

lemma export_line_words:
  assumes "list_all shell_safe k"
  shows "sh_words (export_line (k, v)) = Some [''export'', k @ ''='' @ v]"
proof -
  have 1: "list_all (\<lambda>w. list_all shell_safe w \<and> w \<noteq> []) [''export'']" by (simp add: shell_safe_def)
  have 2: "sh_scan Unquoted None ((k @ ''='') @ rest) = sh_scan Unquoted (Some (k @ ''='')) rest" for rest
    using assms by (intro scan_word) (simp_all add: shell_safe_def)
  have 3: "sh_scan Unquoted None (k @ ''='' @ shlex_quote v) = Some [k @ ''='' @ v]"
    using 2 [of "shlex_quote v"] scan_glued [of "k @ ''=''" v "[]"] by simp
  show ?thesis
    using scan_prefix [OF 1, of "k @ ''='' @ shlex_quote v"]
    unfolding 3 by (simp add: sh_words_def export_line_def del: sh_scan.simps)
qed

lemma spark_tag_safe: "list_all shell_safe (md_name m) \<Longrightarrow> list_all shell_safe (spark_process_tag m rank)"
  by (simp add: spark_process_tag_def show_nat_safe shell_safe_def)

lemma exec_line_single_line:
  assumes "list_all single_line cmd" "single_line tag"
  shows "single_line (exec_line tag cmd)"
proof -
  have "single_line (py_join '' '' (map shlex_quote cmd))"
    using assms(1) py_join_set [of "'' ''" "map shlex_quote cmd"] shlex_quote_no_newline
    by (fastforce simp: list_all_iff)
  with assms(2) show ?thesis by (simp add: exec_line_def)
qed

lemma split_script:
  "single_line a \<Longrightarrow> single_line d \<Longrightarrow> single_line z \<Longrightarrow> body \<noteq> [] \<Longrightarrow> \<forall>l \<in> set body. single_line l \<Longrightarrow>
   split_char (CHR 0x0A) (a @ CHR 0x0A # py_join NL body @ CHR 0x0A # d @ CHR 0x0A # z @ NL) = a # body @ [d, z, []]"
  using split_char_app [of "CHR 0x0A" z "[]"] by (simp add: split_char_app split_char_lines)

lemma launch_script_lines:
  assumes "launchable cfg m args"
    and body: "body = (if md_extra_env m = [] then [[]] else map export_line (md_extra_env m)) @
     [exec_line (spark_process_tag m rank) (rank_cmd cfg m args rank)]"
    and path: "path = ''/tmp/start_'' @ md_name m @ ''_r'' @ show_nat rank @ ''.sh''"
  shows "split_char (CHR 0x0A) (launch_script cfg m args rank) =
     (''cat > '' @ path @ '' <<'' @ [QUOTE] @ ''SPARK_LAUNCH_EOF'' @ [QUOTE]) # body @
     [''SPARK_LAUNCH_EOF'', ''nohup bash '' @ path @ '' > /tmp/vllm_'' @ md_name m @ ''_r'' @ show_nat rank @ ''.log 2>&1 &'', []] \<and>
     ''SPARK_LAUNCH_EOF'' \<notin> set body"
proof -
  let ?exports = "if md_extra_env m = [] then [[]] else map export_line (md_extra_env m)"
  let ?exec = "exec_line (spark_process_tag m rank) (rank_cmd cfg m args rank)"
  have name: "single_line (md_name m)" "single_line (spark_process_tag m rank)"
    using assms(1) safe_no_newline spark_tag_safe by (auto simp: launchable_def)
  have export: "single_line (export_line kv)" if kv: "kv \<in> set (md_extra_env m)" for kv
  proof -
    have "var_name (fst kv)" "single_line (snd kv)"
      using assms(1) kv by (auto simp: launchable_def list_all_iff split_def)
    then show ?thesis
      using safe_no_newline [of "fst kv"] var_name_safe [of "fst kv"] shlex_quote_no_newline [of "snd kv"]
      by (simp add: export_line_def)
  qed
  have lines: "\<forall>l \<in> set (?exports @ [?exec]). single_line l \<and> l \<noteq> ''SPARK_LAUNCH_EOF''"
    using export exec_line_single_line [OF rank_cmd_single_line [OF assms(1)] name(2)]
    by (auto simp: export_line_def exec_line_def)
  have join: "py_join NL (map export_line (md_extra_env m)) @ NL @ ?exec = py_join NL (?exports @ [?exec])"
  proof -
    have "py_join sep (xs @ [y]) = py_join sep xs @ sep @ y" if "xs \<noteq> []" for sep y xs
      using that by (induction sep xs rule: py_join.induct) simp_all
    then show ?thesis by simp
  qed
  let ?first = "''cat > '' @ path @ '' <<'' @ [QUOTE] @ ''SPARK_LAUNCH_EOF'' @ [QUOTE]"
  let ?last = "''nohup bash '' @ path @ '' > /tmp/vllm_'' @ md_name m @ ''_r'' @ show_nat rank @ ''.log 2>&1 &''"
  have "launch_script cfg m args rank = ?first @ CHR 0x0A # py_join NL body @ CHR 0x0A # ''SPARK_LAUNCH_EOF'' @ CHR 0x0A # ?last @ NL"
    unfolding launch_script_def Let_def body join [symmetric] by (simp add: path)
  moreover have "single_line ?first" "single_line ?last"
    using name safe_no_newline [OF show_nat_safe] by (simp_all add: QUOTE_def path)
  moreover have "body \<noteq> []" "\<forall>l \<in> set body. single_line l" "''SPARK_LAUNCH_EOF'' \<notin> set body"
    using lines unfolding body by blast+
  moreover have "single_line ''SPARK_LAUNCH_EOF''" by simp
  ultimately show ?thesis using split_script [of ?first "''SPARK_LAUNCH_EOF''" ?last body] by metis
qed

lemma b64_safe_quotable: "b64_safe c \<Longrightarrow> c \<notin> {CHR 0x22, CHR 0x24, CHR 0x60, CHR 0x5C}"
  by (auto simp: b64_safe_def Let_def)

lemma worker_command_words:
  assumes "list_all shell_safe container" "container \<noteq> []"
  shows "sh_words (worker_command container (script_runner script)) =
    Some [''docker'', ''exec'', container, ''bash'', ''-c'', script_runner script]"
proof -
  have 1: "list_all (\<lambda>w. list_all shell_safe w \<and> w \<noteq> []) [''docker'', ''exec'', container, ''bash'', ''-c'']"
    using assms by (simp add: shell_safe_def)
  have "\<forall>c \<in> set (script_runner script). c \<notin> {CHR 0x22, CHR 0x24, CHR 0x60, CHR 0x5C}"
    using b64encode_safe b64_safe_quotable by (auto simp: script_runner_def list_all_iff)
  from scan_double [OF this, of "[]" "[]"]
  have "sh_scan Unquoted None (CHR 0x22 # script_runner script @ [CHR 0x22]) = Some [script_runner script]"
    by (simp add: QUOTE_def)
  with scan_prefix [OF 1, of "CHR 0x22 # script_runner script @ [CHR 0x22]"] show ?thesis
    by (simp add: sh_words_def worker_command_def del: sh_scan.simps)
qed

lemma run_exports:
  "list_all (\<lambda>(k, v). var_name k \<and> single_line v) kvs \<Longrightarrow>
   run_lines env (map export_line kvs @ ls) = run_lines (dict_merge env kvs) ls"
proof (induction kvs arbitrary: env)
  case (Cons kv kvs)
  obtain k v where kv: "kv = (k, v)" by (cases kv)
  with Cons.prems have k: "var_name k" by simp
  with export_line_words [of k v] assignment_of [of k v] var_name_safe [OF k] Cons kv show ?case
    by (simp add: dict_merge_def)
qed (simp add: dict_merge_def)

text \<open>C15: the launch of a Spark rank survives its quoting layers.  The command a worker's shell
  gets over SSH is one \<open>docker exec\<close> with the runner as a single argument; the payload the
  runner pipes into \<open>bash\<close> decodes to the script.  The script writes the lines of its
  here-document to a file and runs that file; running these lines changes the environment by
  exactly the variables of the model, in order, and ends in \<open>exec -a\<close> with the tag and exactly
  the arguments built for that rank, JSON values included.  The names must need no quoting and
  arguments and values be single lines; they may hold any other characters.\<close>

theorem spark_launch_verbatim:
  assumes "launchable cfg m args" "list_all shell_safe container" "container \<noteq> []"
    and "script = launch_script cfg m args rank"
    and "path = ''/tmp/start_'' @ md_name m @ ''_r'' @ show_nat rank @ ''.sh''"
  shows "sh_words (worker_command container (script_runner script)) =
      Some [''docker'', ''exec'', container, ''bash'', ''-c'', script_runner script]
    \<and> (\<exists>payload. script_runner script = ''echo '' @ payload @ '' | base64 -d | bash'' \<and>
         list_all b64_safe payload \<and> b64decode payload = Some (utf8 script))
    \<and> list_all shell_safe path
    \<and> (\<exists>body. split_char (CHR 0x0A) script =
          (''cat > '' @ path @ '' <<'' @ [QUOTE] @ ''SPARK_LAUNCH_EOF'' @ [QUOTE]) # body @ [''SPARK_LAUNCH_EOF'',
           ''nohup bash '' @ path @ '' > /tmp/vllm_'' @ md_name m @ ''_r'' @ show_nat rank @ ''.log 2>&1 &'', []] \<and>
         ''SPARK_LAUNCH_EOF'' \<notin> set body \<and> heredoc_body ''SPARK_LAUNCH_EOF'' script = body \<and>
         (\<forall>env. run_lines env body =
            Some (dict_merge env (md_extra_env m), spark_process_tag m rank, rank_cmd cfg m args rank)))"
proof -
  define body where "body = (if md_extra_env m = [] then [[]] else map export_line (md_extra_env m)) @
     [exec_line (spark_process_tag m rank) (rank_cmd cfg m args rank)]"
  note lines = launch_script_lines [OF assms(1) body_def assms(5), folded assms(4)]
  have tag: "list_all shell_safe (spark_process_tag m rank)" "spark_process_tag m rank \<noteq> []"
    using assms(1) spark_tag_safe by (auto simp: launchable_def spark_process_tag_def)
  have path: "list_all shell_safe path"
    using assms(1) show_nat_safe by (simp add: assms(5) launchable_def shell_safe_def)
  have "takeWhile (\<lambda>l. l \<noteq> delim) (b @ delim # r) = b" if "delim \<notin> set b" for delim r and b :: "string list"
    using that by (subst takeWhile_append2) auto
  with lines have heredoc: "heredoc_body ''SPARK_LAUNCH_EOF'' script = body" by (simp add: heredoc_body_def)
  have "run_lines env [exec_line (spark_process_tag m rank) (rank_cmd cfg m args rank)] =
      Some (env, spark_process_tag m rank, rank_cmd cfg m args rank)" for env
    using exec_line_words [OF tag] by (auto simp: rank_cmd_def)
  moreover have "list_all (\<lambda>(k, v). var_name k \<and> single_line v) (md_extra_env m)"
    using assms(1) by (simp add: launchable_def)
  ultimately have run: "run_lines env body =
      Some (dict_merge env (md_extra_env m), spark_process_tag m rank, rank_cmd cfg m args rank)" for env
    unfolding body_def by (simp add: run_exports dict_merge_def sh_words_def del: run_lines.simps(2)) (simp add: sh_words_def)
  show ?thesis
    using worker_command_words [OF assms(2,3)] b64encode_safe b64_decode_encode lines heredoc run path
    by (auto simp: script_runner_def)
qed

definition deepseek_args :: "string list" where
  "deepseek_args = the (build_cmd (DEEPSEEK_V4_FLASH ''vllm_node''))"

lemma py_lower_auto [simp]: "py_lower ''auto'' = ''auto''"
  by (simp add: str_eval)

lemma deepseek_launchable: "launchable default_settings (DEEPSEEK_V4_FLASH ''vllm_node'') deepseek_args"
proof -
  have "list_all single_line deepseek_args"
    using safe_no_newline [OF show_nat_safe]
    by (simp add: deepseek_args_def build_cmd_def DEEPSEEK_V4_FLASH_def model_defaults_def show_int_def)
  moreover have "list_all (\<lambda>(k, v). var_name k \<and> single_line v) (md_extra_env (DEEPSEEK_V4_FLASH ''vllm_node''))"
    by (simp add: DEEPSEEK_V4_FLASH_def model_defaults_def var_name_def ident_char_def is_digit_def)
  ultimately show ?thesis
    by (simp add: launchable_def default_settings_def shell_safe_def)
qed

theorem spark_launch_verbatim_witness:
  "run_lines [] (heredoc_body ''SPARK_LAUNCH_EOF''
      (launch_script default_settings (DEEPSEEK_V4_FLASH ''vllm_node'') deepseek_args 1)) =
    Some (dict_merge [] (md_extra_env (DEEPSEEK_V4_FLASH ''vllm_node'')), ''spark-serve-deepseek-v4-flash-r1'',
      [''vllm'', ''serve''] @ deepseek_args @ [''--nnodes'', ''2'', ''--node-rank'', ''1'', ''--master-addr'',
       ''192.168.200.12'', ''--master-port'', ''29501'', ''--headless''])"
proof -
  let ?m = "DEEPSEEK_V4_FLASH ''vllm_node''"
  have "list_all shell_safe ''vllm_node''" by (simp add: shell_safe_def)
  then have "run_lines [] (heredoc_body ''SPARK_LAUNCH_EOF'' (launch_script default_settings ?m deepseek_args 1)) =
    Some (dict_merge [] (md_extra_env ?m), spark_process_tag ?m 1, rank_cmd default_settings ?m deepseek_args 1)"
    using spark_launch_verbatim [OF deepseek_launchable _ _ refl refl, of "''vllm_node''" 1] by auto
  moreover have "rank_cmd default_settings ?m deepseek_args 1 =
    [''vllm'', ''serve''] @ deepseek_args @ [''--nnodes'', ''2'', ''--node-rank'', ''1'',
     ''--master-addr'', ''192.168.200.12'', ''--master-port'', ''29501'', ''--headless'']"
    by (simp add: rank_cmd_def default_settings_def str_eval)
  moreover have "spark_process_tag ?m 1 = ''spark-serve-deepseek-v4-flash-r1''"
    by (simp add: spark_process_tag_def str_eval)
  ultimately show ?thesis by simp
qed

text \<open>The command that starts a model inside the Ray head also reaches \<open>vllm\<close> verbatim:
  in front of its redirections it is one \<open>nohup bash -c\<close> with a single argument, although
  that argument is itself full of quotes, and the inner shell reads it as \<open>exec -a\<close> with the
  tag and exactly the arguments of the model.\<close>

theorem ray_serve_verbatim:
  assumes "list_all shell_safe (md_container_name m)"
  shows "\<exists>simple inner.
      ray_serve_cmd m args = simple @ '' > /tmp/vllm_'' @ md_container_name m @ ''.log 2>&1 &''
    \<and> sh_words simple = Some [''nohup'', ''bash'', ''-c'', inner]
    \<and> sh_words inner = Some ([''exec'', ''-a'', ''vllm-serve-'' @ md_container_name m] @
        (if md_cmd_prefix m = [] then [''vllm'', ''serve''] else []) @ args)"
proof -
  let ?cmd = "(if md_cmd_prefix m = [] then [''vllm'', ''serve''] else []) @ args"
  let ?tag = "''vllm-serve-'' @ md_container_name m"
  let ?inner = "exec_line ?tag ?cmd"
  let ?simple = "''nohup bash -c '' @ [QUOTE] @ escape_quotes [QUOTE, CHR 0x5C, QUOTE, QUOTE] ?inner @ [QUOTE]"
  have esc_app: "escape_quotes r (a @ b) = escape_quotes r a @ escape_quotes r b" for r a b
    by (induction a) auto
  have esc_safe: "list_all shell_safe s \<Longrightarrow> escape_quotes r s = s" for r s
    by (induction s) (auto dest: shell_safe_special)
  have "escape_quotes r ?tag = ?tag" for r
    using assms by (intro esc_safe) (simp add: shell_safe_def)
  then have inner: "escape_quotes r ?inner = ''exec -a '' @ ?tag @ '' '' @ escape_quotes r (py_join '' '' (map shlex_quote ?cmd))" for r
    unfolding exec_line_def esc_app by (simp add: QUOTE_def)
  have "ray_serve_cmd m args = ?simple @ '' > /tmp/vllm_'' @ md_container_name m @ ''.log 2>&1 &''"
    unfolding inner by (simp add: ray_serve_cmd_def Let_def)
  moreover have "sh_words ?simple = Some [''nohup'', ''bash'', ''-c'', ?inner]"
  proof -
    have 1: "list_all (\<lambda>w. list_all shell_safe w \<and> w \<noteq> []) [''nohup'', ''bash'', ''-c'']"
      by (simp add: shell_safe_def)
    have 2: "sh_scan Unquoted None (QUOTE # escape_quotes [QUOTE, CHR 0x5C, QUOTE, QUOTE] ?inner @ [QUOTE]) = Some [?inner]"
      using scan_single_escaped [of "[]" ?inner "[]"] by (simp add: QUOTE_def)
    show ?thesis
      using scan_prefix [OF 1, of "QUOTE # escape_quotes [QUOTE, CHR 0x5C, QUOTE, QUOTE] ?inner @ [QUOTE]"]
      unfolding 2 by (simp add: sh_words_def del: sh_scan.simps)
  qed
  moreover have "sh_words ?inner = Some (''exec'' # ''-a'' # ?tag # ?cmd)"
    using assms by (intro exec_line_words) (simp_all add: shell_safe_def)
  ultimately show ?thesis by (intro exI [of _ ?simple] exI [of _ ?inner]) auto
qed

theorem ray_serve_verbatim_witness:
  \<open>\<exists>inner. sh_words inner =
    Some ([''exec'', ''-a'', ''vllm-serve-qwen'', ''vllm'', ''serve'', ''/models'', ''--config'', ''{"a b": 1}''])\<close>
proof -
  let ?m = "model_defaults ''q'' ''img'' ''qwen'' 1 8000"
  have m: "md_container_name ?m = ''qwen''" "md_cmd_prefix ?m = []" by (simp_all add: model_defaults_def)
  have "list_all shell_safe (md_container_name ?m)" by (simp add: m shell_safe_def)
  from ray_serve_verbatim [OF this, of \<open>[''/models'', ''--config'', ''{"a b": 1}'']\<close>] show ?thesis
    by (auto simp: m)
qed

section \<open>What a kill pattern matches\<close>

text \<open>
  \<open>pgrep -f\<close> searches the pattern, a regular expression, in the whole command line of a
  process.  For the patterns of the catalog only the dot is special.  The command line of a
  serve process is the one the kernel rebuilds for a script with a shebang line.
\<close>

fun dot_prefix :: "string \<Rightarrow> string \<Rightarrow> bool" where
  "dot_prefix [] cs = True"
| "dot_prefix (p # ps) [] = False"
| "dot_prefix (p # ps) (c # cs) = ((p = CHR ''.'' \<or> p = c) \<and> dot_prefix ps cs)"

fun dot_found :: "string \<Rightarrow> string \<Rightarrow> bool" where
  "dot_found ps [] = dot_prefix ps []"
| "dot_found ps (c # cs) = (dot_prefix ps (c # cs) \<or> dot_found ps cs)"

definition process_line :: "string list \<Rightarrow> string" where
  "process_line cmd = ''python3 /usr/local/bin/'' @ py_join '' '' cmd"

definition serve_line :: "settings \<Rightarrow> model_definition \<Rightarrow> nat \<Rightarrow> string" where
  "serve_line cfg m rank = process_line (rank_cmd cfg m (the (build_cmd m)) rank)"

text \<open>A match of a pattern that starts with \<open>vllm\<close> needs that text somewhere.\<close>

lemma dot_prefix_append:
  "CHR ''.'' \<notin> set a \<Longrightarrow> dot_prefix (a @ ps) cs \<longleftrightarrow> (\<exists>bs. cs = a @ bs \<and> dot_prefix ps bs)"
  by (induction a arbitrary: cs) (case_tac cs; auto)+

lemma dot_found_needs:
  assumes "CHR ''.'' \<notin> set a" "dot_found (a @ ps) cs"
  shows "sublist a cs"
  using assms(2)
proof (induction cs)
  case Nil
  then show ?case using dot_prefix_append [OF assms(1)] by auto
next
  case (Cons c cs)
  then show ?case
    using dot_prefix_append [OF assms(1), of ps "c # cs"] by (auto simp: sublist_Cons_right)
qed

lemma sublist_joined:
  assumes "c \<notin> set x" "x \<noteq> []" "sublist x (py_join [c] ws)"
  shows "\<exists>w \<in> set ws. sublist x w"
  using assms(3)
proof (induction ws rule: induct_list012)
  case (3 w v ws)
  have "sublist x w \<or> sublist x (py_join [c] (v # ws))"
    if "sublist x (w @ c # py_join [c] (v # ws))"
  proof -
    from that obtain ps ss where eq: "w @ c # py_join [c] (v # ws) = ps @ x @ ss" by (auto simp: sublist_def)
    then consider us where "w = ps @ us" "us @ c # py_join [c] (v # ws) = x @ ss"
      | us where "w @ us = ps" "c # py_join [c] (v # ws) = us @ x @ ss"
      by (auto simp: append_eq_append_conv2)
    then show ?thesis
    proof cases
      case 1
      then have "prefix x us"
        using assms(1) by (auto simp: append_eq_append_conv2 prefix_def Cons_eq_append_conv)
      with 1(1) show ?thesis by (metis prefix_imp_sublist sublist_appendI sublist_order.order.trans append_Nil2 sublist_append_leftI)
    next
      case 2
      then have "us \<noteq> []" using assms(1,2) by (cases x) auto
      with 2 show ?thesis by (auto simp: Cons_eq_append_conv)
    qed
  qed
  with 3 show ?case by auto
qed (use assms in auto)

lemma kill_pattern_match:
  assumes "list_all (\<lambda>w. \<not> sublist ''vllm'' w) args" "args \<noteq> []"
  shows "dot_found (''vllm serve '' @ ps) (process_line (''vllm'' # ''serve'' # args)) = dot_prefix ps (py_join '' '' args)"
proof -
  have "\<not> sublist ''vllm'' (py_join '' '' args)"
    using sublist_joined [of "CHR '' ''" "''vllm''" args] assms(1) by (auto simp: list_all_iff)
  then have "\<not> dot_found (''vllm'' @ '' serve '' @ ps) (py_join '' '' args)"
    using dot_found_needs [of "''vllm''" "'' serve '' @ ps"] by auto
  with assms(2) show ?thesis by (cases args) (simp_all add: process_line_def)
qed

lemma no_vllm_number [simp]: "\<not> sublist ''vllm'' (show_nat n)" "\<not> sublist ''vllm'' (show_int i)"
proof -
  have no: "\<not> sublist ''vllm'' (s @ show_nat n)" if "CHR ''v'' \<notin> set s" for s n
  proof
    assume "sublist ''vllm'' (s @ show_nat n)"
    then have "CHR ''v'' \<in> set s \<union> set (show_nat n)"
      using set_mono_sublist by fastforce
    with that show False using show_nat_digits [of n] by (auto simp: is_digit_def)
  qed
  from no [of "[]"] show "\<not> sublist ''vllm'' (show_nat n)" by simp
  from no [of "[]"] no [of "''-''"] show "\<not> sublist ''vllm'' (show_int i)" by (simp add: show_int_def)
qed

lemma catalog_args:
  assumes "m \<in> set (ALL_MODELS (gateway_catalog c))"
  obtains rest where "build_cmd m = Some (md_hf_model_id m # ''--port'' # rest)"
    "list_all (\<lambda>w. \<not> sublist ''vllm'' w) (md_hf_model_id m # ''--port'' # rest)"
proof -
  have q: "py_lower ''modelopt_mixed'' = ''modelopt_mixed''" by (simp add: str_eval)
  from assms consider "m = DEEPSEEK_V4_FLASH c" | "m = QWEN35_122B_FP8 c" | "m = QWEN38_FLASH_NEXT c" by auto
  then show ?thesis
  proof cases
    case 1
    show ?thesis
      by (rule that [of "tl (tl (the (build_cmd m)))"])
         (simp_all add: 1 build_cmd_def DEEPSEEK_V4_FLASH_def model_defaults_def sublist_Cons_right)
  next
    case 2
    show ?thesis
      by (rule that [of "tl (tl (the (build_cmd m)))"])
         (simp_all add: 2 build_cmd_def QWEN35_122B_FP8_def model_defaults_def sublist_Cons_right)
  next
    case 3
    show ?thesis
      by (rule that [of "tl (tl (the (build_cmd m)))"])
         (simp_all add: 3 q build_cmd_def QWEN38_FLASH_NEXT_def model_defaults_def sublist_Cons_right)
  qed
qed
lemma catalog_model_ids [simp]:
  "md_hf_model_id (DEEPSEEK_V4_FLASH c) = ''deepseek-ai/DeepSeek-V4-Flash-0731''"
  "md_hf_model_id (QWEN35_122B_FP8 c) = ''Qwen/Qwen3.5-122B-A10B-FP8''"
  "md_hf_model_id (QWEN38_FLASH_NEXT c) = ''local-inference-lab/Qwen3.8-Flash-Next-NVFP4''"
  by (simp_all add: DEEPSEEK_V4_FLASH_def QWEN35_122B_FP8_def QWEN38_FLASH_NEXT_def model_defaults_def)

text \<open>C16: the pattern that stops a model of the catalog matches the command line of every rank of
  that model and of no other model of the catalog, so a teardown by identity reaches its target
  and never a model that is to be kept.\<close>

theorem kill_selects_own:
  assumes "m \<in> set (ALL_MODELS (gateway_catalog c))" "m' \<in> set (ALL_MODELS (gateway_catalog c))"
    and "\<not> sublist ''vllm'' (RAY_HEAD_HOST cfg)"
  shows "dot_found (kill_pattern m) (serve_line cfg m' rank) \<longleftrightarrow> m = m'"
proof -
  obtain rest where cmd: "build_cmd m' = Some (md_hf_model_id m' # ''--port'' # rest)"
    "list_all (\<lambda>w. \<not> sublist ''vllm'' w) (md_hf_model_id m' # ''--port'' # rest)"
    by (rule catalog_args [OF assms(2)])
  let ?args = "(md_hf_model_id m' # ''--port'' # rest) @ drop 2 (rank_cmd cfg m' [] rank)"
  have "md_hf_model_id m \<noteq> []" using assms(1) by auto
  then have pat: "kill_pattern m = ''vllm serve '' @ md_hf_model_id m" by (simp add: kill_pattern_def)
  have line: "serve_line cfg m' rank = process_line (''vllm'' # ''serve'' # ?args)"
    by (simp add: serve_line_def cmd(1) rank_cmd_def)
  have "list_all (\<lambda>w. \<not> sublist ''vllm'' w) ?args"
    using cmd(2) assms(3) by (simp add: rank_cmd_def sublist_Cons_right)
  then have "dot_found (kill_pattern m) (serve_line cfg m' rank) = dot_prefix (md_hf_model_id m) (py_join '' '' ?args)"
    unfolding pat line by (intro kill_pattern_match) simp_all
  then show ?thesis using assms(1,2) by auto
qed
theorem kill_selects_own_witness:
  "dot_found (kill_pattern (QWEN35_122B_FP8 ''n'')) (serve_line default_settings (QWEN35_122B_FP8 ''n'') 0) \<and>
   \<not> dot_found (kill_pattern (QWEN35_122B_FP8 ''n'')) (serve_line default_settings (DEEPSEEK_V4_FLASH ''n'') 1)"
proof -
  have "\<not> sublist ''vllm'' (RAY_HEAD_HOST default_settings)"
    by (simp add: default_settings_def sublist_Cons_right)
  then show ?thesis
    using kill_selects_own [of "QWEN35_122B_FP8 ''n''" "''n''" "QWEN35_122B_FP8 ''n''" default_settings 0]
      kill_selects_own [of "QWEN35_122B_FP8 ''n''" "''n''" "DEEPSEEK_V4_FLASH ''n''" default_settings 1]
    by simp
qed

end
