(* ===== verification/VramMonitor.thy ===== *)
theory VramMonitor
  imports Config
begin

text \<open>
  \<open>gateway/vram_monitor.py\<close>: the VRAM report and the budget check.

  The NVML library is a parameter: for each call the monitor makes, what it returns, with
  \<open>None\<close> for an \<open>NVMLError\<close>.  The host's \<open>meminfo\<close> is a list of lines, \<open>None\<close>
  if it cannot be opened.
\<close>

section \<open>What NVML answers\<close>

record nvml_device =
  nv_name :: "string option"
  nv_memory :: "(int \<times> int \<times> int) option"
  nv_processes :: "int option list option"
  nv_temperature :: "int option"
  nv_utilization :: "int option"

record nvml =
  nvml_ok :: bool
  nv_devices :: "nvml_device option list option"

section \<open>Host memory\<close>

definition parse_kb :: "string \<Rightarrow> exn + int" where
  "parse_kb line = (case split_ws line of _ # kb # _ \<Rightarrow> py_int kb | _ \<Rightarrow> Inl IndexError)"

fun meminfo_loop :: "string list \<Rightarrow> int option \<Rightarrow> int option \<Rightarrow> exn + int option \<times> int option" where
  "meminfo_loop [] total_kb avail_kb = Inr (total_kb, avail_kb)"
| "meminfo_loop (line # ls) total_kb avail_kb =
     and_then (if prefix ''MemTotal:'' line then and_then (parse_kb line) (\<lambda>n. Inr (Some n, avail_kb))
               else if prefix ''MemAvailable:'' line then and_then (parse_kb line) (\<lambda>n. Inr (total_kb, Some n))
               else Inr (total_kb, avail_kb))
       (\<lambda>(t, a). if t \<noteq> None \<and> a \<noteq> None then Inr (t, a) else meminfo_loop ls t a)"

definition read_host_memory :: "string list option \<Rightarrow> (int \<times> int) option" where
  "read_host_memory meminfo =
     (case meminfo of None \<Rightarrow> None
      | Some ls \<Rightarrow> (case meminfo_loop ls None None of
            Inr (Some t, Some a) \<Rightarrow> Some (t div 1024, a div 1024)
          | _ \<Rightarrow> None))"

section \<open>The report\<close>

text \<open>\<open>_sum_process_memory_nvml\<close>: processes whose usage is missing or zero are skipped.\<close>

definition sum_process_memory :: "nvml_device \<Rightarrow> int" where
  "sum_process_memory d = (case nv_processes d of None \<Rightarrow> 0
     | Some ps \<Rightarrow> sum_list (map (\<lambda>u. case u of None \<Rightarrow> 0 | Some b \<Rightarrow> b div (1024 * 1024)) ps))"

text \<open>Total, used and free memory of a device.\<close>

definition device_memory :: "int \<Rightarrow> string list option \<Rightarrow> nvml_device \<Rightarrow> int \<times> int \<times> int" where
  "device_memory ram_gb meminfo d =
     (let cap_mb = ram_gb * 1024 in
      case read_host_memory meminfo of
        Some (total_mb, free_mb) \<Rightarrow> (total_mb, max (total_mb - free_mb) 0, free_mb)
      | None \<Rightarrow> (case nv_memory d of
            Some (t, u, f) \<Rightarrow>
              (let total_mb = t div (1024 * 1024); used_mb = u div (1024 * 1024); free_mb = f div (1024 * 1024)
               in if total_mb > cap_mb then (cap_mb, used_mb, max (cap_mb - used_mb) 0)
                  else (total_mb, used_mb, free_mb))
          | None \<Rightarrow> (let used_mb = sum_process_memory d in (cap_mb, used_mb, max (cap_mb - used_mb) 0))))"

definition query_device :: "int \<Rightarrow> string list option \<Rightarrow> nat \<Rightarrow> nvml_device option \<Rightarrow> gpu_info option" where
  "query_device ram_gb meminfo idx dev =
     (case dev of None \<Rightarrow> None
      | Some d \<Rightarrow> (case nv_name d of None \<Rightarrow> None
          | Some n \<Rightarrow> (let (total_mb, used_mb, free_mb) = device_memory ram_gb meminfo d in
              Some \<lparr>gpu_index = idx, gpu_name = n, gpu_total_mb = total_mb, gpu_used_mb = used_mb,
                gpu_free_mb = free_mb,
                gpu_temperature_c = (case nv_temperature d of Some t \<Rightarrow> t | None \<Rightarrow> 0),
                gpu_utilization_pct = (case nv_utilization d of Some u \<Rightarrow> u | None \<Rightarrow> 0)\<rparr>)))"

definition mock_report :: vram_report where
  "mock_report =
     (let gpu = (\<lambda>i. \<lparr>gpu_index = i, gpu_name = ''NVIDIA Blackwell B200 (simulated) #'' @ show_nat i,
            gpu_total_mb = 131072, gpu_used_mb = 0, gpu_free_mb = 131072, gpu_temperature_c = 35,
            gpu_utilization_pct = 0\<rparr>)
      in \<lparr>vr_gpus = [gpu 0, gpu 1], vr_total_mb = 262144, vr_used_mb = 0, vr_free_mb = 262144, vr_healthy = True\<rparr>)"

definition query_gpus :: "int \<Rightarrow> nvml \<Rightarrow> string list option \<Rightarrow> vram_report" where
  "query_gpus ram_gb nv meminfo =
     (if \<not> nvml_ok nv then mock_report
      else (case nv_devices nv of
          None \<Rightarrow> empty_vram_report\<lparr>vr_healthy := False\<rparr>
        | Some devs \<Rightarrow>
            (let gpus = List.map_filter (\<lambda>(i, d). query_device ram_gb meminfo i d) (zip [0..<length devs] devs)
             in \<lparr>vr_gpus = gpus, vr_total_mb = sum_list (map gpu_total_mb gpus),
                 vr_used_mb = sum_list (map gpu_used_mb gpus), vr_free_mb = sum_list (map gpu_free_mb gpus),
                 vr_healthy = True\<rparr>)))"

text \<open>One pass of \<open>_poll_loop\<close>: an exception leaves the figures and drops the health.\<close>

definition poll_once :: "exn + vram_report \<Rightarrow> vram_report \<Rightarrow> vram_report" where
  "poll_once r latest = (case r of Inr report \<Rightarrow> report | Inl _ \<Rightarrow> latest\<lparr>vr_healthy := False\<rparr>)"

definition has_enough_vram :: "settings \<Rightarrow> int \<Rightarrow> vram_report \<Rightarrow> bool" where
  "has_enough_vram cfg required_mb report = (vr_free_mb report \<ge> required_mb + VRAM_SAFETY_MARGIN_MB cfg)"

section \<open>Properties\<close>

lemma and_then_cases: "and_then r f = (case r of Inl e \<Rightarrow> Inl e | Inr x \<Rightarrow> f x)"
  by (cases r) simp_all

text \<open>Lines that mention neither figure are skipped.\<close>

definition other_line :: "string \<Rightarrow> bool" where
  "other_line l = (\<not> prefix ''MemTotal:'' l \<and> \<not> prefix ''MemAvailable:'' l)"

lemma meminfo_loop_skip:
  "list_all other_line xs \<Longrightarrow> t = None \<or> a = None \<Longrightarrow> meminfo_loop (xs @ ls) t a = meminfo_loop ls t a"
  by (induction xs) (auto simp: other_line_def)

lemma meminfo_loop_total:
  "prefix ''MemTotal:'' l \<Longrightarrow> parse_kb l = Inr n \<Longrightarrow> meminfo_loop (l # ls) None a =
     (if a = None then meminfo_loop ls (Some n) None else Inr (Some n, a))"
  by simp

lemma prefix_clash: "prefix ''MemAvailable:'' l \<Longrightarrow> \<not> prefix ''MemTotal:'' l"
  by (auto simp: prefix_def)

lemma meminfo_loop_avail:
  "prefix ''MemAvailable:'' l \<Longrightarrow> parse_kb l = Inr n \<Longrightarrow> meminfo_loop (l # ls) t None =
     (if t = None then meminfo_loop ls None (Some n) else Inr (t, Some n))"
  using prefix_clash [of l] by simp

text \<open>The host's memory is found wherever its two lines stand in \<open>meminfo\<close>: with the
  \<open>MemTotal\<close> and \<open>MemAvailable\<close> lines in either order, other lines before and
  between them and anything after them, the result is the two figures in MiB.\<close>

theorem read_host_memory_finds:
  assumes "list_all other_line xs" "list_all other_line ys"
    and "prefix ''MemTotal:'' tline" "parse_kb tline = Inr t" "prefix ''MemAvailable:'' aline" "parse_kb aline = Inr a"
  shows "read_host_memory (Some (xs @ tline # ys @ aline # zs)) = Some (t div 1024, a div 1024) \<and>
    read_host_memory (Some (xs @ aline # ys @ tline # zs)) = Some (t div 1024, a div 1024)"
proof -
  have "meminfo_loop (xs @ tline # ys @ aline # zs) None None = Inr (Some t, Some a)"
    using assms by (simp add: meminfo_loop_skip meminfo_loop_total meminfo_loop_avail del: meminfo_loop.simps)
  moreover have "meminfo_loop (xs @ aline # ys @ tline # zs) None None = Inr (Some t, Some a)"
    using assms by (simp add: meminfo_loop_skip meminfo_loop_total meminfo_loop_avail del: meminfo_loop.simps)
  ultimately show ?thesis by (simp add: read_host_memory_def)
qed

theorem read_host_memory_finds_witness:
  "read_host_memory (Some [''MemTotal: 125829120 kB'', ''MemFree: 1 kB'', ''MemAvailable: 104857600 kB'', ''x'']) =
     Some (122880, 102400)"
proof -
  have "parse_kb ''MemTotal: 125829120 kB'' = Inr 125829120" "parse_kb ''MemAvailable: 104857600 kB'' = Inr 104857600"
    by (simp_all add: parse_kb_def py_int_def parse_nat_def is_digit_def digit_val_def str_eval)
  moreover have "list_all other_line [''MemFree: 1 kB'']" by (simp add: other_line_def)
  ultimately show ?thesis
    using read_host_memory_finds [of "[]" "[''MemFree: 1 kB'']" "''MemTotal: 125829120 kB''" 125829120
        "''MemAvailable: 104857600 kB''" 104857600 "[''x'']"] by simp
qed

text \<open>Figures that make sense on input: free and used memory within the total.\<close>

definition sane_device :: "nvml_device \<Rightarrow> bool" where
  "sane_device d =
     ((case nv_memory d of None \<Rightarrow> True | Some (t, u, f) \<Rightarrow> 0 \<le> u \<and> 0 \<le> f \<and> f \<le> t \<and> u + f \<le> t) \<and>
      (case nv_processes d of None \<Rightarrow> True | Some ps \<Rightarrow> \<forall>u \<in> set ps. case u of None \<Rightarrow> True | Some b \<Rightarrow> 0 \<le> b))"

definition sane_host :: "string list option \<Rightarrow> bool" where
  "sane_host meminfo = (case read_host_memory meminfo of None \<Rightarrow> True | Some (t, a) \<Rightarrow> 0 \<le> a \<and> a \<le> t)"

lemma sum_process_memory_nonneg: "sane_device d \<Longrightarrow> 0 \<le> sum_process_memory d"
  unfolding sum_process_memory_def sane_device_def
  by (cases "nv_processes d") (auto intro!: sum_list_nonneg simp: pos_imp_zdiv_nonneg_iff split: option.split_asm option.splits)

lemma mb_split: "u + f \<le> t \<Longrightarrow> u div 1048576 + f div 1048576 \<le> t div (1048576 :: int)"
  using mult_div_mod_eq [of 1048576 u] mult_div_mod_eq [of 1048576 f] mult_div_mod_eq [of 1048576 t]
    pos_mod_sign [of 1048576 u] pos_mod_sign [of 1048576 f] pos_mod_bound [of 1048576 t] by linarith

text \<open>Used and free memory stay within the total; only a device whose used memory alone is above the total
  (processes or readings above the configured pool) is reported with more, and then with nothing free.\<close>

definition mem_within :: "int \<Rightarrow> int \<Rightarrow> int \<Rightarrow> bool" where
  "mem_within t u f = (0 \<le> u \<and> 0 \<le> f \<and> f \<le> t \<and> (u + f \<le> t \<or> f = 0 \<and> t < u))"

lemma device_memory_bounds:
  assumes "sane_device d" "sane_host meminfo" "0 \<le> ram_gb" "device_memory ram_gb meminfo d = (t, u, f)"
  shows "mem_within t u f" "read_host_memory meminfo = None \<longrightarrow> t \<le> ram_gb * 1024"
proof -
  have "mem_within t u f \<and> (read_host_memory meminfo = None \<longrightarrow> t \<le> ram_gb * 1024)"
  proof (cases "read_host_memory meminfo")
    case (Some p)
    then show ?thesis using assms by (cases p) (auto simp: device_memory_def sane_host_def mem_within_def Let_def)
  next
    case None
    show ?thesis
    proof (cases "nv_memory d")
      case (Some q)
      obtain t0 u0 f0 where q: "q = (t0, u0, f0)" by (cases q)
      with Some assms(1) have sane: "0 \<le> u0" "0 \<le> f0" "f0 \<le> t0" "u0 + f0 \<le> t0" by (simp_all add: sane_device_def)
      then have "f0 div 1048576 \<le> t0 div 1048576" by (simp add: zdiv_mono1)
      with sane mb_split [OF sane(4)] show ?thesis using assms(3,4) None Some
        by (auto simp: device_memory_def mem_within_def q Let_def pos_imp_zdiv_nonneg_iff max_def split: if_splits)
    next
      case None': None
      then show ?thesis using assms None sum_process_memory_nonneg [OF assms(1)]
        by (auto simp: device_memory_def mem_within_def Let_def max_def split: if_splits)
    qed
  qed
  then show "mem_within t u f" "read_host_memory meminfo = None \<longrightarrow> t \<le> ram_gb * 1024" by blast+
qed

lemma query_device_sound:
  assumes "query_device ram_gb meminfo i dev = Some g" "sane_host meminfo" "0 \<le> ram_gb"
    and "case dev of None \<Rightarrow> True | Some d \<Rightarrow> sane_device d"
  shows "mem_within (gpu_total_mb g) (gpu_used_mb g) (gpu_free_mb g)"
    "read_host_memory meminfo = None \<longrightarrow> gpu_total_mb g \<le> ram_gb * 1024"
proof -
  obtain d t u f where d: "dev = Some d" "device_memory ram_gb meminfo d = (t, u, f)"
    "gpu_total_mb g = t" "gpu_used_mb g = u" "gpu_free_mb g = f"
    using assms(1) by (auto simp: query_device_def split: option.splits prod.splits)
  then have "sane_device d" using assms(4) by simp
  from device_memory_bounds [OF this assms(2,3) d(2)] d
  show "mem_within (gpu_total_mb g) (gpu_used_mb g) (gpu_free_mb g)"
    "read_host_memory meminfo = None \<longrightarrow> gpu_total_mb g \<le> ram_gb * 1024" by simp_all
qed

text \<open>The readings are plausible: of the devices that answer, and of the host.\<close>

definition sane_readings :: "nvml \<Rightarrow> string list option \<Rightarrow> bool" where
  "sane_readings nv meminfo = (sane_host meminfo \<and>
     (case nv_devices nv of None \<Rightarrow> True
      | Some devs \<Rightarrow> list_all (\<lambda>dev. case dev of None \<Rightarrow> True | Some d \<Rightarrow> sane_device d) devs))"

lemma query_gpus_devices:
  assumes "g \<in> set (vr_gpus (query_gpus ram_gb nv meminfo))" "sane_readings nv meminfo" "0 \<le> ram_gb"
  shows "mem_within (gpu_total_mb g) (gpu_used_mb g) (gpu_free_mb g)"
    "nvml_ok nv \<and> read_host_memory meminfo = None \<longrightarrow> gpu_total_mb g \<le> ram_gb * 1024"
proof -
  have "mem_within (gpu_total_mb g) (gpu_used_mb g) (gpu_free_mb g) \<and>
    (nvml_ok nv \<and> read_host_memory meminfo = None \<longrightarrow> gpu_total_mb g \<le> ram_gb * 1024)"
  proof (cases "nvml_ok nv")
    case False
    then show ?thesis using assms(1) by (auto simp: query_gpus_def mock_report_def mem_within_def Let_def)
  next
    case True
    show ?thesis
    proof (cases "nv_devices nv")
      case None
      then show ?thesis using assms(1) True by (simp add: query_gpus_def empty_vram_report_def)
    next
      case (Some devs)
      then obtain i dev where dev: "(i, dev) \<in> set (zip [0..<length devs] devs)" "query_device ram_gb meminfo i dev = Some g"
        using assms(1) True by (auto simp: query_gpus_def Let_def List.map_filter_def)
      then have "dev \<in> set devs" by (auto dest: set_zip_rightD)
      then have "case dev of None \<Rightarrow> True | Some d \<Rightarrow> sane_device d" "sane_host meminfo"
        using assms(2) Some by (auto simp: sane_readings_def list_all_iff)
      with query_device_sound [OF dev(2) _ assms(3)] show ?thesis by blast
    qed
  qed
  then show "mem_within (gpu_total_mb g) (gpu_used_mb g) (gpu_free_mb g)"
    "nvml_ok nv \<and> read_host_memory meminfo = None \<longrightarrow> gpu_total_mb g \<le> ram_gb * 1024" by blast+
qed

lemma query_gpus_sums:
  "vr_total_mb (query_gpus ram_gb nv meminfo) = sum_list (map gpu_total_mb (vr_gpus (query_gpus ram_gb nv meminfo)))"
  "vr_used_mb (query_gpus ram_gb nv meminfo) = sum_list (map gpu_used_mb (vr_gpus (query_gpus ram_gb nv meminfo)))"
  "vr_free_mb (query_gpus ram_gb nv meminfo) = sum_list (map gpu_free_mb (vr_gpus (query_gpus ram_gb nv meminfo)))"
  by (simp_all add: query_gpus_def mock_report_def empty_vram_report_def Let_def split: option.split)

lemma sum_used_free:
  "\<forall>g \<in> set gs. gpu_used_mb g + gpu_free_mb g \<le> gpu_total_mb g \<Longrightarrow>
   sum_list (map gpu_used_mb gs) + sum_list (map gpu_free_mb gs) \<le> sum_list (map gpu_total_mb gs)"
  by (induction gs) auto

text \<open>C28: the report is sound.  The three totals of every report, simulated and unhealthy ones included, are
  the sums over its devices.  On plausible readings every device has non-negative used and free
  memory that stay within its total, unless the used memory alone exceeds the total and nothing is
  reported free; without host figures no device claims more than the configured memory.  So if no
  device is overfull, a load that the budget check admits fits beside what is used and leaves the
  safety margin.\<close>

theorem vram_report_sound:
  assumes r: "r = query_gpus ram_gb nv meminfo"
  shows "vr_total_mb r = sum_list (map gpu_total_mb (vr_gpus r)) \<and>
    vr_used_mb r = sum_list (map gpu_used_mb (vr_gpus r)) \<and>
    vr_free_mb r = sum_list (map gpu_free_mb (vr_gpus r)) \<and>
    (sane_readings nv meminfo \<and> 0 \<le> ram_gb \<longrightarrow>
      (\<forall>g \<in> set (vr_gpus r). 0 \<le> gpu_used_mb g \<and> 0 \<le> gpu_free_mb g \<and> gpu_free_mb g \<le> gpu_total_mb g \<and>
         (gpu_used_mb g + gpu_free_mb g \<le> gpu_total_mb g \<or> gpu_free_mb g = 0 \<and> gpu_total_mb g < gpu_used_mb g) \<and>
         (nvml_ok nv \<and> read_host_memory meminfo = None \<longrightarrow> gpu_total_mb g \<le> ram_gb * 1024)) \<and>
      ((\<forall>g \<in> set (vr_gpus r). gpu_used_mb g \<le> gpu_total_mb g) \<and> has_enough_vram cfg required r \<longrightarrow>
         vr_used_mb r + required + VRAM_SAFETY_MARGIN_MB cfg \<le> vr_total_mb r))"
proof -
  have gpu: "mem_within (gpu_total_mb g) (gpu_used_mb g) (gpu_free_mb g) \<and>
      (nvml_ok nv \<and> read_host_memory meminfo = None \<longrightarrow> gpu_total_mb g \<le> ram_gb * 1024)"
    if "sane_readings nv meminfo" "0 \<le> ram_gb" "g \<in> set (vr_gpus r)" for g
    using query_gpus_devices [OF _ that(1,2)] that(3) unfolding r by blast
  have fits: "vr_used_mb r + required + VRAM_SAFETY_MARGIN_MB cfg \<le> vr_total_mb r"
    if "sane_readings nv meminfo" "0 \<le> ram_gb" "\<forall>g \<in> set (vr_gpus r). gpu_used_mb g \<le> gpu_total_mb g"
      "has_enough_vram cfg required r"
  proof -
    have "\<forall>g \<in> set (vr_gpus r). gpu_used_mb g + gpu_free_mb g \<le> gpu_total_mb g"
      using gpu [OF that(1,2)] that(3) by (fastforce simp: mem_within_def)
    from sum_used_free [OF this] that(4) show ?thesis
      unfolding has_enough_vram_def query_gpus_sums [of ram_gb nv meminfo, folded r] by linarith
  qed
  show ?thesis
    using gpu fits query_gpus_sums [of ram_gb nv meminfo, folded r] by (simp add: mem_within_def)
qed

theorem vram_report_sound_witness:
  "\<exists>r. r = query_gpus 128 \<lparr>nvml_ok = True, nv_devices = Some [Some \<lparr>nv_name = Some ''GB10'', nv_memory = None,
        nv_processes = Some [Some 1048576, None], nv_temperature = Some 50, nv_utilization = None\<rparr>]\<rparr> None
     \<and> vr_used_mb r + vr_free_mb r = vr_total_mb r \<and> vr_total_mb r = 131072"
proof -
  let ?d = "\<lparr>nv_name = Some ''GB10'', nv_memory = None, nv_processes = Some [Some 1048576, None],
      nv_temperature = Some 50, nv_utilization = None\<rparr>"
  let ?nv = "\<lparr>nvml_ok = True, nv_devices = Some [Some ?d]\<rparr>"
  let ?r = "query_gpus 128 ?nv None"
  have sane: "sane_readings ?nv None"
    by (simp_all add: sane_readings_def sane_host_def read_host_memory_def sane_device_def)
  note sound = vram_report_sound [of ?r 128 ?nv None, OF refl]
  have gpus: "map gpu_total_mb (vr_gpus ?r) = [131072]" "map gpu_used_mb (vr_gpus ?r) = [1]" "map gpu_free_mb (vr_gpus ?r) = [131071]"
    by (simp_all add: query_gpus_def query_device_def device_memory_def read_host_memory_def sum_process_memory_def
        List.map_filter_def Let_def)
  from sound sane have "\<forall>g \<in> set (vr_gpus ?r). gpu_free_mb g \<le> gpu_total_mb g" by simp
  then show ?thesis using sound gpus by simp
qed

end
