(* ===== verification/Effects.thy ===== *)
theory Effects
  imports Prelude
begin

text \<open>
  How effects are modelled.  A call to something outside the program (the container runtime, SSH,
  the network, the clock) is an \<open>ext\<close>: a function of an abstract world that returns its
  result, the milliseconds it took and the next world.  A coroutine of the gateway is an
  \<open>eff\<close>: a function of its state that returns an exception or a value, and the next state.
  Triples \<open>valid P m Q E\<close> say what holds after a normal return and after an exception.
\<close>

named_theorems hoare \<open>rules for triples\<close>

section \<open>External calls\<close>

type_synonym ('w, 'a) ext = "'w \<Rightarrow> 'a \<times> nat \<times> 'w"

definition ext_ret :: "'a \<Rightarrow> ('w, 'a) ext" where
  "ext_ret x = (\<lambda>w. (x, 0, w))"

definition ext_bind :: "('w, 'a) ext \<Rightarrow> ('a \<Rightarrow> ('w, 'b) ext) \<Rightarrow> ('w, 'b) ext" where
  "ext_bind m f = (\<lambda>w. case m w of (x, d, w') \<Rightarrow> (case f x w' of (y, d', w'') \<Rightarrow> (y, d + d', w'')))"

text \<open>All results of a call, whatever the world.\<close>

definition ext_all :: "('w, 'a) ext \<Rightarrow> ('a \<Rightarrow> bool) \<Rightarrow> bool" where
  "ext_all m Q = (\<forall>w. Q (fst (m w)))"

lemma ext_all_ret [intro]: "Q x \<Longrightarrow> ext_all (ext_ret x) Q"
  by (simp add: ext_all_def ext_ret_def)

lemma ext_all_bind: "ext_all m R \<Longrightarrow> (\<And>x. R x \<Longrightarrow> ext_all (f x) Q) \<Longrightarrow> ext_all (ext_bind m f) Q"
  by (auto simp: ext_all_def ext_bind_def split: prod.splits) (metis fst_conv)

lemma ext_all_true: "ext_all m (\<lambda>_. True)"
  by (simp add: ext_all_def)

lemma ext_all_bind_any [intro]: "(\<And>x. ext_all (f x) Q) \<Longrightarrow> ext_all (ext_bind m f) Q"
  by (rule ext_all_bind [OF ext_all_true])

section \<open>Coroutines\<close>

type_synonym ('s, 'a) eff = "'s \<Rightarrow> (exn + 'a) \<times> 's"

definition ret :: "'a \<Rightarrow> ('s, 'a) eff" where
  "ret x = (\<lambda>s. (Inr x, s))"

definition throw :: "exn \<Rightarrow> ('s, 'a) eff" where
  "throw e = (\<lambda>s. (Inl e, s))"

definition bind :: "('s, 'a) eff \<Rightarrow> ('a \<Rightarrow> ('s, 'b) eff) \<Rightarrow> ('s, 'b) eff" where
  "bind m f = (\<lambda>s. case m s of (Inl e, s') \<Rightarrow> (Inl e, s') | (Inr x, s') \<Rightarrow> f x s')"

abbreviation seq :: "('s, 'a) eff \<Rightarrow> ('s, 'b) eff \<Rightarrow> ('s, 'b) eff" where
  "seq m n \<equiv> bind m (\<lambda>_. n)"

definition gets :: "('s \<Rightarrow> 'a) \<Rightarrow> ('s, 'a) eff" where
  "gets f = (\<lambda>s. (Inr (f s), s))"

definition modify :: "('s \<Rightarrow> 's) \<Rightarrow> ('s, unit) eff" where
  "modify f = (\<lambda>s. (Inr (), f s))"

text \<open>\<open>try: m; except Exception as e: h e\<close>.  \<open>CancelledError\<close>, the cancellation of the task at
  an await, is no \<open>Exception\<close> and passes through.\<close>

definition handle :: "('s, 'a) eff \<Rightarrow> (exn \<Rightarrow> ('s, 'a) eff) \<Rightarrow> ('s, 'a) eff" where
  "handle m h = (\<lambda>s. case m s of
       (Inl e, s') \<Rightarrow> if e = CancelledError then (Inl e, s') else h e s'
     | (Inr x, s') \<Rightarrow> (Inr x, s'))"

text \<open>\<open>try: m; finally: c\<close>, for a clean-up that only assigns.\<close>

definition finally_do :: "('s, 'a) eff \<Rightarrow> ('s \<Rightarrow> 's) \<Rightarrow> ('s, 'a) eff" where
  "finally_do m c = (\<lambda>s. case m s of (r, s') \<Rightarrow> (r, c s'))"

text \<open>\<open>for x in xs: f x\<close>.\<close>

fun for_each :: "'x list \<Rightarrow> ('x \<Rightarrow> ('s, unit) eff) \<Rightarrow> ('s, unit) eff" where
  "for_each [] f = ret ()"
| "for_each (x # xs) f = seq (f x) (for_each xs f)"

section \<open>Triples\<close>

definition valid :: "('s \<Rightarrow> bool) \<Rightarrow> ('s, 'a) eff \<Rightarrow> ('a \<Rightarrow> 's \<Rightarrow> bool) \<Rightarrow> (exn \<Rightarrow> 's \<Rightarrow> bool) \<Rightarrow> bool" where
  "valid P m Q E = (\<forall>s. P s \<longrightarrow> (case m s of (Inl e, s') \<Rightarrow> E e s' | (Inr x, s') \<Rightarrow> Q x s'))"

text \<open>An invariant, kept on every exit.\<close>

abbreviation keeps :: "('s, 'a) eff \<Rightarrow> ('s \<Rightarrow> bool) \<Rightarrow> bool" where
  "keeps m I \<equiv> valid I m (\<lambda>_. I) (\<lambda>_. I)"

lemma valid_ret [hoare]: "(\<And>s. P s \<Longrightarrow> Q x s) \<Longrightarrow> valid P (ret x) Q E"
  by (simp add: valid_def ret_def)

lemma valid_throw [hoare]: "(\<And>s. P s \<Longrightarrow> E e s) \<Longrightarrow> valid P (throw e) Q E"
  by (simp add: valid_def throw_def)

lemma valid_bind: "valid P m R E \<Longrightarrow> (\<And>x. valid (R x) (f x) Q E) \<Longrightarrow> valid P (bind m f) Q E"
  unfolding valid_def bind_def by (fastforce split: prod.splits sum.splits)

lemma valid_gets [hoare]: "(\<And>s. P s \<Longrightarrow> Q (f s) s) \<Longrightarrow> valid P (gets f) Q E"
  by (simp add: valid_def gets_def)

lemma valid_bind_gets: "(\<And>x. valid P (g x) Q E) \<Longrightarrow> valid P (bind (gets f) g) Q E"
  by (simp add: valid_def bind_def gets_def)

lemma valid_modify [hoare]: "(\<And>s. P s \<Longrightarrow> Q () (f s)) \<Longrightarrow> valid P (modify f) Q E"
  by (simp add: valid_def modify_def)

lemma valid_handle:
  "valid P m Q R \<Longrightarrow> (\<And>e. e \<noteq> CancelledError \<Longrightarrow> valid (R e) (h e) Q E) \<Longrightarrow>
   (\<And>s. R CancelledError s \<Longrightarrow> E CancelledError s) \<Longrightarrow> valid P (handle m h) Q E"
  unfolding valid_def handle_def
proof (intro allI impI)
  fix s
  assume m: "\<forall>s. P s \<longrightarrow> (case m s of (Inl e, s') \<Rightarrow> R e s' | (Inr x, s') \<Rightarrow> Q x s')"
    and h: "\<And>e. e \<noteq> CancelledError \<Longrightarrow> \<forall>s. R e s \<longrightarrow> (case h e s of (Inl e, s') \<Rightarrow> E e s' | (Inr x, s') \<Rightarrow> Q x s')"
    and c: "\<And>s. R CancelledError s \<Longrightarrow> E CancelledError s" and "P s"
  obtain r s1 where r: "m s = (r, s1)" by (cases "m s")
  with m \<open>P s\<close> have "case r of Inl e \<Rightarrow> R e s1 | Inr x \<Rightarrow> Q x s1" by (auto split: prod.splits sum.splits)
  with r h [of _] c show "case case m s of
         (Inl e, s') \<Rightarrow> if e = CancelledError then (Inl e, s') else h e s'
       | (Inr x, s') \<Rightarrow> (Inr x, s') of (Inl e, s') \<Rightarrow> E e s' | (Inr x, s') \<Rightarrow> Q x s'"
    by (cases r) auto
qed

lemma valid_finally:
  "valid P m (\<lambda>x s. Q x (c s)) (\<lambda>e s. E e (c s)) \<Longrightarrow> valid P (finally_do m c) Q E"
  unfolding valid_def finally_do_def by (fastforce split: prod.splits sum.splits)

lemma valid_if [hoare]:
  "(b \<Longrightarrow> valid P m Q E) \<Longrightarrow> (\<not> b \<Longrightarrow> valid P n Q E) \<Longrightarrow> valid P (if b then m else n) Q E"
  by simp

lemma valid_option [hoare]:
  "(x = None \<Longrightarrow> valid P m Q E) \<Longrightarrow> (\<And>y. x = Some y \<Longrightarrow> valid P (f y) Q E) \<Longrightarrow>
   valid P (case x of None \<Rightarrow> m | Some y \<Rightarrow> f y) Q E"
  by (cases x) simp_all

lemma valid_conseq:
  "valid P' m Q' E' \<Longrightarrow> (\<And>s. P s \<Longrightarrow> P' s) \<Longrightarrow> (\<And>x s. Q' x s \<Longrightarrow> Q x s) \<Longrightarrow> (\<And>e s. E' e s \<Longrightarrow> E e s) \<Longrightarrow>
   valid P m Q E"
  unfolding valid_def by (fastforce split: prod.splits sum.splits)

lemma valid_pre: "valid P' m Q E \<Longrightarrow> (\<And>s. P s \<Longrightarrow> P' s) \<Longrightarrow> valid P m Q E"
  by (rule valid_conseq)

lemma valid_false [simp]: "valid (\<lambda>_. False) m Q E"
  by (simp add: valid_def)

lemma valid_conj:
  "valid P m Q E \<Longrightarrow> valid P' m Q' E' \<Longrightarrow>
   valid (\<lambda>s. P s \<and> P' s) m (\<lambda>x s. Q x s \<and> Q' x s) (\<lambda>e s. E e s \<and> E' e s)"
  unfolding valid_def by (fastforce split: prod.splits sum.splits)

lemma keeps_bind: "keeps m I \<Longrightarrow> (\<And>x. keeps (f x) I) \<Longrightarrow> keeps (bind m f) I"
  by (rule valid_bind)

lemma keeps_handle: "keeps m I \<Longrightarrow> (\<And>e. keeps (h e) I) \<Longrightarrow> keeps (handle m h) I"
  by (rule valid_handle)

lemma valid_for_each:
  "(\<And>x. x \<in> set xs \<Longrightarrow> keeps (f x) I) \<Longrightarrow> keeps (for_each xs f) I"
  by (induction xs) (auto intro: valid_bind valid_ret)

text \<open>A loop whose postcondition records the elements already done.\<close>

lemma valid_for_each_done:
  assumes "\<And>done x rest. xs = done @ x # rest \<Longrightarrow> valid (I done) (f x) (\<lambda>_. I (done @ [x])) E"
  shows "valid (I []) (for_each xs f) (\<lambda>_. I xs) E"
proof -
  have "valid (I ds) (for_each ys f) (\<lambda>_. I xs) E" if "xs = ds @ ys" for ds ys
    using that
  proof (induction ys arbitrary: ds)
    case Nil
    then show ?case by (auto intro: valid_ret)
  next
    case (Cons y ys)
    then show ?case using assms [of ds y ys] by (auto intro!: valid_bind)
  qed
  from this [of "[]" xs] show ?thesis by simp
qed

lemma keeps_iff: "keeps m I \<longleftrightarrow> (\<forall>s. I s \<longrightarrow> I (snd (m s)))"
  unfolding valid_def by (simp add: case_prod_unfold split: sum.splits)

lemma validD: "valid P m Q E \<Longrightarrow> P s \<Longrightarrow> m s = (Inr x, s') \<Longrightarrow> Q x s'"
  by (fastforce simp: valid_def)

lemma validE: "valid P m Q E \<Longrightarrow> P s \<Longrightarrow> m s = (Inl e, s') \<Longrightarrow> E e s'"
  by (fastforce simp: valid_def)

end
