(* ===== verification/Backends.thy ===== *)
theory Backends
  imports Effects Config
begin

text \<open>
  \<open>gateway/backends/\<close>: the runtime interface of the orchestrator and its two
  implementations.

  \<open>backend\<close> is the protocol of \<open>base.py\<close>, a record of operations on an abstract world
  \<open>'w\<close>.  The SDKs the implementations wrap are parameters, again records of operations: the
  Docker SDK, whose documented errors are \<open>NotFound\<close> and \<open>APIError\<close>, and the Kubernetes
  client, which may raise anything.  The contract the orchestrator relies on is the locale
  \<open>runtime\<close>; both implementations are shown to meet it.
\<close>

section \<open>The protocol\<close>

record workload =
  wl_name :: string
  wl_status :: string

record exec_result =
  ex_exit_code :: int
  ex_output :: string

text \<open>The arguments the orchestrator passes to \<open>create_and_start\<close>; it always names
  \<open>entrypoint\<close>, with the value \<open>None\<close> if the model has none.\<close>

record create_args =
  ca_name :: string
  ca_image :: string
  ca_command :: "string list option"
  ca_environment :: "(string, string) dict"
  ca_volumes :: "(string, volume_mount) dict"
  ca_port :: nat
  ca_shm_size :: string
  ca_entrypoint :: "string list option"

record 'w backend =
  supports_pause :: bool
  be_get_workload :: "string \<Rightarrow> ('w, exn + workload option) ext"
  be_create_and_start :: "create_args \<Rightarrow> ('w, exn + unit) ext"
  be_stop_workload :: "string \<Rightarrow> nat \<Rightarrow> ('w, exn + unit) ext"
  be_remove_workload :: "string \<Rightarrow> ('w, exn + unit) ext"
  be_pause_workload :: "string \<Rightarrow> ('w, exn + unit) ext"
  be_unpause_workload :: "string \<Rightarrow> ('w, exn + unit) ext"
  be_exec_in_workload :: "string \<Rightarrow> string list \<Rightarrow> ('w, exn + exec_result) ext"
  be_list_workloads :: "string option \<Rightarrow> ('w, exn + workload list) ext"
  be_ensure_network :: "string \<Rightarrow> ('w, exn + unit) ext"
  be_resolve_hostname :: "string \<Rightarrow> string \<Rightarrow> string"

text \<open>A call that returns normally whatever the world does.\<close>

abbreviation no_raise :: "('w, exn + 'a) ext \<Rightarrow> bool" where
  "no_raise m \<equiv> ext_all m (\<lambda>r. \<exists>x. r = Inr x)"

lemma no_raise_ret: "no_raise (ext_ret (Inr x))"
  by auto

lemma ext_all_try:
  "(\<And>x. ext_all (ok x) Q) \<Longrightarrow> (\<And>e. ext_all (err e) Q) \<Longrightarrow>
   ext_all (ext_bind m (\<lambda>r. case r of Inr x \<Rightarrow> ok x | Inl e \<Rightarrow> err e)) Q"
  by (rule ext_all_bind_any) (simp split: sum.split)

lemma ext_all_if: "ext_all m Q \<Longrightarrow> ext_all n Q \<Longrightarrow> ext_all (if b then m else n) Q"
  by simp

lemma ext_all_case_prod: "(\<And>x y. ext_all (f x y) Q) \<Longrightarrow> ext_all (case p of (x, y) \<Rightarrow> f x y) Q"
  by (cases p) simp

lemma ext_all_case_option:
  "ext_all m Q \<Longrightarrow> (\<And>x. ext_all (f x) Q) \<Longrightarrow> ext_all (case p of None \<Rightarrow> m | Some x \<Rightarrow> f x) Q"
  by (cases p) simp_all

lemmas no_raise_rules = no_raise_ret ext_all_try ext_all_if ext_all_case_prod ext_all_case_option

text \<open>A call with keyword arguments: a name that is no parameter is a \<open>TypeError\<close>.\<close>

definition keyword_call :: "string list \<Rightarrow> string list \<Rightarrow> ('w, exn + 'a) ext \<Rightarrow> ('w, exn + 'a) ext" where
  "keyword_call params kws body = (if list_all (\<lambda>k. k \<in> set params) kws then body else ext_ret (Inl TypeError))"

definition CREATE_KEYWORDS :: "string list" where
  "CREATE_KEYWORDS = [''name'', ''image'', ''command'', ''environment'', ''volumes'', ''port'', ''shm_size'', ''entrypoint'']"

text \<open>The contract: everything but \<open>create_and_start\<close> absorbs the errors of the runtime.\<close>

locale runtime =
  fixes be :: "'w backend"
  assumes get_total: "no_raise (be_get_workload be name)"
    and stop_total: "no_raise (be_stop_workload be name t)"
    and remove_total: "no_raise (be_remove_workload be name)"
    and pause_total: "no_raise (be_pause_workload be name)"
    and unpause_total: "no_raise (be_unpause_workload be name)"
    and exec_total: "no_raise (be_exec_in_workload be name cmd)"
    and list_total: "no_raise (be_list_workloads be flt)"
    and network_total: "no_raise (be_ensure_network be name)"

section \<open>Docker\<close>

datatype docker_error = NotFound | APIError string

record container =
  ct_name :: string
  ct_status :: string
  ct_networks :: "string list"

record docker_healthcheck =
  hc_test :: "string list"
  hc_interval :: int
  hc_timeout :: int
  hc_start_period :: int
  hc_retries :: nat

record run_kwargs =
  rk_image :: string
  rk_name :: string
  rk_command :: "string list option"
  rk_environment :: "(string, string) dict"
  rk_volumes :: "(string, volume_mount) dict"
  rk_ports :: "(string, nat) dict"
  rk_network :: string
  rk_dns :: "string list"
  rk_gpu_count :: int
  rk_restart_policy :: string
  rk_shm_size :: string
  rk_healthcheck :: docker_healthcheck
  rk_entrypoint :: "string list option"

record 'w docker_sdk =
  dk_get :: "string \<Rightarrow> ('w, docker_error + container) ext"
  dk_run :: "run_kwargs \<Rightarrow> ('w, docker_error + unit) ext"
  dk_stop :: "container \<Rightarrow> nat \<Rightarrow> ('w, docker_error + unit) ext"
  dk_remove :: "container \<Rightarrow> bool \<Rightarrow> ('w, docker_error + unit) ext"
  dk_pause :: "container \<Rightarrow> ('w, docker_error + unit) ext"
  dk_unpause :: "container \<Rightarrow> ('w, docker_error + unit) ext"
  dk_exec_run :: "container \<Rightarrow> string list \<Rightarrow> ('w, docker_error + int option \<times> string option) ext"
  dk_list_running :: "('w, docker_error + container list) ext"
  dk_network_get :: "string \<Rightarrow> ('w, docker_error + unit) ext"
  dk_connect :: "string \<Rightarrow> container \<Rightarrow> ('w, docker_error + unit) ext"

text \<open>\<open>try\<close> around a call of the SDK.\<close>

abbreviation try_sdk :: "('w, 'e + 'a) ext \<Rightarrow> ('a \<Rightarrow> ('w, 'b) ext) \<Rightarrow> ('e \<Rightarrow> ('w, 'b) ext) \<Rightarrow> ('w, 'b) ext" where
  "try_sdk m ok err \<equiv> ext_bind m (\<lambda>r. case r of Inr x \<Rightarrow> ok x | Inl e \<Rightarrow> err e)"

definition as_workload :: "container \<Rightarrow> workload" where
  "as_workload c = \<lparr>wl_name = ct_name c, wl_status = ct_status c\<rparr>"

definition docker_get_workload :: "'w docker_sdk \<Rightarrow> string \<Rightarrow> ('w, exn + workload option) ext" where
  "docker_get_workload sdk name =
     try_sdk (dk_get sdk name) (\<lambda>c. ext_ret (Inr (Some (as_workload c)))) (\<lambda>e. ext_ret (Inr None))"

definition docker_run_kwargs :: "settings \<Rightarrow> create_args \<Rightarrow> run_kwargs" where
  "docker_run_kwargs cfg a =
     \<lparr>rk_image = ca_image a, rk_name = ca_name a, rk_command = ca_command a,
      rk_environment = ca_environment a, rk_volumes = ca_volumes a,
      rk_ports = [(show_nat (ca_port a) @ ''/tcp'', ca_port a)],
      rk_network = DOCKER_NETWORK cfg, rk_dns = [''8.8.8.8'', ''8.8.4.4''], rk_gpu_count = -1,
      rk_restart_policy = ''unless-stopped'', rk_shm_size = ca_shm_size a,
      rk_healthcheck =
        \<lparr>hc_test = [''CMD-SHELL'',
            ''curl -f http://localhost:'' @ show_nat (ca_port a) @ ''/health || exit 1''],
         hc_interval = 30000000000, hc_timeout = 10000000000, hc_start_period = 300000000000, hc_retries = 3\<rparr>,
      rk_entrypoint = ca_entrypoint a\<rparr>"

definition DOCKER_CREATE_PARAMS :: "string list" where
  "DOCKER_CREATE_PARAMS =
     [''name'', ''image'', ''command'', ''environment'', ''volumes'', ''port'', ''shm_size'', ''entrypoint'']"

definition docker_create_and_start :: "settings \<Rightarrow> 'w docker_sdk \<Rightarrow> create_args \<Rightarrow> ('w, exn + unit) ext" where
  "docker_create_and_start cfg sdk a =
     try_sdk (dk_run sdk (docker_run_kwargs cfg a)) (\<lambda>_. ext_ret (Inr ()))
       (\<lambda>e. ext_ret (Inl (case e of NotFound \<Rightarrow> OtherError ''NotFound'' | APIError msg \<Rightarrow> OtherError msg)))"

definition docker_stop_workload :: "'w docker_sdk \<Rightarrow> string \<Rightarrow> nat \<Rightarrow> ('w, exn + unit) ext" where
  "docker_stop_workload sdk name t =
     try_sdk (dk_get sdk name)
       (\<lambda>c. try_sdk (dk_stop sdk c t) (\<lambda>_. ext_ret (Inr ())) (\<lambda>_. ext_ret (Inr ()))) (\<lambda>_. ext_ret (Inr ()))"

definition docker_remove_workload :: "'w docker_sdk \<Rightarrow> string \<Rightarrow> ('w, exn + unit) ext" where
  "docker_remove_workload sdk name =
     try_sdk (dk_get sdk name)
       (\<lambda>c. try_sdk (dk_remove sdk c True) (\<lambda>_. ext_ret (Inr ())) (\<lambda>_. ext_ret (Inr ()))) (\<lambda>_. ext_ret (Inr ()))"

definition docker_pause_workload :: "'w docker_sdk \<Rightarrow> string \<Rightarrow> ('w, exn + unit) ext" where
  "docker_pause_workload sdk name =
     try_sdk (dk_get sdk name)
       (\<lambda>c. if ct_status c = ''running''
            then try_sdk (dk_pause sdk c) (\<lambda>_. ext_ret (Inr ())) (\<lambda>_. ext_ret (Inr ()))
            else ext_ret (Inr ())) (\<lambda>_. ext_ret (Inr ()))"

definition docker_unpause_workload :: "'w docker_sdk \<Rightarrow> string \<Rightarrow> ('w, exn + unit) ext" where
  "docker_unpause_workload sdk name =
     try_sdk (dk_get sdk name)
       (\<lambda>c. try_sdk (dk_unpause sdk c) (\<lambda>_. ext_ret (Inr ())) (\<lambda>_. ext_ret (Inr ()))) (\<lambda>_. ext_ret (Inr ()))"

definition docker_exec_in_workload :: "'w docker_sdk \<Rightarrow> string \<Rightarrow> string list \<Rightarrow> ('w, exn + exec_result) ext" where
  "docker_exec_in_workload sdk name cmd =
     (let failed = (\<lambda>e. ext_ret (Inr \<lparr>ex_exit_code = 1, ex_output = (case e of
            NotFound \<Rightarrow> ''Container '' @ [CHR 0x27] @ name @ [CHR 0x27] @ '' not found''
          | APIError msg \<Rightarrow> msg)\<rparr>))
      in try_sdk (dk_get sdk name)
           (\<lambda>c. try_sdk (dk_exec_run sdk c cmd)
              (\<lambda>(rc, out). ext_ret (Inr \<lparr>ex_exit_code = (case rc of Some n \<Rightarrow> n | None \<Rightarrow> 0),
                 ex_output = (case out of Some t \<Rightarrow> t | None \<Rightarrow> [])\<rparr>)) failed) failed)"

definition docker_list_workloads :: "'w docker_sdk \<Rightarrow> string option \<Rightarrow> ('w, exn + workload list) ext" where
  "docker_list_workloads sdk flt =
     try_sdk (dk_list_running sdk)
       (\<lambda>cs. ext_ret (Inr (map as_workload (filter
          (\<lambda>c. case flt of None \<Rightarrow> True | Some l \<Rightarrow> l = [] \<or> str_in l (ct_name c)) cs))))
       (\<lambda>_. ext_ret (Inr []))"

definition docker_ensure_network :: "settings \<Rightarrow> 'w docker_sdk \<Rightarrow> string \<Rightarrow> ('w, exn + unit) ext" where
  "docker_ensure_network cfg sdk name =
     try_sdk (dk_get sdk name)
       (\<lambda>c. if DOCKER_NETWORK cfg \<in> set (ct_networks c) then ext_ret (Inr ())
            else try_sdk (dk_network_get sdk (DOCKER_NETWORK cfg))
              (\<lambda>_. try_sdk (dk_connect sdk (DOCKER_NETWORK cfg) c) (\<lambda>_. ext_ret (Inr ())) (\<lambda>_. ext_ret (Inr ())))
              (\<lambda>_. ext_ret (Inr ())))
       (\<lambda>_. ext_ret (Inr ()))"

definition docker_resolve_hostname :: "settings \<Rightarrow> string \<Rightarrow> string \<Rightarrow> string" where
  "docker_resolve_hostname cfg name engine = (if engine \<in> set EXEC_ENGINES then RAY_HEAD_HOST cfg else name)"

definition docker_backend :: "settings \<Rightarrow> 'w docker_sdk \<Rightarrow> 'w backend" where
  "docker_backend cfg sdk =
     \<lparr>supports_pause = True,
      be_get_workload = docker_get_workload sdk,
      be_create_and_start = (\<lambda>a. keyword_call DOCKER_CREATE_PARAMS CREATE_KEYWORDS (docker_create_and_start cfg sdk a)),
      be_stop_workload = docker_stop_workload sdk,
      be_remove_workload = docker_remove_workload sdk,
      be_pause_workload = docker_pause_workload sdk,
      be_unpause_workload = docker_unpause_workload sdk,
      be_exec_in_workload = docker_exec_in_workload sdk,
      be_list_workloads = docker_list_workloads sdk,
      be_ensure_network = docker_ensure_network cfg sdk,
      be_resolve_hostname = docker_resolve_hostname cfg\<rparr>"

lemmas docker_defs = docker_backend_def docker_get_workload_def docker_stop_workload_def docker_remove_workload_def
  docker_pause_workload_def docker_unpause_workload_def docker_exec_in_workload_def docker_list_workloads_def
  docker_ensure_network_def

interpretation docker: runtime "docker_backend cfg sdk" for cfg and sdk :: "'w docker_sdk"
  by unfold_locales (simp_all only: docker_defs backend.simps Let_def, (rule no_raise_rules)+)

section \<open>Kubernetes\<close>

record pod_state =
  ps_phase :: "string option"
  ps_conditions :: "(string \<times> string) list option"

record pod =
  pd_name :: string
  pd_status :: "pod_state option"

datatype pod_volume = MemoryVolume string string | HostPath string string

record pod_mount =
  pm_name :: string
  pm_path :: string
  pm_read_only :: bool

record http_probe =
  hp_initial_delay :: nat
  hp_period :: nat
  hp_failures :: nat
  hp_timeout :: nat

record deployment =
  dep_name :: string
  dep_image :: string
  dep_command :: "string list option"
  dep_args :: "string list option"
  dep_env :: "(string, string) dict"
  dep_port :: nat
  dep_volumes :: "pod_volume list"
  dep_mounts :: "pod_mount list"
  dep_gpus :: nat
  dep_startup :: http_probe
  dep_readiness :: http_probe
  dep_liveness :: http_probe
  dep_replicas :: nat

text \<open>The Kubernetes client: pods by label and field selector, the scale subresource, creation of
  a deployment and of a service (name and port), and exec.\<close>

record 'w k8s_sdk =
  k8_list_pods :: "string \<Rightarrow> string \<Rightarrow> ('w, exn + pod list) ext"
  k8_scale :: "string \<Rightarrow> nat \<Rightarrow> ('w, exn + unit) ext"
  k8_create_deployment :: "deployment \<Rightarrow> ('w, exn + unit) ext"
  k8_create_service :: "string \<Rightarrow> nat \<Rightarrow> ('w, exn + unit) ext"
  k8_exec :: "string \<Rightarrow> string list \<Rightarrow> ('w, exn + string option) ext"

text \<open>\<open>_pod_status\<close>; a running pod is \<open>running\<close> whether or not it is ready.\<close>

definition pod_status :: "pod \<Rightarrow> string" where
  "pod_status p = (case pd_status p of None \<Rightarrow> ''unknown''
     | Some st \<Rightarrow>
         (let phase = (case ps_phase st of None \<Rightarrow> ''Unknown'' | Some ph \<Rightarrow> if ph = [] then ''Unknown'' else ph)
          in if phase = ''Running'' then
               (case ps_conditions st of None \<Rightarrow> ''running''
                | Some cs \<Rightarrow> if (''Ready'', ''True'') \<in> set cs then ''running'' else ''running'')
             else if phase = ''Pending'' then ''created''
             else if phase = ''Succeeded'' then ''exited''
             else if phase = ''Failed'' then ''dead''
             else py_lower phase))"

definition pod_workload :: "pod \<Rightarrow> workload" where
  "pod_workload p = \<lparr>wl_name = pd_name p, wl_status = pod_status p\<rparr>"

definition k8s_get_workload :: "'w k8s_sdk \<Rightarrow> string \<Rightarrow> ('w, exn + workload option) ext" where
  "k8s_get_workload sdk name =
     try_sdk (k8_list_pods sdk (''app='' @ name) [])
       (\<lambda>pods. ext_ret (Inr (case pods of [] \<Rightarrow> None | p # _ \<Rightarrow> Some (pod_workload p))))
       (\<lambda>_. ext_ret (Inr None))"

text \<open>\<open>shm_size.replace("g", "Gi")\<close>.\<close>

definition gi_size :: "string \<Rightarrow> string" where
  "gi_size s = concat (map (\<lambda>c. if c = CHR ''g'' then ''Gi'' else [c]) s)"

definition k8s_deployment :: "create_args \<Rightarrow> deployment" where
  "k8s_deployment a =
     (let vols = zip [0..<length (ca_volumes a)] (ca_volumes a) in
      \<lparr>dep_name = ca_name a, dep_image = ca_image a,
       dep_command = (case ca_command a of Some (c # _) \<Rightarrow> Some [c] | _ \<Rightarrow> None),
       dep_args = (case ca_command a of Some (_ # x # xs) \<Rightarrow> Some (x # xs) | _ \<Rightarrow> None),
       dep_env = ca_environment a, dep_port = ca_port a,
       dep_volumes = MemoryVolume ''dshm'' (gi_size (ca_shm_size a)) #
         map (\<lambda>(i, host_path, _). HostPath (''vol-'' @ show_nat i) host_path) vols,
       dep_mounts = \<lparr>pm_name = ''dshm'', pm_path = ''/dev/shm'', pm_read_only = False\<rparr> #
         map (\<lambda>(i, _, v). \<lparr>pm_name = ''vol-'' @ show_nat i, pm_path = vol_bind v,
                pm_read_only = (vol_mode v = ''ro'')\<rparr>) vols,
       dep_gpus = 1,
       dep_startup = \<lparr>hp_initial_delay = 30, hp_period = 10, hp_failures = 30, hp_timeout = 5\<rparr>,
       dep_readiness = \<lparr>hp_initial_delay = 0, hp_period = 30, hp_failures = 3, hp_timeout = 10\<rparr>,
       dep_liveness = \<lparr>hp_initial_delay = 300, hp_period = 30, hp_failures = 3, hp_timeout = 10\<rparr>,
       dep_replicas = 1\<rparr>)"

definition k8s_create_deployment :: "'w k8s_sdk \<Rightarrow> create_args \<Rightarrow> ('w, exn + unit) ext" where
  "k8s_create_deployment sdk a =
     try_sdk (k8_create_deployment sdk (k8s_deployment a))
       (\<lambda>_. try_sdk (k8_create_service sdk (ca_name a) (ca_port a)) (\<lambda>_. ext_ret (Inr ())) (\<lambda>_. ext_ret (Inr ())))
       (\<lambda>e. ext_ret (Inl e))"

definition K8S_CREATE_PARAMS :: "string list" where
  "K8S_CREATE_PARAMS = [''name'', ''image'', ''command'', ''environment'', ''volumes'', ''port'', ''shm_size'']"

definition k8s_create_and_start :: "'w k8s_sdk \<Rightarrow> create_args \<Rightarrow> ('w, exn + unit) ext" where
  "k8s_create_and_start sdk a =
     try_sdk (k8_scale sdk (ca_name a) 1) (\<lambda>_. ext_ret (Inr ())) (\<lambda>_. k8s_create_deployment sdk a)"

definition k8s_stop_workload :: "'w k8s_sdk \<Rightarrow> string \<Rightarrow> nat \<Rightarrow> ('w, exn + unit) ext" where
  "k8s_stop_workload sdk name t = try_sdk (k8_scale sdk name 0) (\<lambda>_. ext_ret (Inr ())) (\<lambda>_. ext_ret (Inr ()))"

definition k8s_remove_workload :: "'w k8s_sdk \<Rightarrow> string \<Rightarrow> ('w, exn + unit) ext" where
  "k8s_remove_workload sdk name = k8s_stop_workload sdk name 10"

definition k8s_pause_workload :: "'w k8s_sdk \<Rightarrow> string \<Rightarrow> ('w, exn + unit) ext" where
  "k8s_pause_workload sdk name = k8s_stop_workload sdk name 10"

definition k8s_unpause_workload :: "'w k8s_sdk \<Rightarrow> string \<Rightarrow> ('w, exn + unit) ext" where
  "k8s_unpause_workload sdk name = try_sdk (k8_scale sdk name 1) (\<lambda>_. ext_ret (Inr ())) (\<lambda>_. ext_ret (Inr ()))"

definition resolve_pod_name :: "'w k8s_sdk \<Rightarrow> string \<Rightarrow> ('w, string option) ext" where
  "resolve_pod_name sdk name =
     try_sdk (k8_list_pods sdk (''app='' @ name) ''status.phase=Running'')
       (\<lambda>pods. ext_ret (case pods of [] \<Rightarrow> None | p # _ \<Rightarrow> Some (pd_name p))) (\<lambda>_. ext_ret None)"

text \<open>\<open>str(exc)\<close> of an exception of the client is left open: the argument \<open>show_exn\<close>.\<close>

definition k8s_exec_in_workload ::
    "(exn \<Rightarrow> string) \<Rightarrow> 'w k8s_sdk \<Rightarrow> string \<Rightarrow> string list \<Rightarrow> ('w, exn + exec_result) ext" where
  "k8s_exec_in_workload show_exn sdk name cmd =
     ext_bind (resolve_pod_name sdk name) (\<lambda>p. case p of
       None \<Rightarrow> ext_ret (Inr \<lparr>ex_exit_code = 1,
                ex_output = ''No running pod found for '' @ [CHR 0x27] @ name @ [CHR 0x27]\<rparr>)
     | Some pod_name \<Rightarrow>
         if pod_name = [] then ext_ret (Inr \<lparr>ex_exit_code = 1,
                ex_output = ''No running pod found for '' @ [CHR 0x27] @ name @ [CHR 0x27]\<rparr>)
         else try_sdk (k8_exec sdk pod_name cmd)
           (\<lambda>out. ext_ret (Inr \<lparr>ex_exit_code = 0, ex_output = (case out of Some t \<Rightarrow> t | None \<Rightarrow> [])\<rparr>))
           (\<lambda>e. ext_ret (Inr \<lparr>ex_exit_code = 1, ex_output = show_exn e\<rparr>)))"

definition k8s_list_workloads :: "'w k8s_sdk \<Rightarrow> string option \<Rightarrow> ('w, exn + workload list) ext" where
  "k8s_list_workloads sdk flt =
     try_sdk (k8_list_pods sdk (case flt of None \<Rightarrow> [] | Some l \<Rightarrow> if l = [] then [] else ''app='' @ l) ''status.phase=Running'')
       (\<lambda>pods. ext_ret (Inr (map pod_workload pods))) (\<lambda>_. ext_ret (Inr []))"

definition k8s_resolve_hostname :: "settings \<Rightarrow> string \<Rightarrow> string \<Rightarrow> string" where
  "k8s_resolve_hostname cfg name engine = (if engine = ''ray_vllm'' then RAY_HEAD_HOST cfg else name)"

definition kubernetes_backend :: "settings \<Rightarrow> (exn \<Rightarrow> string) \<Rightarrow> 'w k8s_sdk \<Rightarrow> 'w backend" where
  "kubernetes_backend cfg show_exn sdk =
     \<lparr>supports_pause = False,
      be_get_workload = k8s_get_workload sdk,
      be_create_and_start = (\<lambda>a. keyword_call K8S_CREATE_PARAMS CREATE_KEYWORDS (k8s_create_and_start sdk a)),
      be_stop_workload = k8s_stop_workload sdk,
      be_remove_workload = k8s_remove_workload sdk,
      be_pause_workload = k8s_pause_workload sdk,
      be_unpause_workload = k8s_unpause_workload sdk,
      be_exec_in_workload = k8s_exec_in_workload show_exn sdk,
      be_list_workloads = k8s_list_workloads sdk,
      be_ensure_network = (\<lambda>name. ext_ret (Inr ())),
      be_resolve_hostname = k8s_resolve_hostname cfg\<rparr>"

lemmas k8s_defs = kubernetes_backend_def k8s_get_workload_def k8s_stop_workload_def k8s_remove_workload_def
  k8s_pause_workload_def k8s_unpause_workload_def k8s_exec_in_workload_def k8s_list_workloads_def

interpretation kubernetes: runtime "kubernetes_backend cfg show_exn sdk"
  for cfg show_exn and sdk :: "'w k8s_sdk"
  by unfold_locales (simp_all only: k8s_defs backend.simps Let_def, (rule no_raise_rules ext_all_bind_any)+)

section \<open>The factory\<close>

definition create_backend :: "string \<Rightarrow> 'w backend \<Rightarrow> 'w backend \<Rightarrow> exn + 'w backend" where
  "create_backend orchestration docker kubernetes =
     (let kind = py_lower orchestration in
      if kind = ''docker'' then Inr docker
      else if kind = ''kubernetes'' then Inr kubernetes
      else Inl ValueError)"

end
