(* ===== verification/Orchestrator.thy ===== *)
theory Orchestrator
  imports Backends Commands VramMonitor
begin

text \<open>
  \<open>gateway/orchestrator.py\<close>: the lifecycle of the inference workloads and the profile swap.

  \<open>orch\<close> is the \<open>ContainerOrchestrator\<close> object together with the world it acts on, a
  clock in milliseconds that every external call advances by the time it took, and
  \<open>os_calls\<close>, the trace of the external calls, which only the properties read.  \<open>env\<close>
  collects what the object is configured with: the backend, the settings, the catalog, and the
  remaining outside world (SSH, HTTP, NVML, sleeping, the state file).  Each method is one
  \<open>eff\<close>.  Methods run without interleaving here: the swap lock serialises swaps, and what
  the watchdog and the administration endpoints may do in between is the subject of the
  application's model.
\<close>

section \<open>State and environment\<close>

datatype call =
    CallGet string
  | CallCreate string
  | CallStop string
  | CallRemove string
  | CallPause string
  | CallUnpause string
  | CallExec string "string list"
  | CallList
  | CallNetwork string
  | CallSsh string string
  | CallHealth string
  | CallVram
  | CallSleep nat
  | CallPersist string

record 'w orch =
  os_states :: "(string, container_state) dict"
  os_active :: "string option"
  os_swapping :: bool
  os_swap_start :: nat
  os_ray :: "ray_status option"
  os_ray_profile :: "string option"
  os_ray_at :: nat
  os_world :: 'w
  os_now :: nat
  os_calls :: "call list"

record 'w env =
  e_backend :: "'w backend"
  e_cfg :: settings
  e_catalog :: catalog
  e_ssh :: "string list \<Rightarrow> ('w, exn + int \<times> string \<times> string) ext"
  e_http_status :: "string \<Rightarrow> ('w, exn + nat) ext"
  e_query_gpus :: "('w, exn + vram_report) ext"
  e_sleep :: "nat \<Rightarrow> ('w, exn + unit) ext"
  e_write_state :: "string \<Rightarrow> ('w, string + unit) ext"

definition orch_init :: "'w \<Rightarrow> 'w orch" where
  "orch_init w = \<lparr>os_states = [], os_active = None, os_swapping = False, os_swap_start = 0,
     os_ray = None, os_ray_profile = None, os_ray_at = 0, os_world = w, os_now = 0, os_calls = []\<rparr>"

text \<open>Every external call goes through here.\<close>

definition ext_call :: "call \<Rightarrow> ('w, exn + 'a) ext \<Rightarrow> ('w orch, 'a) eff" where
  "ext_call c m = (\<lambda>s. case m (os_world s) of (r, d, w) \<Rightarrow>
     (r, s\<lparr>os_world := w, os_now := os_now s + d, os_calls := os_calls s @ [c]\<rparr>))"

definition sleep :: "'w env \<Rightarrow> nat \<Rightarrow> ('w orch, unit) eff" where
  "sleep env n = seq (ext_call (CallSleep n) (e_sleep env n)) (modify (\<lambda>s. s\<lparr>os_now := os_now s + 1000 * n\<rparr>))"

definition set_state :: "string \<Rightarrow> container_state \<Rightarrow> ('w orch, unit) eff" where
  "set_state name st = modify (\<lambda>s. s\<lparr>os_states := dict_set (os_states s) name st\<rparr>)"

subsection \<open>Backend calls\<close>

definition get_workload :: "'w env \<Rightarrow> string \<Rightarrow> ('w orch, workload option) eff" where
  "get_workload env name = ext_call (CallGet name) (be_get_workload (e_backend env) name)"

definition stop_workload :: "'w env \<Rightarrow> string \<Rightarrow> ('w orch, unit) eff" where
  "stop_workload env name = ext_call (CallStop name) (be_stop_workload (e_backend env) name 10)"

definition remove_workload :: "'w env \<Rightarrow> string \<Rightarrow> ('w orch, unit) eff" where
  "remove_workload env name = ext_call (CallRemove name) (be_remove_workload (e_backend env) name)"

definition pause_workload :: "'w env \<Rightarrow> string \<Rightarrow> ('w orch, unit) eff" where
  "pause_workload env name = ext_call (CallPause name) (be_pause_workload (e_backend env) name)"

definition unpause_workload :: "'w env \<Rightarrow> string \<Rightarrow> ('w orch, unit) eff" where
  "unpause_workload env name = ext_call (CallUnpause name) (be_unpause_workload (e_backend env) name)"

definition ensure_network :: "'w env \<Rightarrow> string \<Rightarrow> ('w orch, unit) eff" where
  "ensure_network env name = ext_call (CallNetwork name) (be_ensure_network (e_backend env) name)"

definition exec_in_workload :: "'w env \<Rightarrow> string \<Rightarrow> string list \<Rightarrow> ('w orch, exec_result) eff" where
  "exec_in_workload env name cmd = ext_call (CallExec name cmd) (be_exec_in_workload (e_backend env) name cmd)"

section \<open>Properties of the object\<close>

definition active_vram_profile :: "'w env \<Rightarrow> 'w orch \<Rightarrow> vram_profile option" where
  "active_vram_profile env s = (case os_active s of None \<Rightarrow> None
     | Some k \<Rightarrow> if k = [] then None else dict_get (PROFILES (e_catalog env)) k)"

definition swap_elapsed :: "'w orch \<Rightarrow> nat" where
  "swap_elapsed s = (if \<not> os_swapping s then 0 else os_now s - os_swap_start s)"

definition cached_ray_status :: "'w orch \<Rightarrow> ray_status option" where
  "cached_ray_status s = (case os_ray s of None \<Rightarrow> None
     | Some r \<Rightarrow> if os_ray_profile s \<noteq> os_active s then None
                 else Some (r\<lparr>rs_checked_ms_ago := Some (os_now s - os_ray_at s)\<rparr>))"

definition is_model_ready :: "'w orch \<Rightarrow> string \<Rightarrow> bool" where
  "is_model_ready s name = (dict_get (os_states s) name = Some READY)"

text \<open>The write is synchronous: it can fail with an \<open>OSError\<close>, given by its message, but it
  cannot be cancelled.\<close>

definition os_error :: "('w, string + 'a) ext \<Rightarrow> ('w, exn + 'a) ext" where
  "os_error m = ext_bind m (\<lambda>r. ext_ret (case r of Inl msg \<Rightarrow> Inl (OSError msg) | Inr x \<Rightarrow> Inr x))"

definition persist_state :: "'w env \<Rightarrow> ('w orch, unit) eff" where
  "persist_state env = bind (gets os_active) (\<lambda>a. case a of None \<Rightarrow> ret ()
     | Some k \<Rightarrow> if k = [] then ret ()
                 else handle (ext_call (CallPersist k) (os_error (e_write_state env k))) (\<lambda>_. ret ()))"

section \<open>Health checks\<close>

definition health_url :: "'w env \<Rightarrow> string \<Rightarrow> nat \<Rightarrow> string \<Rightarrow> string" where
  "health_url env name port engine =
     ''http://'' @ be_resolve_hostname (e_backend env) name engine @ '':'' @ show_nat port @ ''/health''"

definition check_vllm_health :: "'w env \<Rightarrow> string \<Rightarrow> nat \<Rightarrow> string \<Rightarrow> ('w orch, bool) eff" where
  "check_vllm_health env name port engine =
     (let url = health_url env name port engine in
      handle (bind (ext_call (CallHealth url) (e_http_status env url)) (\<lambda>st. ret (st = 200))) (\<lambda>_. ret False))"

text \<open>One round of \<open>_wait_all_ready\<close>: is the model up?\<close>

definition probe_ready :: "'w env \<Rightarrow> model_definition \<Rightarrow> ('w orch, bool) eff" where
  "probe_ready env m =
     (if exec_managed m then check_vllm_health env (md_container_name m) (md_port m) (md_engine m)
      else bind (get_workload env (md_container_name m)) (\<lambda>w. case w of
          None \<Rightarrow> ret False
        | Some wl \<Rightarrow> if wl_status wl = ''running''
            then check_vllm_health env (md_container_name m) (md_port m) (md_engine m) else ret False))"

lemma ext_call_now: "ext_call c m s = (r, s') \<Longrightarrow> os_now s \<le> os_now s'"
  by (auto simp: ext_call_def split: prod.splits)

lemma check_vllm_health_now: "check_vllm_health env n p e s = (r, s') \<Longrightarrow> os_now s \<le> os_now s'"
  by (auto simp: check_vllm_health_def Let_def handle_def bind_def ret_def split: prod.splits sum.splits if_splits
      dest: ext_call_now)

lemma probe_ready_now: "probe_ready env m s = (r, s') \<Longrightarrow> os_now s \<le> os_now s'"
  unfolding probe_ready_def get_workload_def bind_def ret_def
  by (auto split: if_splits prod.splits sum.splits option.splits
      dest: ext_call_now check_vllm_health_now dest!: check_vllm_health_now intro: order_trans)

lemma sleep_now: "sleep env n s = (Inr x, s') \<Longrightarrow> os_now s + 1000 * n \<le> os_now s'"
  unfolding sleep_def bind_def modify_def
  by (auto split: prod.splits sum.splits dest: ext_call_now)

text \<open>The loop of \<open>_wait_all_ready\<close> for one model.  Every round that goes on sleeps for a
  second, so the clock bounds the number of rounds.\<close>

function wait_ready :: "'w env \<Rightarrow> nat \<Rightarrow> int \<Rightarrow> model_definition \<Rightarrow> ('w orch, unit) eff" where
  "wait_ready env start tmo m s =
     (if int (os_now s) - int start > 1000 * tmo then (Inl TimeoutError, s)
      else (case probe_ready env m s of
          (Inl e, s1) \<Rightarrow> (Inl e, s1)
        | (Inr True, s1) \<Rightarrow> set_state (md_container_name m) READY s1
        | (Inr False, s1) \<Rightarrow> (case sleep env 1 s1 of
              (Inl e, s2) \<Rightarrow> (Inl e, s2)
            | (Inr _, s2) \<Rightarrow> wait_ready env start tmo m s2)))"
  by pat_completeness auto
termination
  by (relation "measure (\<lambda>(env, start, tmo, m, s). nat (int start + 1000 * tmo + 1 - int (os_now s)))")
     (auto dest!: probe_ready_now [OF sym] sleep_now [OF sym])

declare wait_ready.simps [simp del]

definition wait_all_ready :: "'w env \<Rightarrow> model_definition list \<Rightarrow> int \<Rightarrow> ('w orch, unit) eff" where
  "wait_all_ready env ms tmo = bind (gets os_now) (\<lambda>start. for_each ms (wait_ready env start tmo))"

section \<open>Ray\<close>

definition sq :: "string \<Rightarrow> string" where
  "sq s = [QUOTE] @ s @ [QUOTE]"

definition find_ray_head :: "'w env \<Rightarrow> ('w orch, string option) eff" where
  "find_ray_head env = bind (ext_call CallList (be_list_workloads (e_backend env) (Some RAY_HEAD_NAME)))
     (\<lambda>ws. ret (map_option wl_name (find (\<lambda>w. wl_name w = RAY_HEAD_NAME \<or> str_in RAY_HEAD_NAME (wl_name w)) ws)))"

text \<open>\<open>int(result.output.strip() or 0)\<close>; any exception counts as no node.\<close>

definition count_ray_nodes :: "'w env \<Rightarrow> string \<Rightarrow> ('w orch, int) eff" where
  "count_ray_nodes env container =
     handle (bind (exec_in_workload env container count_nodes_cmd) (\<lambda>r.
       (let t = py_strip (ex_output r) in
        if t = [] then ret 0 else (case py_int t of Inl e \<Rightarrow> throw e | Inr n \<Rightarrow> ret n))))
     (\<lambda>_. ret 0)"

definition verify_ray_cluster_ready :: "'w env \<Rightarrow> nat \<Rightarrow> ('w orch, bool) eff" where
  "verify_ray_cluster_ready env required_nodes =
     bind (find_ray_head env) (\<lambda>h. case h of
       None \<Rightarrow> ret False
     | Some name \<Rightarrow> if name = [] then ret False
         else bind (count_ray_nodes env name) (\<lambda>n. ret (n \<ge> int required_nodes)))"

definition cleanup_placement_groups :: "'w env \<Rightarrow> string \<Rightarrow> ('w orch, unit) eff" where
  "cleanup_placement_groups env ray_name =
     handle (bind (exec_in_workload env ray_name placement_cleanup_cmd) (\<lambda>_. ret ())) (\<lambda>_. ret ())"

definition stop_ray_vllm :: "'w env \<Rightarrow> model_definition \<Rightarrow> ('w orch, unit) eff" where
  "stop_ray_vllm env m =
     bind (find_ray_head env) (\<lambda>h. case h of
       None \<Rightarrow> ret ()
     | Some name \<Rightarrow> if name = [] then ret ()
         else seq (exec_in_workload env name [''bash'', ''-c'', ray_kill_cmd m])
                  (cleanup_placement_groups env name))"

definition kill_all_ray_vllm :: "'w env \<Rightarrow> ('w orch, unit) eff" where
  "kill_all_ray_vllm env =
     bind (find_ray_head env) (\<lambda>h. case h of
       None \<Rightarrow> ret ()
     | Some name \<Rightarrow> if name = [] then ret ()
         else seq (exec_in_workload env name [''bash'', ''-c'', ray_kill_all_cmd])
                  (cleanup_placement_groups env name))"

definition start_ray_vllm :: "'w env \<Rightarrow> model_definition \<Rightarrow> ('w orch, unit) eff" where
  "start_ray_vllm env m =
     bind (find_ray_head env) (\<lambda>h.
       let failed = throw (RuntimeError (''Cannot start '' @ sq (md_name m) @ '': Ray head workload not found.''))
       in case h of
         None \<Rightarrow> failed
       | Some name \<Rightarrow> if name = [] then failed
           else seq (stop_ray_vllm env m)
             (case build_cmd m of
                None \<Rightarrow> throw TypeError
              | Some args \<Rightarrow> bind (exec_in_workload env name [''bash'', ''-c'', ray_serve_cmd m args]) (\<lambda>_. ret ())))"

section \<open>The Spark cluster\<close>

definition run_on_worker :: "'w env \<Rightarrow> string \<Rightarrow> string \<Rightarrow> ('w orch, string) eff" where
  "run_on_worker env host command =
     bind (ext_call (CallSsh host command) (e_ssh env (ssh_argv (e_cfg env) host command))) (\<lambda>(rc, out, err).
       if rc \<noteq> 0 then throw (RuntimeError (''SSH command on '' @ host @ '' failed (rc='' @ show_int rc @ ''): '' @ py_strip err))
       else ret (py_strip out))"

definition exec_shell_script :: "'w env \<Rightarrow> model_definition \<Rightarrow> string \<Rightarrow> nat \<Rightarrow> ('w orch, unit) eff" where
  "exec_shell_script env m script rank =
     (let container = spark_container (e_cfg env) m; runner = script_runner script;
          hosts = SPARK_WORKER_HOSTS (e_cfg env)
      in if rank = 0 then bind (exec_in_workload env container [''bash'', ''-c'', runner]) (\<lambda>_. ret ())
         else if rank - 1 < length hosts
           then bind (run_on_worker env (hosts ! (rank - 1)) (worker_command container runner)) (\<lambda>_. ret ())
           else throw IndexError)"

definition stop_spark_serve :: "'w env \<Rightarrow> model_definition \<Rightarrow> ('w orch, unit) eff" where
  "stop_spark_serve env m =
     for_each [0..<md_cluster_nodes m] (\<lambda>rank.
       handle (exec_shell_script env m (kill_script m) rank) (\<lambda>_. ret ()))"

definition start_spark_serve :: "'w env \<Rightarrow> model_definition \<Rightarrow> ('w orch, unit) eff" where
  "start_spark_serve env m =
     seq (stop_spark_serve env m)
       (case build_cmd m of
          None \<Rightarrow> throw TypeError
        | Some args \<Rightarrow> for_each (rev [0..<md_cluster_nodes m]) (\<lambda>rank.
            exec_shell_script env m (launch_script (e_cfg env) m args rank) rank))"

definition inspect_command :: "string \<Rightarrow> string" where
  "inspect_command container = ''docker inspect -f '' @ sq ''{{.State.Running}}'' @ '' '' @ container"

definition verify_spark_worker :: "'w env \<Rightarrow> model_definition \<Rightarrow> string \<Rightarrow> ('w orch, unit) eff" where
  "verify_spark_worker env m host =
     (let container = spark_container (e_cfg env) m;
          prefix_msg = ''Cannot start '' @ sq (md_name m) @ '': ''
      in bind (handle (run_on_worker env host (inspect_command container))
                (\<lambda>e. case e of
                   RuntimeError msg \<Rightarrow> throw (RuntimeError (prefix_msg @ ''worker '' @ host @ '' unreachable. '' @ msg))
                 | _ \<Rightarrow> throw e))
         (\<lambda>state. if py_strip state \<noteq> ''true''
            then throw (RuntimeError (prefix_msg @ ''cluster container '' @ sq container @
                   '' is not running on worker '' @ host @ ''.''))
            else ret ()))"

definition verify_spark_cluster_ready :: "'w env \<Rightarrow> model_definition \<Rightarrow> ('w orch, unit) eff" where
  "verify_spark_cluster_ready env m =
     (let cfg = e_cfg env; container = spark_container cfg m;
          required_workers = int (md_cluster_nodes m) - 1; hosts = SPARK_WORKER_HOSTS cfg;
          prefix_msg = ''Cannot start '' @ sq (md_name m) @ '': ''
      in if required_workers > int (length hosts)
         then throw (RuntimeError (''Model '' @ sq (md_name m) @ '' needs '' @ show_nat (md_cluster_nodes m) @
                '' nodes but only '' @ show_nat (length hosts + 1) @ '' are configured (SPARK_WORKER_HOSTS).''))
         else bind (get_workload env container) (\<lambda>w.
           if map_option wl_status w \<noteq> Some ''running''
           then throw (RuntimeError (prefix_msg @ ''cluster container '' @ sq container @ '' is '' @
                  (case w of None \<Rightarrow> ''not found'' | Some wl \<Rightarrow> wl_status wl) @
                  '' on this node. Bring it up with `cd ~/spark-vllm-docker && HF_HOME=~/hf-cache '' @
                  ''./run-recipe.sh deepseek-v4-flash-0731 -d`.''))
           else seq (for_each (take (nat required_workers) hosts) (verify_spark_worker env m))
             (if md_requires_ray_cluster m
              then bind (count_ray_nodes env container) (\<lambda>nodes.
                if nodes < int (md_tensor_parallel_size m)
                then throw (RuntimeError (prefix_msg @ ''it shards through Ray but '' @ sq container @ '' sees '' @
                       show_int nodes @ '' Ray node(s), not '' @ show_nat (md_tensor_parallel_size m) @
                       ''. Relaunch the cluster in Ray mode: `cd ~/spark-vllm-docker && HF_HOME=~/hf-cache '' @
                       ''./run-recipe.sh qwen3.5-122b-fp8 -d`.''))
                else ret ())
              else ret ())))"

definition stop_exec_model :: "'w env \<Rightarrow> model_definition \<Rightarrow> ('w orch, unit) eff" where
  "stop_exec_model env m =
     (if md_engine m = ''spark_cluster'' then stop_spark_serve env m else stop_ray_vllm env m)"

section \<open>Starting and stopping workloads\<close>

definition create_and_start :: "'w env \<Rightarrow> model_definition \<Rightarrow> ('w orch, unit) eff" where
  "create_and_start env m =
     (let args = \<lparr>ca_name = md_container_name m, ca_image = md_container_image m, ca_command = build_cmd m,
            ca_environment = build_env m, ca_volumes = workload_volumes (e_cfg env) m, ca_port = md_port m,
            ca_shm_size = ''16g'', ca_entrypoint = md_container_entrypoint m\<rparr>
      in handle (ext_call (CallCreate (md_container_name m)) (be_create_and_start (e_backend env) args))
           (\<lambda>e. seq (set_state (md_container_name m) ERROR) (throw e)))"

definition ensure_container_running :: "'w env \<Rightarrow> swap_strategy \<Rightarrow> model_definition \<Rightarrow> ('w orch, unit) eff" where
  "ensure_container_running env strategy m =
     (let name = md_container_name m in
      seq (set_state name STARTING)
      (if md_engine m = ''spark_cluster'' then
         seq (verify_spark_cluster_ready env m) (seq (start_spark_serve env m) (set_state name STARTING))
       else if md_engine m = ''ray_vllm'' then
         seq (if md_tensor_parallel_size m \<ge> 2
              then bind (verify_ray_cluster_ready env 2) (\<lambda>ready.
                if \<not> ready then seq (set_state name ERROR)
                  (throw (RuntimeError (''Ray cluster needs 2 nodes for TP=2 model '' @ sq (md_name m) @
                     '' but worker is disconnected. Run ray-cluster/reset_ray_node.sh --worker on Node 2.'')))
                else ret ())
              else ret ())
           (seq (start_ray_vllm env m) (set_state name STARTING))
       else
         seq (bind (get_workload env name) (\<lambda>w. case w of
             Some wl \<Rightarrow>
               (if wl_status wl = ''paused'' \<and> strategy = PAUSE_UNPAUSE then unpause_workload env name
                else if wl_status wl \<in> {''exited'', ''created'', ''dead''}
                  then seq (remove_workload env name) (create_and_start env m)
                else if wl_status wl = ''running'' then ensure_network env name
                else seq (remove_workload env name) (create_and_start env m))
           | None \<Rightarrow> create_and_start env m))
           (set_state name STARTING)))"

definition model_of_container :: "'w env \<Rightarrow> string \<Rightarrow> model_definition option" where
  "model_of_container env name = find (\<lambda>m. md_container_name m = name) (ALL_MODELS (e_catalog env))"

text \<open>The two loops of \<open>_teardown_current\<close>: outgoing models by identity, then the recorded
  workloads.  The second one iterates over a copy of the states made when it starts.\<close>

definition stop_outgoing :: "'w env \<Rightarrow> string list \<Rightarrow> model_definition \<Rightarrow> ('w orch, unit) eff" where
  "stop_outgoing env preserve_models m =
     (if \<not> exec_managed m then ret ()
      else if md_name m \<in> set preserve_models then ret ()
      else seq (stop_exec_model env m) (set_state (md_container_name m) STOPPED))"

definition stop_recorded :: "'w env \<Rightarrow> swap_strategy \<Rightarrow> string list \<Rightarrow> string \<times> container_state \<Rightarrow> ('w orch, unit) eff" where
  "stop_recorded env strategy preserve ns = (case ns of (name, state) \<Rightarrow>
     (if name \<in> set preserve then ret ()
      else if state \<noteq> READY \<and> state \<noteq> STARTING then ret ()
      else seq (set_state name STOPPING)
        (case model_of_container env name of
           Some m \<Rightarrow> if exec_managed m
             then seq (stop_exec_model env m) (set_state name STOPPED)
             else handle (if strategy = PAUSE_UNPAUSE \<and> supports_pause (e_backend env)
                          then seq (pause_workload env name) (set_state name PAUSED)
                          else seq (stop_workload env name) (set_state name STOPPED)) (\<lambda>_. ret ())
         | None \<Rightarrow> handle (if strategy = PAUSE_UNPAUSE \<and> supports_pause (e_backend env)
                          then seq (pause_workload env name) (set_state name PAUSED)
                          else seq (stop_workload env name) (set_state name STOPPED)) (\<lambda>_. ret ()))))"

definition teardown_current :: "'w env \<Rightarrow> swap_strategy \<Rightarrow> string list \<Rightarrow> string list \<Rightarrow> ('w orch, unit) eff" where
  "teardown_current env strategy preserve preserve_models =
     bind (gets (\<lambda>s. dict_get (PROFILES (e_catalog env)) (case os_active s of None \<Rightarrow> [] | Some k \<Rightarrow> k))) (\<lambda>current.
       seq (case current of None \<Rightarrow> ret ()
            | Some p \<Rightarrow> for_each (all_models_of p) (stop_outgoing env preserve_models))
       (bind (gets os_states) (\<lambda>items. for_each items (stop_recorded env strategy preserve))))"

text \<open>\<open>_ensure_vram_available\<close>: up to \<open>n\<close> further looks, one second apart.\<close>

fun await_vram :: "'w env \<Rightarrow> int \<Rightarrow> nat \<Rightarrow> ('w orch, unit) eff" where
  "await_vram env needed_mb 0 = ret ()"
| "await_vram env needed_mb (Suc n) =
     seq (sleep env 1)
     (bind (ext_call CallVram (e_query_gpus env)) (\<lambda>report.
        if has_enough_vram (e_cfg env) needed_mb report then ret () else await_vram env needed_mb n))"

definition ensure_vram_available ::
    "'w env \<Rightarrow> int \<Rightarrow> string list \<Rightarrow> nat \<Rightarrow> string list \<Rightarrow> ('w orch, unit) eff" where
  "ensure_vram_available env needed_mb preserve wait_seconds preserve_models =
     bind (ext_call CallVram (e_query_gpus env)) (\<lambda>report.
       if has_enough_vram (e_cfg env) needed_mb report then ret ()
       else seq (teardown_current env STOP_START preserve preserve_models) (await_vram env needed_mb wait_seconds))"

definition stop_container :: "'w env \<Rightarrow> string \<Rightarrow> ('w orch, unit) eff" where
  "stop_container env name = seq (stop_workload env name) (set_state name STOPPED)"

definition remove_container :: "'w env \<Rightarrow> string \<Rightarrow> ('w orch, unit) eff" where
  "remove_container env name =
     seq (remove_workload env name) (modify (\<lambda>s. s\<lparr>os_states := dict_pop (os_states s) name\<rparr>))"

section \<open>The profile swap\<close>

definition promote_starting :: "model_definition list \<Rightarrow> ('w orch, unit) eff" where
  "promote_starting ms = for_each ms (\<lambda>m.
     bind (gets (\<lambda>s. dict_get (os_states s) (md_container_name m))) (\<lambda>st.
       if st = Some STARTING then set_state (md_container_name m) READY else ret ()))"

definition swap_body :: "'w env \<Rightarrow> string \<Rightarrow> vram_profile \<Rightarrow> swap_strategy \<Rightarrow> ('w orch, bool) eff" where
  "swap_body env key target strategy =
     (let ms = all_models_of target; names = map md_container_name ms; model_names = map md_name ms in
      seq (teardown_current env strategy names model_names)
      (seq (if vp_skip_vram_check target then ret ()
            else ensure_vram_available env (vp_total_vram_required_mb target) names 15 model_names)
      (seq (for_each ms (ensure_container_running env strategy))
      (seq (handle (wait_all_ready env ms (SWAP_TIMEOUT_S (e_cfg env)))
              (\<lambda>e. if e = TimeoutError then promote_starting ms else throw e))
      (seq (modify (\<lambda>s. s\<lparr>os_active := Some key\<rparr>))
      (seq (persist_state env) (ret True)))))))"

text \<open>\<open>switch_profile\<close>, with the swap lock held.\<close>

definition swap_strategy_of :: "'w env \<Rightarrow> swap_strategy" where
  "swap_strategy_of env =
     (let strategy = get_swap_strategy (SYSTEM_RAM_GB (e_cfg env)) in
      if \<not> supports_pause (e_backend env) \<and> strategy = PAUSE_UNPAUSE then STOP_START else strategy)"

definition switch_profile :: "'w env \<Rightarrow> vram_profile \<Rightarrow> bool \<Rightarrow> ('w orch, bool) eff" where
  "switch_profile env target force =
     (let key = registry_key (e_catalog env) target in
      bind (gets os_active) (\<lambda>act.
        if act = Some key \<and> \<not> force then ret True
        else seq (modify (\<lambda>s. s\<lparr>os_swapping := True, os_swap_start := os_now s\<rparr>))
          (finally_do (handle (swap_body env key target (swap_strategy_of env)) (\<lambda>_. ret False))
             (\<lambda>s. s\<lparr>os_swapping := False\<rparr>))))"

section \<open>Startup\<close>

fun cleanup_models :: "'w env \<Rightarrow> model_definition list \<Rightarrow> bool \<Rightarrow> ('w orch, unit) eff" where
  "cleanup_models env [] ray_cleaned = ret ()"
| "cleanup_models env (m # ms) ray_cleaned =
     (if md_engine m = ''spark_cluster'' then seq (stop_spark_serve env m) (cleanup_models env ms ray_cleaned)
      else if md_engine m = ''ray_vllm'' then
        seq (if ray_cleaned then ret () else kill_all_ray_vllm env) (cleanup_models env ms True)
      else bind (get_workload env (md_container_name m)) (\<lambda>w.
        seq (case w of None \<Rightarrow> ret () | Some _ \<Rightarrow> remove_workload env (md_container_name m))
            (cleanup_models env ms ray_cleaned)))"

definition cleanup_orphaned_containers :: "'w env \<Rightarrow> ('w orch, unit) eff" where
  "cleanup_orphaned_containers env = cleanup_models env (ALL_MODELS (e_catalog env)) False"

text \<open>The scan of \<open>detect_and_adopt_running_profile\<close>: statuses by container, the exec-managed
  containers, and the names of the exec-managed models that answered.\<close>

record scan =
  sc_running :: "(string, string) dict"
  sc_exec :: "string list"
  sc_healthy :: "string list"

fun scan_models :: "'w env \<Rightarrow> model_definition list \<Rightarrow> scan \<Rightarrow> ('w orch, scan) eff" where
  "scan_models env [] sc = ret sc"
| "scan_models env (m # ms) sc =
     (let name = md_container_name m in
      if exec_managed m then
        bind (check_vllm_health env name (md_port m) (md_engine m)) (\<lambda>healthy.
          scan_models env ms (if healthy
            then sc\<lparr>sc_running := dict_set (sc_running sc) name ''running'', sc_exec := name # sc_exec sc,
                    sc_healthy := md_name m # sc_healthy sc\<rparr>
            else sc\<lparr>sc_exec := name # sc_exec sc\<rparr>))
      else bind (get_workload env name) (\<lambda>w.
          scan_models env ms (case w of None \<Rightarrow> sc
            | Some wl \<Rightarrow> sc\<lparr>sc_running := dict_set (sc_running sc) name (wl_status wl)\<rparr>)))"

definition VALID_STATUSES :: "string list" where
  "VALID_STATUSES = [''running'', ''created'', ''restarting'', ''pending'']"

definition adoptable :: "scan \<Rightarrow> vram_profile \<Rightarrow> bool" where
  "adoptable sc p =
     (all_models_of p \<noteq> [] \<and>
      list_all (\<lambda>m. exec_managed m \<longrightarrow> md_name m \<in> set (sc_healthy sc)) (all_models_of p) \<and>
      list_all (\<lambda>m. case dict_get (sc_running sc) (md_container_name m) of
          None \<Rightarrow> False | Some st \<Rightarrow> st \<in> set VALID_STATUSES) (all_models_of p))"

definition adopt_states :: "scan \<Rightarrow> model_definition list \<Rightarrow> ('w orch, unit) eff" where
  "adopt_states sc ms = for_each ms (\<lambda>m.
     set_state (md_container_name m)
       (if dict_get (sc_running sc) (md_container_name m) = Some ''running'' then READY else STARTING))"

definition remove_orphan :: "'w env \<Rightarrow> scan \<Rightarrow> string \<Rightarrow> ('w orch, unit) eff" where
  "remove_orphan env sc name =
     (if name \<in> set (sc_exec sc)
      then (case model_of_container env name of None \<Rightarrow> ret () | Some m \<Rightarrow> stop_exec_model env m)
      else remove_workload env name)"

text \<open>The orphans are a set difference in the code; here they come in the order of the scan.\<close>

definition detect_and_adopt :: "'w env \<Rightarrow> ('w orch, string option) eff" where
  "detect_and_adopt env =
     bind (scan_models env (ALL_MODELS (e_catalog env)) \<lparr>sc_running = [], sc_exec = [], sc_healthy = []\<rparr>) (\<lambda>sc.
       if sc_running sc = [] then ret None
       else (case find (\<lambda>(k, p). adoptable sc p) (PROFILES (e_catalog env)) of
           None \<Rightarrow> ret None
         | Some (key, p) \<Rightarrow>
             seq (modify (\<lambda>s. s\<lparr>os_active := Some key\<rparr>))
             (seq (adopt_states sc (all_models_of p))
             (seq (for_each (filter (\<lambda>n. n \<notin> set (map md_container_name (all_models_of p))) (dict_keys (sc_running sc)))
                     (remove_orphan env sc))
             (seq (persist_state env) (ret (Some key)))))))"

section \<open>Ray health\<close>

definition ray_container :: "string option \<Rightarrow> model_definition \<Rightarrow> string" where
  "ray_container head m =
     (if md_engine m = ''ray_vllm'' then (case head of Some h \<Rightarrow> if h = [] then RAY_HEAD_NAME else h | None \<Rightarrow> RAY_HEAD_NAME)
      else md_container_name m)"

text \<open>\<open>grouped.setdefault(container, []).append(model)\<close>.\<close>

definition group_by :: "('m \<Rightarrow> 'k) \<Rightarrow> 'm list \<Rightarrow> ('k, 'm list) dict" where
  "group_by f ms = fold (\<lambda>m g. dict_set g (f m) ((case dict_get g (f m) of None \<Rightarrow> [] | Some l \<Rightarrow> l) @ [m])) ms []"

definition cluster_status :: "bool \<Rightarrow> string \<Rightarrow> model_definition list \<Rightarrow> int \<Rightarrow> ray_cluster_status" where
  "cluster_status head_down container grp act =
     (let required = int (Max (set (map required_ray_nodes grp)));
          detail = (if head_down then Some (''Ray head workload '' @ sq RAY_HEAD_NAME @
                      '' is not running. Run ray-cluster/reset_ray_node.sh --head.'')
                    else if act = 0 then Some (sq container @ '' reports no Ray nodes.'')
                    else if act < required then Some (''Ray cluster has '' @ show_int act @ '' of '' @
                      show_int required @ '' nodes. Run ray-cluster/reset_ray_node.sh --worker on the missing node.'')
                    else None)
      in \<lparr>rc_container = container, rc_nodes_active = act, rc_nodes_required = required,
          rc_models = map md_name grp, rc_healthy = (act \<ge> required), rc_detail = detail\<rparr>)"

fun check_clusters :: "'w env \<Rightarrow> string option \<Rightarrow> (string \<times> model_definition list) list \<Rightarrow> ('w orch, ray_cluster_status list) eff" where
  "check_clusters env head [] = ret []"
| "check_clusters env head ((container, grp) # gs) =
     (let head_down = (head = None \<and> list_ex (\<lambda>m. md_engine m = ''ray_vllm'') grp) in
      bind (if head_down then ret 0 else count_ray_nodes env container) (\<lambda>act.
      bind (check_clusters env head gs) (\<lambda>rest. ret (cluster_status head_down container grp act # rest))))"

definition check_ray_requirement :: "'w env \<Rightarrow> ('w orch, ray_status option) eff" where
  "check_ray_requirement env =
     bind (gets (active_vram_profile env)) (\<lambda>p. case p of
       None \<Rightarrow> ret None
     | Some prof \<Rightarrow>
         (let ms = filter (\<lambda>m. required_ray_nodes m > 0) (all_models_of prof) in
          if ms = [] then ret None
          else bind (if list_ex (\<lambda>m. md_engine m = ''ray_vllm'') ms then find_ray_head env else ret None) (\<lambda>head.
            bind (check_clusters env head (group_by (ray_container head) ms)) (\<lambda>clusters.
              ret (Some \<lparr>rs_healthy = list_all rc_healthy clusters, rs_clusters = clusters,
                         rs_checked_ms_ago = None\<rparr>)))))"

definition refresh_ray_status :: "'w env \<Rightarrow> ('w orch, ray_status option) eff" where
  "refresh_ray_status env = bind (check_ray_requirement env) (\<lambda>st.
     seq (modify (\<lambda>s. s\<lparr>os_ray := st, os_ray_profile := os_active s, os_ray_at := os_now s\<rparr>)) (ret st))"

end
