(* ===== verification/Swap.thy ===== *)
theory Swap
  imports Orchestrator
begin

text \<open>
  What a profile swap guarantees.  The first part is the calculus the proofs use: which parts of
  the state an operation leaves alone and which calls it adds to the trace.
\<close>

section \<open>Operations that only act outside\<close>

text \<open>\<open>external C m\<close>: \<open>m\<close> changes nothing but the world, the clock, which does not go
  back, and the trace, to which it adds only calls that satisfy \<open>C\<close>.\<close>

definition same_control :: "'w orch \<Rightarrow> 'w orch \<Rightarrow> bool" where
  "same_control s s' = (os_states s' = os_states s \<and> os_active s' = os_active s \<and> os_swapping s' = os_swapping s \<and>
     os_swap_start s' = os_swap_start s \<and> os_ray s' = os_ray s \<and> os_ray_profile s' = os_ray_profile s \<and>
     os_ray_at s' = os_ray_at s)"

definition adds :: "(call \<Rightarrow> bool) \<Rightarrow> 'w orch \<Rightarrow> 'w orch \<Rightarrow> bool" where
  "adds C s s' = (os_now s \<le> os_now s' \<and> (\<exists>cs. os_calls s' = os_calls s @ cs \<and> list_all C cs))"

definition external :: "(call \<Rightarrow> bool) \<Rightarrow> ('w orch, 'a) eff \<Rightarrow> bool" where
  "external C m = (\<forall>s. same_control s (snd (m s)) \<and> adds C s (snd (m s)))"

named_theorems ext_intro \<open>introduction rules for external\<close>

lemma adds_refl: "adds C s s"
  by (simp add: adds_def)

lemma adds_trans: "adds C s s' \<Longrightarrow> adds C s' s'' \<Longrightarrow> adds C s s''"
  by (fastforce simp: adds_def)

lemma adds_mono: "adds C s s' \<Longrightarrow> (\<And>c. C c \<Longrightarrow> D c) \<Longrightarrow> adds D s s'"
  unfolding adds_def by (auto simp: list_all_iff)

lemma external_mono: "external C m \<Longrightarrow> (\<And>c. C c \<Longrightarrow> D c) \<Longrightarrow> external D m"
  unfolding external_def using adds_mono by blast

lemma external_ret [ext_intro]: "external C (ret x)"
  by (simp add: external_def ret_def same_control_def adds_refl)

lemma external_throw [ext_intro]: "external C (throw e)"
  by (simp add: external_def throw_def same_control_def adds_refl)

lemma external_gets [ext_intro]: "external C (gets f)"
  by (simp add: external_def gets_def same_control_def adds_refl)

lemma external_bind [ext_intro]: "external C m \<Longrightarrow> (\<And>x. external C (f x)) \<Longrightarrow> external C (bind m f)"
  unfolding external_def bind_def
  by (auto split: prod.splits sum.splits simp: same_control_def) (metis adds_trans snd_conv)+

lemma external_handle [ext_intro]: "external C m \<Longrightarrow> (\<And>e. external C (h e)) \<Longrightarrow> external C (handle m h)"
  unfolding external_def handle_def
  by (auto split: prod.splits sum.splits simp: same_control_def) (metis adds_trans snd_conv)+

lemma external_if [ext_intro]: "(b \<Longrightarrow> external C m) \<Longrightarrow> (\<not> b \<Longrightarrow> external C n) \<Longrightarrow> external C (if b then m else n)"
  by simp

lemma external_option [ext_intro]:
  "(x = None \<Longrightarrow> external C m) \<Longrightarrow> (\<And>y. x = Some y \<Longrightarrow> external C (f y)) \<Longrightarrow>
   external C (case x of None \<Rightarrow> m | Some y \<Rightarrow> f y)"
  by (cases x) simp_all

lemma external_sum [ext_intro]:
  "(\<And>e. external C (g e)) \<Longrightarrow> (\<And>y. external C (f y)) \<Longrightarrow> external C (case x of Inl e \<Rightarrow> g e | Inr y \<Rightarrow> f y)"
  by (cases x) simp_all

lemma external_prod [ext_intro]: "(\<And>x y. external C (f x y)) \<Longrightarrow> external C (case p of (x, y) \<Rightarrow> f x y)"
  by (cases p) simp

lemma external_for_each [ext_intro]: "(\<And>x. x \<in> set xs \<Longrightarrow> external C (f x)) \<Longrightarrow> external C (for_each xs f)"
  by (induction xs) (auto intro: ext_intro)

lemma external_call [ext_intro]: "C c \<Longrightarrow> external C (ext_call c m)"
  by (auto simp: external_def ext_call_def same_control_def adds_def split: prod.splits)

lemma external_sleep [ext_intro]: "C (CallSleep n) \<Longrightarrow> external C (sleep env n)"
proof -
  assume "C (CallSleep n)"
  then have "external C (ext_call (CallSleep n) (e_sleep env n))" by (rule external_call)
  moreover have "same_control s (s\<lparr>os_now := os_now s + 1000 * n\<rparr>)" "adds C s (s\<lparr>os_now := os_now s + 1000 * n\<rparr>)" for s :: "'a orch"
    by (simp_all add: same_control_def adds_def)
  ultimately show ?thesis
    unfolding sleep_def external_def bind_def modify_def
    by (auto split: prod.splits sum.splits simp: same_control_def) (metis adds_trans snd_conv)+
qed

text \<open>An external operation keeps every assertion about the control state and the trace.\<close>

lemma external_valid:
  assumes "external C m"
    and "\<And>s s'. P s \<Longrightarrow> same_control s s' \<Longrightarrow> adds C s s' \<Longrightarrow> (\<forall>x. Q x s') \<and> (\<forall>e. E e s')"
  shows "valid P m Q E"
  using assms unfolding valid_def external_def by (fastforce split: prod.splits sum.splits)

section \<open>The calls each operation makes\<close>

definition spark_call :: "settings \<Rightarrow> model_definition \<Rightarrow> string \<Rightarrow> nat \<Rightarrow> call" where
  "spark_call cfg m script rank =
     (let container = spark_container cfg m; runner = script_runner script
      in if rank = 0 then CallExec container [''bash'', ''-c'', runner]
         else CallSsh (SPARK_WORKER_HOSTS cfg ! (rank - 1)) (worker_command container runner))"

definition rank_reachable :: "settings \<Rightarrow> nat \<Rightarrow> bool" where
  "rank_reachable cfg rank = (rank = 0 \<or> rank - 1 < length (SPARK_WORKER_HOSTS cfg))"

text \<open>The calls that stop a model inside a container, and those that act on a container.\<close>

definition stop_call :: "settings \<Rightarrow> call \<Rightarrow> bool" where
  "stop_call cfg c = ((\<exists>m rank. c = spark_call cfg m (kill_script m) rank) \<or> c = CallList \<or>
     (\<exists>name m. c = CallExec name [''bash'', ''-c'', ray_kill_cmd m]) \<or>
     (\<exists>name. c = CallExec name [''bash'', ''-c'', ray_kill_all_cmd]) \<or>
     (\<exists>name. c = CallExec name placement_cleanup_cmd))"

fun container_call :: "call \<Rightarrow> bool" where
  "container_call (CallCreate n) = True"
| "container_call (CallStop n) = True"
| "container_call (CallRemove n) = True"
| "container_call (CallPause n) = True"
| "container_call (CallUnpause n) = True"
| "container_call _ = False"

lemma stop_call_simps [simp]:
  "stop_call cfg CallList" "stop_call cfg (spark_call cfg m (kill_script m) rank)"
  "stop_call cfg (CallExec name [''bash'', ''-c'', ray_kill_cmd m])"
  "stop_call cfg (CallExec name [''bash'', ''-c'', ray_kill_all_cmd])"
  "stop_call cfg (CallExec name placement_cleanup_cmd)"
  by (auto simp: stop_call_def)

lemma spark_call_no_container [simp]: "\<not> container_call (spark_call cfg m script rank)"
  by (simp add: spark_call_def Let_def)

lemma stop_call_no_container: "stop_call cfg c \<Longrightarrow> \<not> container_call c"
  by (auto simp: stop_call_def)

lemma external_exec_shell_script:
  "C (spark_call (e_cfg env) m script rank) \<Longrightarrow> external C (exec_shell_script env m script rank)"
  unfolding exec_shell_script_def run_on_worker_def exec_in_workload_def Let_def
  by (auto intro!: ext_intro simp: spark_call_def Let_def)

lemma external_stop_spark: "external (stop_call (e_cfg env)) (stop_spark_serve env m)"
  unfolding stop_spark_serve_def by (intro ext_intro external_exec_shell_script) simp

lemma external_cleanup_groups: "external (stop_call cfg) (cleanup_placement_groups env name)"
  unfolding cleanup_placement_groups_def exec_in_workload_def by (intro ext_intro) simp

lemma external_find_ray_head: "C CallList \<Longrightarrow> external C (find_ray_head env)"
  unfolding find_ray_head_def by (intro ext_intro)

lemma external_stop_ray: "external (stop_call cfg) (stop_ray_vllm env m)"
  unfolding stop_ray_vllm_def exec_in_workload_def
  by (intro ext_intro external_find_ray_head external_cleanup_groups) simp_all

lemma external_stop_exec: "external (stop_call (e_cfg env)) (stop_exec_model env m)"
  unfolding stop_exec_model_def by (intro ext_intro external_stop_spark external_stop_ray)

lemma external_kill_all: "external (stop_call cfg) (kill_all_ray_vllm env)"
  unfolding kill_all_ray_vllm_def exec_in_workload_def
  by (intro ext_intro external_find_ray_head external_cleanup_groups) simp_all

abbreviation no_container_call :: "call \<Rightarrow> bool" where
  "no_container_call c \<equiv> \<not> container_call c"

lemma external_quiet_ops:
  "external no_container_call (count_ray_nodes env container)"
  "external no_container_call (verify_spark_cluster_ready env m)"
  "external no_container_call (verify_ray_cluster_ready env n)"
  "external no_container_call (start_spark_serve env m)"
  "external no_container_call (start_ray_vllm env m)"
  "external no_container_call (check_vllm_health env name port engine)"
  "external no_container_call (persist_state env)"
  "external no_container_call (stop_exec_model env m)"
proof -
  have stop: "external no_container_call (stop_spark_serve env m)" "external no_container_call (stop_ray_vllm env m)"
    "external no_container_call (stop_exec_model env m)" for m
    by (rule external_mono [OF external_stop_spark] external_mono [OF external_stop_ray [of "e_cfg env"]]
          external_mono [OF external_stop_exec], erule stop_call_no_container)+
  have count: "external no_container_call (count_ray_nodes env container)" for container
    unfolding count_ray_nodes_def exec_in_workload_def Let_def by (intro ext_intro) simp
  have ssh: "external no_container_call (run_on_worker env host cmd)" for host cmd
    unfolding run_on_worker_def by (intro ext_intro) simp
  show "external no_container_call (count_ray_nodes env container)" by (rule count)
  show "external no_container_call (verify_ray_cluster_ready env n)"
    unfolding verify_ray_cluster_ready_def by (intro ext_intro external_find_ray_head count) simp
  show "external no_container_call (check_vllm_health env name port engine)"
    unfolding check_vllm_health_def Let_def by (intro ext_intro) simp
  show "external no_container_call (persist_state env)"
    unfolding persist_state_def by (intro ext_intro) simp
  show "external no_container_call (stop_exec_model env m)" by (rule stop)
  have "external no_container_call (verify_spark_worker env m host)" for host
  proof -
    have exn: "external no_container_call (case e of RuntimeError msg \<Rightarrow> throw (x msg) | _ \<Rightarrow> throw e)"
      for e and x :: "string \<Rightarrow> exn"
      by (cases e) (simp_all add: external_throw)
    show ?thesis unfolding verify_spark_worker_def Let_def
      by (rule external_bind external_handle ssh exn external_if external_throw external_ret)+
  qed
  then show "external no_container_call (verify_spark_cluster_ready env m)"
    unfolding verify_spark_cluster_ready_def Let_def get_workload_def by (intro ext_intro count) simp_all
  show "external no_container_call (start_spark_serve env m)"
    unfolding start_spark_serve_def
    by (intro ext_intro stop external_exec_shell_script) simp
  show "external no_container_call (start_ray_vllm env m)"
    unfolding start_ray_vllm_def exec_in_workload_def Let_def
    by (intro ext_intro stop external_find_ray_head) simp_all
qed

section \<open>The outcome of a swap\<close>

text \<open>Assertions about the recorded states, the active profile and the swap flag.\<close>

abbreviation control :: "((string, container_state) dict \<Rightarrow> bool) \<Rightarrow> string option \<Rightarrow> bool \<Rightarrow> 'w orch \<Rightarrow> bool" where
  "control P a b s \<equiv> P (os_states s) \<and> os_active s = a \<and> os_swapping s = b"

abbreviation anything :: "(string, container_state) dict \<Rightarrow> bool" where
  "anything \<equiv> \<lambda>_. True"

lemma external_control:
  "external C m \<Longrightarrow> valid (control P a b) m (\<lambda>_. control P a b) (\<lambda>_. control P a b)"
  by (rule external_valid) (auto simp: same_control_def)

lemma control_weaken:
  "valid (control P a b) m (\<lambda>_. control Q a b) (\<lambda>_. control R a b) \<Longrightarrow>
   (\<And>st. P' st \<Longrightarrow> P st) \<Longrightarrow> (\<And>st. Q st \<Longrightarrow> Q' st) \<Longrightarrow> (\<And>st. R st \<Longrightarrow> R' st) \<Longrightarrow>
   valid (control P' a b) m (\<lambda>_. control Q' a b) (\<lambda>_. control R' a b)"
  by (erule valid_conseq) auto

lemma control_set_state:
  "(\<And>st. P st \<Longrightarrow> Q (dict_set st name x)) \<Longrightarrow>
   valid (control P a b) (set_state name x) (\<lambda>_. control Q a b) E"
  by (auto simp: set_state_def intro!: hoare)

definition all_in :: "model_definition list \<Rightarrow> container_state set \<Rightarrow> (string, container_state) dict \<Rightarrow> bool" where
  "all_in ms A st = (\<forall>m \<in> set ms. \<exists>x \<in> A. dict_get st (md_container_name m) = Some x)"

lemma all_in_set: "all_in ms A st \<Longrightarrow> x \<in> A \<Longrightarrow> all_in ms A (dict_set st name x)"
  by (auto simp: all_in_def)

lemma all_in_set_snoc:
  "all_in ms A st \<Longrightarrow> x \<in> A \<Longrightarrow> all_in (ms @ [m]) A (dict_set st (md_container_name m) x)"
  by (auto simp: all_in_def)

lemma all_in_mono: "all_in ms A st \<Longrightarrow> A \<subseteq> B \<Longrightarrow> set ns \<subseteq> set ms \<Longrightarrow> all_in ns B st"
  unfolding all_in_def by blast

lemma control_create_and_start:
  "valid (control P a b) (create_and_start env m) (\<lambda>_. control P a b) (\<lambda>_. control anything a b)"
proof -
  have call: "valid (control P a b) (ext_call c x) (\<lambda>_. control P a b) (\<lambda>_. control anything a b)"
    for c and x :: "('w, exn + unit) ext"
    by (rule control_weaken [OF external_control [OF external_call [of "\<lambda>_. True"]]]) simp_all
  have err: "valid (control anything a b) (seq (set_state n ERROR) (throw e)) (\<lambda>_. control P a b) (\<lambda>_. control anything a b)"
    for n e
    by (intro valid_bind [OF control_set_state [where Q = anything]] valid_throw) simp_all
  show ?thesis
    unfolding create_and_start_def Let_def by (intro valid_handle [OF call err]) simp_all
qed

lemma control_throw: "valid (control P a b) (throw e) Q (\<lambda>_. control anything a b)"
  by (auto intro!: hoare)

lemma external_any_ops:
  "external (\<lambda>_. True) (verify_spark_cluster_ready env m)" "external (\<lambda>_. True) (verify_ray_cluster_ready env n)"
  "external (\<lambda>_. True) (start_spark_serve env m)" "external (\<lambda>_. True) (start_ray_vllm env m)"
  "external (\<lambda>_. True) (stop_exec_model env m)" "external (\<lambda>_. True) (persist_state env)"
  "external (\<lambda>_. True) (check_vllm_health env name port engine)"
  "external (\<lambda>_. True) (get_workload env name)" "external (\<lambda>_. True) (remove_workload env name)"
  "external (\<lambda>_. True) (unpause_workload env name)" "external (\<lambda>_. True) (pause_workload env name)"
  "external (\<lambda>_. True) (stop_workload env name)" "external (\<lambda>_. True) (ensure_network env name)"
  "external (\<lambda>_. True) (ext_call CallVram (e_query_gpus env))" "external (\<lambda>_. True) (sleep env k)"
  by (auto intro: external_mono [OF external_quiet_ops(2)] external_mono [OF external_quiet_ops(3)]
      external_mono [OF external_quiet_ops(4)] external_mono [OF external_quiet_ops(5)]
      external_mono [OF external_quiet_ops(6)] external_mono [OF external_quiet_ops(7)]
      external_mono [OF external_quiet_ops(8)] external_call external_sleep
      simp: get_workload_def remove_workload_def unpause_workload_def pause_workload_def stop_workload_def ensure_network_def)

text \<open>An external step in a sequence; on an exception only the assertion about the flags stays.\<close>

lemma control_external:
  assumes "external (\<lambda>_. True) m"
  shows "valid (control P a b) m (\<lambda>_. control P a b) (\<lambda>_. control anything a b)"
  by (rule control_weaken [OF external_control [OF assms]]) auto

lemmas control_ops = external_any_ops [THEN control_external]

lemma control_ensure_running:
  "valid (control (all_in ds {STARTING}) a b) (ensure_container_running env strategy m)
     (\<lambda>_. control (all_in (ds @ [m]) {STARTING}) a b) (\<lambda>_. control anything a b)"
proof -
  let ?I = "control (all_in ds {STARTING}) a b" and ?E = "\<lambda>_ :: exn. control anything a b"
  have set: "valid ?I (set_state (md_container_name m) STARTING) (\<lambda>_. control (all_in (ds @ [m]) {STARTING}) a b) ?E"
    by (rule control_set_state) (simp add: all_in_set_snoc)
  have first: "valid ?I (set_state (md_container_name m) STARTING) (\<lambda>_. ?I) ?E"
    by (rule control_set_state) (simp add: all_in_set)
  have ray: "valid ?I (if md_tensor_parallel_size m \<ge> 2
              then bind (verify_ray_cluster_ready env 2) (\<lambda>ready.
                if \<not> ready then seq (set_state (md_container_name m) ERROR) (throw x) else ret ())
              else ret ()) (\<lambda>_. ?I) ?E" for x
    by (intro valid_if valid_bind [OF control_ops(2)] valid_bind [OF control_set_state [where Q = anything]] control_throw)
       (auto intro!: hoare)
  have workload: "valid ?I (case w of
             Some wl \<Rightarrow>
               (if wl_status wl = ''paused'' \<and> strategy = PAUSE_UNPAUSE then unpause_workload env n
                else if wl_status wl \<in> {''exited'', ''created'', ''dead''}
                  then seq (remove_workload env n) (create_and_start env m)
                else if wl_status wl = ''running'' then ensure_network env n
                else seq (remove_workload env n) (create_and_start env m))
           | None \<Rightarrow> create_and_start env m) (\<lambda>_. ?I) ?E" for w n
    by (intro valid_option valid_if control_ops control_create_and_start valid_bind [OF control_ops(9)])
  show ?thesis
    unfolding ensure_container_running_def Let_def
    by (intro valid_bind [OF first] valid_if valid_bind [OF control_ops(1)] valid_bind [OF control_ops(3)]
        valid_bind [OF ray] valid_bind [OF control_ops(4)] set valid_bind [OF valid_bind [OF control_ops(8) workload]])
qed

text \<open>The waiting loop, by its own induction: a normal return records \<open>READY\<close>, an exception
  changes no recorded state.\<close>

lemma external_probe: "external no_container_call (probe_ready env m)"
  unfolding probe_ready_def get_workload_def by (intro ext_intro external_quiet_ops) simp_all

lemma wait_ready_result:
  "wait_ready env start tmo m s = (r, s') \<Longrightarrow>
     os_active s' = os_active s \<and> os_swapping s' = os_swapping s \<and>
     os_states s' = (case r of Inr _ \<Rightarrow> dict_set (os_states s) (md_container_name m) READY | Inl _ \<Rightarrow> os_states s)"
proof (induction env start tmo m s rule: wait_ready.induct)
  case (1 env start tmo m s)
  have probe: "same_control s (snd (probe_ready env m s))" for s
    using external_probe [of env m] by (simp add: external_def)
  have sleep: "same_control s (snd (sleep env 1 s))" for s
    using external_any_ops(15) [of env 1] by (simp add: external_def)
  show ?case
    using 1 probe [of s] sleep [of "snd (probe_ready env m s)"] 1(2) [unfolded wait_ready.simps [of env start tmo m s]]
    by (auto simp: same_control_def set_state_def modify_def split: if_splits prod.splits sum.splits bool.splits)
qed

lemma keeps_wait_ready:
  assumes "keeps (probe_ready env m) I" "keeps (sleep env 1) I" "keeps (set_state (md_container_name m) READY) I"
  shows "keeps (wait_ready env start tmo m) I"
proof -
  have "I (snd (wait_ready env start tmo m s))" if "I s" for s
    using assms that
  proof (induction env start tmo m s rule: wait_ready.induct)
    case (1 env start tmo m s)
    have probe: "I (snd (probe_ready env m s))" using 1 by (auto simp: keeps_iff)
    have sleep: "I s2" if "I s1" "sleep env 1 s1 = (r, s2)" for r s1 s2
      using 1(3) that by (auto simp: keeps_iff dest!: spec [of _ s1])
    have set: "I (snd (set_state (md_container_name m) READY s1))" if "I s1" for s1
      using 1(4) that by (simp add: keeps_iff)
    show ?case
      using 1(1,2,3,4,5) probe by (subst wait_ready.simps) (auto split: prod.splits sum.splits bool.splits simp: set dest: sleep [unfolded One_nat_def])
  qed
  then show ?thesis by (simp add: keeps_iff)
qed

lemma control_wait_ready:
  "valid (control (\<lambda>st. all_in ms {STARTING, READY} st \<and> all_in ds {READY} st) a b) (wait_ready env start tmo m)
     (\<lambda>_. control (\<lambda>st. all_in ms {STARTING, READY} st \<and> all_in (ds @ [m]) {READY} st) a b)
     (\<lambda>_. control (all_in ms {STARTING, READY}) a b)"
  unfolding valid_def
  by (auto split: prod.splits sum.splits dest!: wait_ready_result simp: all_in_set all_in_set_snoc)

lemma control_wait_all:
  "valid (control (all_in ms {STARTING}) a b) (wait_all_ready env ms tmo)
     (\<lambda>_. control (all_in ms {READY}) a b) (\<lambda>_. control (all_in ms {STARTING, READY}) a b)"
proof -
  let ?I = "\<lambda>ds. control (\<lambda>st. all_in ms {STARTING, READY} st \<and> all_in ds {READY} st) a b"
  have "valid (?I []) (for_each ms (wait_ready env start tmo)) (\<lambda>_. ?I ms) (\<lambda>_. control (all_in ms {STARTING, READY}) a b)" for start
    by (rule valid_for_each_done) (rule control_wait_ready)
  then have "valid (control (all_in ms {STARTING}) a b) (for_each ms (wait_ready env start tmo))
      (\<lambda>_. control (all_in ms {READY}) a b) (\<lambda>_. control (all_in ms {STARTING, READY}) a b)" for start
    by (rule control_weaken) (auto simp: all_in_def)
  then show ?thesis
    unfolding wait_all_ready_def by (rule valid_bind_gets)
qed

lemma control_promote:
  "valid (control (all_in ms {STARTING, READY}) a b) (promote_starting ms)
     (\<lambda>_. control (all_in ms {READY}) a b) (\<lambda>_. control anything a b)"
proof -
  let ?I = "\<lambda>ds. control (\<lambda>st. all_in ms {STARTING, READY} st \<and> all_in ds {READY} st) a b"
  have "valid (?I ds) (bind (gets (\<lambda>s. dict_get (os_states s) (md_container_name m))) (\<lambda>st.
       if st = Some STARTING then set_state (md_container_name m) READY else ret ()))
      (\<lambda>_. ?I (ds @ [m])) (\<lambda>_. control anything a b)" if m: "m \<in> set ms" for ds m
  proof -
    let ?st = "\<lambda>s. dict_get (os_states s) (md_container_name m)"
    have 1: "valid (?I ds) (gets ?st) (\<lambda>st s. ?I ds s \<and> st = ?st s) (\<lambda>_. control anything a b)"
      by (rule hoare) auto
    have 2: "valid (\<lambda>s. ?I ds s \<and> st = ?st s) (set_state (md_container_name m) READY) (\<lambda>_. ?I (ds @ [m])) (\<lambda>_. control anything a b)"
      for st
      unfolding set_state_def by (rule hoare) (auto simp: all_in_set all_in_set_snoc)
    have 3: "valid (\<lambda>s. ?I ds s \<and> st = ?st s) (ret ()) (\<lambda>_. ?I (ds @ [m])) (\<lambda>_. control anything a b)"
      if "st \<noteq> Some STARTING" for st
      using m that by (intro hoare) (fastforce simp: all_in_def)
    show ?thesis by (intro valid_bind [OF 1] valid_if 2 3)
  qed
  then have "valid (?I []) (promote_starting ms) (\<lambda>_. ?I ms) (\<lambda>_. control anything a b)"
    unfolding promote_starting_def by (intro valid_for_each_done) auto
  then show ?thesis by (rule control_weaken) (auto simp: all_in_def)
qed

lemma control_teardown:
  "valid (control anything a b) (teardown_current env strategy preserve preserve_models)
     (\<lambda>_. control anything a b) (\<lambda>_. control anything a b)"
proof -
  have set: "keeps (set_state name x) (control anything a b)" for name x
    by (rule control_set_state)
  have op: "keeps (pause_workload env name) (control anything a b)" "keeps (stop_workload env name) (control anything a b)"
    "keeps (stop_exec_model env m) (control anything a b)" for name m
    by (rule control_ops)+
  have out: "keeps (stop_outgoing env preserve_models m) (control anything a b)" for m
    unfolding stop_outgoing_def by (intro valid_if valid_bind [OF op(3)] set hoare)
  have rec: "keeps (stop_recorded env strategy preserve ns) (control anything a b)" for ns
  proof -
    obtain name st where ns: "ns = (name, st)" by (cases ns)
    have "keeps (handle (if strategy = PAUSE_UNPAUSE \<and> supports_pause (e_backend env)
                          then seq (pause_workload env name) (set_state name PAUSED)
                          else seq (stop_workload env name) (set_state name STOPPED)) (\<lambda>_. ret ())) (control anything a b)"
      by (rule valid_handle [where R = "\<lambda>_. control anything a b"])
         (intro valid_if valid_bind [OF op(1)] valid_bind [OF op(2)] set hoare | assumption)+
    then show ?thesis
      unfolding ns stop_recorded_def prod.case
      by (intro valid_if valid_bind [OF set] valid_option valid_bind [OF op(3)] set hoare) assumption+
  qed
  have outgoing: "keeps (case p of None \<Rightarrow> ret () | Some p \<Rightarrow> for_each (all_models_of p) (stop_outgoing env preserve_models))
      (control anything a b)" for p
    by (intro valid_option valid_for_each out valid_ret)
  show ?thesis
    unfolding teardown_current_def
    by (intro valid_bind_gets valid_bind [OF outgoing] valid_for_each rec)
qed

lemma control_await_vram: "keeps (await_vram env mb n) (control anything a b)"
proof (induction n)
  case 0
  show ?case by (auto intro!: hoare)
next
  case (Suc n)
  show ?case
    unfolding await_vram.simps
    by (intro valid_bind [OF control_ops(15)] valid_bind [OF control_ops(14)] valid_if Suc hoare)
qed

lemma control_ensure_vram: "keeps (ensure_vram_available env mb preserve n pm) (control anything a b)"
  unfolding ensure_vram_available_def
  by (intro valid_bind [OF control_ops(14)] valid_if valid_bind [OF control_teardown] control_await_vram hoare)

text \<open>\<open>_persist_state\<close> never raises, so nothing can fail once the profile is claimed.\<close>

lemma os_error_not_cancelled: "fst (os_error m w) \<noteq> Inl CancelledError"
  by (auto simp: os_error_def ext_bind_def ext_ret_def split: prod.splits sum.splits)

lemma persist_state_total: "\<exists>s'. persist_state env s = (Inr (), s') \<and> same_control s s'"
proof -
  have "same_control s (snd (persist_state env s))"
    using external_any_ops(6) [of env] by (simp add: external_def)
  moreover have "fst (ext_call (CallPersist k) (os_error (e_write_state env k)) s) \<noteq> Inl CancelledError" for k
    using os_error_not_cancelled [of "e_write_state env k" "os_world s"] by (auto simp: ext_call_def split: prod.splits)
  then have "fst (persist_state env s) = Inr ()"
    by (auto simp: persist_state_def bind_def gets_def handle_def ret_def split: option.splits prod.splits sum.splits)
      (metis fst_conv)
  ultimately show ?thesis by (metis prod.collapse)
qed

lemma control_persist: "valid (control P a b) (persist_state env) (\<lambda>_. control P a b) E"
  unfolding valid_def
proof (intro allI impI)
  fix s :: "'a orch"
  assume "control P a b s"
  moreover obtain s' where "persist_state env s = (Inr (), s')" "same_control s s'"
    using persist_state_total by blast
  ultimately show "case persist_state env s of (Inl e, s') \<Rightarrow> E e s' | (Inr x, s') \<Rightarrow> control P a b s'"
    by (simp add: same_control_def)
qed

lemma control_swap_body:
  "valid (control anything a b) (swap_body env key target strategy)
     (\<lambda>r s. r \<and> control (all_in (all_models_of target) {READY}) (Some key) b s) (\<lambda>_. control anything a b)"
proof -
  let ?ms = "all_models_of target" and ?E = "\<lambda>_ :: exn. control anything a b"
  have start: "valid (control anything a b) (for_each ?ms (ensure_container_running env strategy))
      (\<lambda>_. control (all_in ?ms {STARTING}) a b) ?E"
  proof (rule valid_pre [OF valid_for_each_done [where I = "\<lambda>ds. control (all_in ds {STARTING}) a b"]])
    show "valid (control (all_in ds {STARTING}) a b) (ensure_container_running env strategy m)
        (\<lambda>_. control (all_in (ds @ [m]) {STARTING}) a b) ?E" for ds m
      by (rule control_ensure_running)
  qed (simp add: all_in_def)
  have wait: "valid (control (all_in ?ms {STARTING}) a b)
      (handle (wait_all_ready env ?ms tmo) (\<lambda>e. if e = TimeoutError then promote_starting ?ms else throw e))
      (\<lambda>_. control (all_in ?ms {READY}) a b) ?E" for tmo
    by (intro valid_handle [OF control_wait_all] valid_if control_promote control_throw) simp_all
  have claim: "valid (control (all_in ?ms {READY}) a b) (seq (modify (\<lambda>s. s\<lparr>os_active := Some key\<rparr>)) (seq (persist_state env) (ret True)))
      (\<lambda>r s. r \<and> control (all_in ?ms {READY}) (Some key) b s) ?E"
  proof (intro valid_bind)
    let ?R = "control (all_in ?ms {READY})"
    show "valid (?R a b) (modify (\<lambda>s. s\<lparr>os_active := Some key\<rparr>)) (\<lambda>_. ?R (Some key) b) ?E"
      by (rule valid_modify) simp
    show "valid (?R (Some key) b) (persist_state env) (\<lambda>_. ?R (Some key) b) ?E"
      by (rule control_persist)
    show "valid (?R (Some key) b) (ret True) (\<lambda>r s. r \<and> ?R (Some key) b s) ?E"
      by (rule valid_ret) simp
  qed
  have vram: "keeps (if vp_skip_vram_check target then ret () else ensure_vram_available env mb names n mnames)
      (control anything a b)" for mb names n mnames
    by (intro valid_if control_ensure_vram valid_ret)
  show ?thesis
    unfolding swap_body_def Let_def
    by (intro valid_bind [OF control_teardown] valid_bind [OF vram] valid_bind [OF start] valid_bind [OF wait] claim)
qed

lemma switch_profile_skip:
  "os_active s = Some (registry_key (e_catalog env) target) \<Longrightarrow> switch_profile env target False s = (Inr True, s)"
  by (simp add: switch_profile_def bind_def gets_def ret_def Let_def)

lemma switch_profile_run:
  assumes "os_active s \<noteq> Some (registry_key (e_catalog env) target) \<or> force"
    and "swap_body env (registry_key (e_catalog env) target) target (swap_strategy_of env)
      (s\<lparr>os_swapping := True, os_swap_start := os_now s\<rparr>) = (r, s2)"
  shows "switch_profile env target force s =
    (case r of Inl e \<Rightarrow> if e = CancelledError then Inl e else Inr False | Inr ok \<Rightarrow> Inr ok, s2\<lparr>os_swapping := False\<rparr>)"
  using assms
  by (cases r) (auto simp: switch_profile_def bind_def gets_def modify_def finally_do_def handle_def ret_def Let_def)

lemma switch_profile_control:
  assumes "os_active s \<noteq> Some (registry_key (e_catalog env) target) \<or> force"
    and "switch_profile env target force s = (r, s')"
  shows "if r = Inr True then control (all_in (all_models_of target) {READY}) (Some (registry_key (e_catalog env) target)) False s'
    else r \<in> {Inr False, Inl CancelledError} \<and> control anything (os_active s) False s'"
proof -
  let ?key = "registry_key (e_catalog env) target"
  define s1 where "s1 = s\<lparr>os_swapping := True, os_swap_start := os_now s\<rparr>"
  obtain r2 s2 where body: "swap_body env ?key target (swap_strategy_of env) s1 = (r2, s2)"
    by (cases "swap_body env ?key target (swap_strategy_of env) s1")
  have pre: "control anything (os_active s) True s1" by (simp add: s1_def)
  have res: "r = (case r2 of Inl e \<Rightarrow> if e = CancelledError then Inl e else Inr False | Inr b \<Rightarrow> Inr b)"
    "s' = s2\<lparr>os_swapping := False\<rparr>"
    using switch_profile_run [OF assms(1) body [unfolded s1_def]] assms(2) by simp_all
  show ?thesis
  proof (cases r2)
    case (Inl e)
    then have "control anything (os_active s) True s2"
      using validE [OF control_swap_body pre] body by fastforce
    then show ?thesis using Inl res by auto
  next
    case (Inr ok)
    then have "ok \<and> control (all_in (all_models_of target) {READY}) (Some ?key) True s2"
      using validD [OF control_swap_body pre] body by fastforce
    then show ?thesis using Inr res by auto
  qed
qed

text \<open>C4: the outcome of a swap.  \<open>switch_profile\<close> raises nothing, unless its task is cancelled, and
  never leaves a swap flagged.  If it reports success the requested profile is active; unless it
  was active before and the call not forced, every model of the profile is recorded
  \<open>READY\<close>.  If it reports failure or is cancelled the active profile is the one before.\<close>

theorem switch_profile_outcome:
  assumes "\<not> os_swapping s" "switch_profile env target force s = (r, s')"
  shows "\<not> os_swapping s' \<and> (\<forall>e. r = Inl e \<longrightarrow> e = CancelledError) \<and>
    os_active s' = (if r = Inr True then Some (registry_key (e_catalog env) target) else os_active s) \<and>
    (r = Inr True \<longrightarrow> s' = s \<and> \<not> force \<or> (\<forall>m \<in> set (all_models_of target). is_model_ready s' (md_container_name m)))"
proof (cases "os_active s = Some (registry_key (e_catalog env) target) \<and> \<not> force")
  case True
  then have "r = Inr True" "s' = s" using assms(2) switch_profile_skip [of s env target] by simp_all
  with True assms(1) show ?thesis by simp
next
  case False
  then have "os_active s \<noteq> Some (registry_key (e_catalog env) target) \<or> force" by blast
  from switch_profile_control [OF this assms(2)] show ?thesis
    by (auto simp: all_in_def is_model_ready_def split: if_splits)
qed

text \<open>A world in which everything works, for the witnesses: every workload runs, every probe
  answers 200, every call takes a millisecond.\<close>

definition sim_backend :: "unit backend" where
  "sim_backend =
     \<lparr>supports_pause = True,
      be_get_workload = (\<lambda>n w. (Inr (Some \<lparr>wl_name = n, wl_status = ''running''\<rparr>), 1, w)),
      be_create_and_start = (\<lambda>a w. (Inr (), 1, w)),
      be_stop_workload = (\<lambda>n t w. (Inr (), 1, w)),
      be_remove_workload = (\<lambda>n w. (Inr (), 1, w)),
      be_pause_workload = (\<lambda>n w. (Inr (), 1, w)),
      be_unpause_workload = (\<lambda>n w. (Inr (), 1, w)),
      be_exec_in_workload = (\<lambda>n c w. (Inr \<lparr>ex_exit_code = 0, ex_output = ''2''\<rparr>, 1, w)),
      be_list_workloads = (\<lambda>f w. (Inr [], 1, w)),
      be_ensure_network = (\<lambda>n w. (Inr (), 1, w)),
      be_resolve_hostname = (\<lambda>n e. n)\<rparr>"

definition sim_env :: "catalog \<Rightarrow> (string \<Rightarrow> nat) \<Rightarrow> unit env" where
  "sim_env cat status =
     \<lparr>e_backend = sim_backend, e_cfg = default_settings, e_catalog = cat,
      e_ssh = (\<lambda>argv w. (Inr (0, ''true'', []), 1, w)),
      e_http_status = (\<lambda>url w. (Inr (status url), 1, w)),
      e_query_gpus = (\<lambda>w. (Inr empty_vram_report, 1, w)),
      e_sleep = (\<lambda>n w. (Inr (), 0, w)),
      e_write_state = (\<lambda>k w. (Inr (), 1, w))\<rparr>"

abbreviation sim_gateway :: "unit env" where
  "sim_gateway \<equiv> sim_env (gateway_catalog ''vllm_node'') (\<lambda>_. 200)"

lemmas eff_simps = bind_def ret_def throw_def gets_def modify_def handle_def finally_do_def ext_call_def
  set_state_def sleep_def

text \<open>A catalog with one profile whose model is an ordinary container.\<close>

definition box_model :: model_definition where
  "box_model = model_defaults ''m'' ''img'' ''box'' 1000 8000"

definition box_profile :: vram_profile where
  "box_profile = mk_profile CREATIVE ''box'' [box_model] [] [(''chat'', box_model)] True"

definition box_catalog :: catalog where
  "box_catalog = \<lparr>PROFILES = [(''box'', box_profile)], ALL_MODELS = [box_model], DEFAULT_PROFILE = box_profile\<rparr>"

lemma box_simps [simp]:
  "md_name box_model = ''m''" "md_container_name box_model = ''box''" "md_engine box_model = ''vllm''"
  "md_port box_model = 8000" "vp_primary_models box_profile = [box_model]" "vp_secondary_models box_profile = []"
  "vp_skip_vram_check box_profile = True" "registry_key box_catalog box_profile = ''box''"
  "PROFILES box_catalog = [(''box'', box_profile)]" "ALL_MODELS box_catalog = [box_model]"
  by (simp_all add: box_model_def box_profile_def box_catalog_def model_defaults_def registry_key_def)

lemma sim_swap:
  "switch_profile (sim_env box_catalog (\<lambda>_. 200)) box_profile False (orch_init ()) =
     (Inr True, \<lparr>os_states = [(''box'', READY)], os_active = Some ''box'', os_swapping = False, os_swap_start = 0,
        os_ray = None, os_ray_profile = None, os_ray_at = 0, os_world = (), os_now = 5,
        os_calls = [CallGet ''box'', CallNetwork ''box'', CallGet ''box'', CallHealth ''http://box:8000/health'',
          CallPersist ''box'']\<rparr>)"
proof -
  let ?env = "sim_env box_catalog (\<lambda>_. 200)"
  have [simp]: "e_catalog ?env = box_catalog" "e_backend ?env = sim_backend" "e_cfg ?env = default_settings"
    "e_http_status ?env = (\<lambda>url w. (Inr 200, 1, w))" "e_write_state ?env = (\<lambda>k w. (Inr (), 1, w))"
    by (simp_all add: sim_env_def)
  have [simp]: "be_get_workload sim_backend n w = (Inr (Some \<lparr>wl_name = n, wl_status = ''running''\<rparr>), 1, w)"
    "be_ensure_network sim_backend n w = (Inr (), 1, w)" "be_resolve_hostname sim_backend n e = n" for n w e
    by (simp_all add: sim_backend_def)
  have [simp]: "show_nat 8000 = ''8000''" by (simp add: str_eval)
  have engines: "''vllm'' \<notin> set EXEC_ENGINES" by (simp add: EXEC_ENGINES_def)
  have "teardown_current ?env st pr pm s = (Inr (), s)" if "os_states s = []" "os_active s = None" for st pr pm s
    using that by (simp add: teardown_current_def eff_simps)
  moreover have "ensure_container_running ?env st box_model s = (Inr (), s\<lparr>os_states := dict_set (os_states s) ''box'' STARTING,
      os_now := os_now s + 2, os_calls := os_calls s @ [CallGet ''box'', CallNetwork ''box'']\<rparr>)"
    if "os_states s = []" for st s
    using that by (simp add: ensure_container_running_def get_workload_def ensure_network_def eff_simps Let_def)
  moreover have "wait_ready ?env k 600 box_model s = (Inr (), s\<lparr>os_states := dict_set (os_states s) ''box'' READY,
      os_now := os_now s + 2, os_calls := os_calls s @ [CallGet ''box'', CallHealth ''http://box:8000/health'']\<rparr>)"
    if "os_now s = k" for s k
    using that engines
    by (subst wait_ready.simps) (simp add: probe_ready_def get_workload_def check_vllm_health_def health_url_def eff_simps Let_def)
  ultimately show ?thesis
    by (simp add: switch_profile_def swap_body_def wait_all_ready_def persist_state_def os_error_def ext_bind_def ext_ret_def
        eff_simps Let_def orch_init_def default_settings_def)
qed

theorem switch_profile_outcome_witness:
  "is_model_ready (snd (switch_profile (sim_env box_catalog (\<lambda>_. 200)) box_profile False (orch_init ()))) ''box''"
proof -
  have "\<not> os_swapping (orch_init ())" by (simp add: orch_init_def)
  from switch_profile_outcome [OF this sim_swap] show ?thesis by (simp add: sim_swap is_model_ready_def)
qed

end
