(* ===== verification/Lifecycle.thy ===== *)
theory Lifecycle
  imports Swap
begin

text \<open>
  The workloads across startup, swaps and status checks: containers are left alone, outgoing
  models are stopped before anything starts, ranks start in order, and waiting is bounded.
\<close>

section \<open>Containers are left alone\<close>

text \<open>When every model of the catalog is exec-managed, a workload the object believes to be up is
  the container of such a model, and no operation of the gateway's own lifecycle acts on a
  container.\<close>

definition exec_catalog :: "catalog \<Rightarrow> bool" where
  "exec_catalog cat = (list_all exec_managed (ALL_MODELS cat) \<and>
     (\<forall>p \<in> set (map snd (PROFILES cat)). set (all_models_of p) \<subseteq> set (ALL_MODELS cat)))"

lemma exec_gateway_catalog: "exec_catalog (gateway_catalog c)"
  by (simp add: exec_catalog_def profile_defs) (simp add: EXEC_ENGINES_def)

definition up :: "container_state \<Rightarrow> bool" where
  "up st = (st = READY \<or> st = STARTING)"

definition up_exec :: "'w env \<Rightarrow> (string, container_state) dict \<Rightarrow> bool" where
  "up_exec env st = (\<forall>(n, x) \<in> set st. up x \<longrightarrow> (\<exists>m. model_of_container env n = Some m \<and> exec_managed m))"

text \<open>The assertion of this section: \<open>up_exec\<close>, and nothing but calls that leave containers
  alone has been added to the trace \<open>base\<close>.\<close>

definition untouched :: "'w env \<Rightarrow> call list \<Rightarrow> 'w orch \<Rightarrow> bool" where
  "untouched env base s = (up_exec env (os_states s) \<and> (\<exists>cs. os_calls s = base @ cs \<and> list_all no_container_call cs))"

lemma untouched_external: "external no_container_call m \<Longrightarrow> keeps m (untouched env base)"
  by (rule external_valid) (auto simp: same_control_def adds_def untouched_def)

lemma untouched_set_down: "\<not> up x \<Longrightarrow> keeps (set_state n x) (untouched env base)"
  using set_dict_set unfolding set_state_def
  by (intro hoare) (fastforce simp: untouched_def up_exec_def)

lemma untouched_set_exec:
  "model_of_container env n = Some m \<Longrightarrow> exec_managed m \<Longrightarrow> keeps (set_state n x) (untouched env base)"
  using set_dict_set unfolding set_state_def
  by (intro hoare) (fastforce simp: untouched_def up_exec_def)

lemma model_of_container_exec:
  assumes "exec_catalog (e_catalog env)" "m \<in> set (ALL_MODELS (e_catalog env))"
  shows "exec_managed m" "\<exists>m'. model_of_container env (md_container_name m) = Some m' \<and> exec_managed m'"
proof -
  show "exec_managed m" using assms by (auto simp: exec_catalog_def list_all_iff)
  obtain m' where m': "model_of_container env (md_container_name m) = Some m'"
    using assms(2) by (cases "model_of_container env (md_container_name m)") (auto simp: model_of_container_def find_None_iff)
  then have "m' \<in> set (ALL_MODELS (e_catalog env))"
    unfolding model_of_container_def by (rule find_SomeD [THEN conjunct2])
  with m' show "\<exists>m'. model_of_container env (md_container_name m) = Some m' \<and> exec_managed m'"
    using assms(1) by (auto simp: exec_catalog_def list_all_iff)
qed

lemma untouched_ensure_running:
  assumes "exec_catalog (e_catalog env)" "m \<in> set (ALL_MODELS (e_catalog env))"
  shows "keeps (ensure_container_running env strategy m) (untouched env base)"
proof -
  obtain m' where m': "model_of_container env (md_container_name m) = Some m'" "exec_managed m'"
    using model_of_container_exec [OF assms] by blast
  have set: "keeps (set_state (md_container_name m) x) (untouched env base)" for x
    by (rule untouched_set_exec [OF m'])
  have engine: "md_engine m = ''spark_cluster'' \<or> md_engine m = ''ray_vllm''"
    using model_of_container_exec(1) [OF assms] by (auto simp: EXEC_ENGINES_def)
  show ?thesis
    unfolding ensure_container_running_def Let_def
    by (intro keeps_bind set valid_if untouched_external [OF external_quiet_ops(2)]
          untouched_external [OF external_quiet_ops(4)] untouched_external [OF external_quiet_ops(5)]
          untouched_external [OF external_quiet_ops(3)] untouched_external [OF external_throw]
          untouched_external [OF external_ret])
       (use engine in auto)
qed

lemma untouched_teardown:
  assumes "exec_catalog (e_catalog env)"
  shows "keeps (teardown_current env strategy preserve preserve_models) (untouched env base)"
proof -
  have stop: "keeps (stop_exec_model env m) (untouched env base)" for m
    by (rule untouched_external [OF external_quiet_ops(8)])
  have set: "keeps (set_state n x) (untouched env base)" if "\<not> up x" for n x
    using that by (rule untouched_set_down)
  have ret: "keeps (ret ()) (untouched env base)" by (rule untouched_external [OF external_ret])
  have outgoing: "keeps (case p of None \<Rightarrow> ret () | Some p \<Rightarrow> for_each (all_models_of p) (stop_outgoing env preserve_models))
      (untouched env base)" for p
    unfolding stop_outgoing_def
    by (intro valid_option valid_for_each valid_if valid_bind [OF stop] set ret) (simp add: up_def)
  have recorded: "keeps (stop_recorded env strategy preserve ns) (untouched env base)"
    if st: "up_exec env st" "ns \<in> set st" for ns st
  proof -
    obtain n x where ns: "ns = (n, x)" by (cases ns)
    show ?thesis
    proof (cases "up x")
      case True
      then obtain m where m: "model_of_container env n = Some m" "exec_managed m"
        using st by (auto simp: up_exec_def ns)
      have "keeps (set_state n STOPPING) (untouched env base)" "keeps (set_state n STOPPED) (untouched env base)"
        by (rule set, simp add: up_def)+
      with m stop ret show ?thesis
        unfolding ns stop_recorded_def prod.case by (auto intro!: valid_if valid_bind)
    next
      case False
      with ret show ?thesis unfolding ns stop_recorded_def prod.case by (auto simp: up_def)
    qed
  qed
  have "valid (\<lambda>s. untouched env base s \<and> items = os_states s) (for_each items (stop_recorded env strategy preserve))
      (\<lambda>_. untouched env base) (\<lambda>_. untouched env base)" for items
  proof (cases "up_exec env items")
    case True
    then have "keeps (for_each items (stop_recorded env strategy preserve)) (untouched env base)"
      by (intro valid_for_each recorded)
    then show ?thesis by (rule valid_pre) simp
  next
    case False
    show ?thesis by (rule valid_pre [OF valid_false]) (use False in \<open>auto simp: untouched_def\<close>)
  qed
  then have recorded_all: "keeps (bind (gets os_states) (\<lambda>items. for_each items (stop_recorded env strategy preserve))) (untouched env base)"
    by (intro valid_bind [OF valid_gets [where Q = "\<lambda>items s. untouched env base s \<and> items = os_states s"]]) auto
  show ?thesis
    unfolding teardown_current_def by (rule valid_bind_gets, rule valid_bind [OF outgoing recorded_all])
qed

lemma untouched_any: "external no_container_call m \<Longrightarrow> keeps m (untouched env base)"
  by (rule untouched_external)

lemma untouched_modify: "(\<And>s. os_states (f s) = os_states s \<and> os_calls (f s) = os_calls s) \<Longrightarrow> keeps (modify f) (untouched env base)"
  by (intro hoare) (simp add: untouched_def)

lemma untouched_await_vram: "keeps (await_vram env mb n) (untouched env base)"
proof (induction n)
  case 0
  show ?case by (auto intro!: hoare)
next
  case (Suc n)
  show ?case
    unfolding await_vram.simps
    by (intro keeps_bind untouched_any [OF external_sleep] untouched_any [OF external_call] valid_if Suc
        untouched_any [OF external_ret]) simp_all
qed

lemma untouched_ensure_vram:
  "exec_catalog (e_catalog env) \<Longrightarrow> keeps (ensure_vram_available env mb preserve n pm) (untouched env base)"
  unfolding ensure_vram_available_def
  by (intro keeps_bind untouched_any [OF external_call] valid_if untouched_teardown untouched_await_vram
      untouched_any [OF external_ret]) simp_all

lemma untouched_set_model:
  assumes "exec_catalog (e_catalog env)" "m \<in> set (ALL_MODELS (e_catalog env))"
  shows "keeps (set_state (md_container_name m) x) (untouched env base)"
  using model_of_container_exec [OF assms] by (blast intro: untouched_set_exec)

lemma untouched_swap_body:
  assumes cat: "exec_catalog (e_catalog env)" and target: "set (all_models_of target) \<subseteq> set (ALL_MODELS (e_catalog env))"
  shows "keeps (swap_body env key target strategy) (untouched env base)"
proof -
  let ?ms = "all_models_of target"
  have model: "m \<in> set (ALL_MODELS (e_catalog env))" if "m \<in> set ?ms" for m
    using that target by blast
  have wait: "keeps (wait_all_ready env ?ms tmo) (untouched env base)" for tmo
    unfolding wait_all_ready_def
    by (intro valid_bind_gets valid_for_each keeps_wait_ready untouched_any [OF external_probe]
        untouched_any [OF external_sleep] untouched_set_model [OF cat] model) simp_all
  have promote: "keeps (promote_starting ?ms) (untouched env base)"
    unfolding promote_starting_def
    by (intro valid_for_each valid_bind_gets valid_if untouched_set_model [OF cat] model untouched_any [OF external_ret])
  show ?thesis
    unfolding swap_body_def Let_def
    by (intro keeps_bind keeps_handle valid_if valid_for_each untouched_teardown [OF cat] untouched_ensure_vram [OF cat]
        untouched_ensure_running [OF cat] model wait promote untouched_modify untouched_any [OF external_ret]
        untouched_any [OF external_throw] untouched_any [OF external_quiet_ops(7)]) simp_all
qed

lemma untouched_switch:
  assumes "exec_catalog (e_catalog env)" "set (all_models_of target) \<subseteq> set (ALL_MODELS (e_catalog env))"
  shows "keeps (switch_profile env target force) (untouched env base)"
proof -
  have flag: "untouched env base (s\<lparr>os_swapping := False\<rparr>) = untouched env base s" for s
    by (simp add: untouched_def)
  have "keeps (finally_do (handle (swap_body env key target strategy) (\<lambda>_. ret False))
      (\<lambda>s. s\<lparr>os_swapping := False\<rparr>)) (untouched env base)" for key strategy
    by (rule valid_finally, unfold flag)
       (intro keeps_handle untouched_swap_body [OF assms] untouched_any [OF external_ret])
  then show ?thesis
    unfolding switch_profile_def Let_def
    by (intro valid_bind_gets valid_if keeps_bind untouched_modify untouched_any [OF external_ret]) simp_all
qed

text \<open>Adoption: the containers seen are all recorded as exec-managed.\<close>

definition scanned :: "scan \<Rightarrow> bool" where
  "scanned sc = (set (dict_keys (sc_running sc)) \<subseteq> set (sc_exec sc))"

lemma scanned_exec:
  "scanned sc \<Longrightarrow> scanned (sc\<lparr>sc_exec := n # sc_exec sc\<rparr>)"
  "scanned sc \<Longrightarrow> scanned (sc\<lparr>sc_running := dict_set (sc_running sc) n st, sc_exec := n # sc_exec sc, sc_healthy := h\<rparr>)"
  by (auto simp: scanned_def dict_keys_set)

lemma scan_exec:
  assumes "\<And>m. m \<in> set ms \<Longrightarrow> exec_managed m" "scanned sc"
  shows "valid (untouched env base) (scan_models env ms sc)
    (\<lambda>sc s. scanned sc \<and> untouched env base s) (\<lambda>_. untouched env base)"
  using assms
proof (induction ms arbitrary: sc)
  case Nil
  then show ?case by (auto intro!: hoare)
next
  case (Cons m ms)
  have probe: "keeps (check_vllm_health env n p e) (untouched env base)" for n p e
    by (rule untouched_any [OF external_quiet_ops(6)])
  have "exec_managed m" using Cons.prems by simp
  then show ?case
    unfolding scan_models.simps Let_def using Cons.prems
    by (auto intro!: valid_bind [OF probe] Cons.IH intro: scanned_exec)
qed

lemma untouched_detect:
  assumes cat: "exec_catalog (e_catalog env)"
  shows "keeps (detect_and_adopt env) (untouched env base)"
proof -
  let ?scan = "\<lparr>sc_running = [], sc_exec = [], sc_healthy = []\<rparr>"
  have scan: "valid (untouched env base) (scan_models env (ALL_MODELS (e_catalog env)) ?scan)
    (\<lambda>sc s. scanned sc \<and> untouched env base s) (\<lambda>_. untouched env base)"
    by (rule scan_exec) (use cat in \<open>auto simp: exec_catalog_def list_all_iff scanned_def\<close>)
  have adopt: "keeps (adopt_states sc (all_models_of p)) (untouched env base)"
    if "find P (PROFILES (e_catalog env)) = Some (k, p)" for sc P k p
  proof -
    have "p \<in> set (map snd (PROFILES (e_catalog env)))"
      using that by (auto dest!: find_SomeD intro: image_eqI [of _ snd "(k, p)"])
    then have "m \<in> set (ALL_MODELS (e_catalog env))" if "m \<in> set (all_models_of p)" for m
      using cat that by (auto simp: exec_catalog_def)
    then show ?thesis unfolding adopt_states_def by (intro valid_for_each untouched_set_model [OF cat])
  qed
  have orphan: "keeps (for_each (filter P (dict_keys (sc_running sc))) (remove_orphan env sc)) (untouched env base)"
    if "scanned sc" for P sc
    using that unfolding remove_orphan_def
    by (intro valid_for_each) (auto intro!: untouched_any external_option external_quiet_ops(8) external_ret simp: scanned_def)
  show ?thesis
    unfolding detect_and_adopt_def
  proof (rule valid_bind [OF scan])
    fix sc
    show "valid (\<lambda>s. scanned sc \<and> untouched env base s)
       (if sc_running sc = [] then ret None
       else (case find (\<lambda>(k, p). adoptable sc p) (PROFILES (e_catalog env)) of
           None \<Rightarrow> ret None
         | Some (key, p) \<Rightarrow>
             seq (modify (\<lambda>s. s\<lparr>os_active := Some key\<rparr>))
             (seq (adopt_states sc (all_models_of p))
             (seq (for_each (filter (\<lambda>n. n \<notin> set (map md_container_name (all_models_of p))) (dict_keys (sc_running sc)))
                     (remove_orphan env sc))
             (seq (persist_state env) (ret (Some key)))))))
       (\<lambda>_. untouched env base) (\<lambda>_. untouched env base)"
    proof (cases "scanned sc")
      case True
      show ?thesis
        by (rule valid_pre [where P' = "untouched env base"])
           (auto intro!: keeps_bind untouched_modify adopt orphan [OF True] untouched_any [OF external_quiet_ops(7)]
              untouched_any [OF external_ret] split: option.splits)
    qed simp
  qed
qed

lemma untouched_cleanup:
  "(\<And>m. m \<in> set ms \<Longrightarrow> exec_managed m) \<Longrightarrow> keeps (cleanup_models env ms b) (untouched env base)"
proof (induction ms arbitrary: b)
  case Nil
  show ?case by (simp add: untouched_any external_ret)
next
  case (Cons m ms)
  have "external no_container_call (stop_spark_serve env m)" "external no_container_call (kill_all_ray_vllm env)"
    by (rule external_mono [OF external_stop_spark], erule stop_call_no_container)
       (rule external_mono [OF external_kill_all [of "e_cfg env"]], erule stop_call_no_container)
  moreover have "md_engine m = ''spark_cluster'' \<or> md_engine m = ''ray_vllm''"
    using Cons.prems [of m] by (auto simp: EXEC_ENGINES_def)
  moreover have "keeps (cleanup_models env ms b) (untouched env base)" for b
    by (rule Cons.IH) (use Cons.prems in simp)
  ultimately show ?case
    unfolding cleanup_models.simps
    by (auto intro!: valid_if keeps_bind untouched_any [OF external_ret] intro: untouched_any)
qed

lemma external_check_clusters: "external no_container_call (check_clusters env head gs)"
  by (induction env head gs rule: check_clusters.induct)
     (auto simp: Let_def intro!: external_bind external_if external_ret external_quiet_ops(1))

lemma external_check_ray: "external no_container_call (check_ray_requirement env)"
  unfolding check_ray_requirement_def Let_def
  by (intro ext_intro external_find_ray_head external_check_clusters) simp

lemma untouched_refresh: "keeps (refresh_ray_status env) (untouched env base)"
  unfolding refresh_ray_status_def
  by (intro keeps_bind untouched_any external_check_ray external_ret untouched_modify) simp

text \<open>What the gateway does with its orchestrator on its own account: adopt or clean up at
  startup, swap to a profile of the catalog, and look at the Ray clusters.\<close>

inductive lifecycle :: "'w env \<Rightarrow> 'w orch \<Rightarrow> 'w orch \<Rightarrow> bool" for env where
  life_adopt: "lifecycle env s (snd (detect_and_adopt env s))"
| life_cleanup: "lifecycle env s (snd (cleanup_orphaned_containers env s))"
| life_swap: "p \<in> set (map snd (PROFILES (e_catalog env))) \<Longrightarrow> lifecycle env s (snd (switch_profile env p force s))"
| life_refresh: "lifecycle env s (snd (refresh_ray_status env s))"

lemma untouched_lifecycle:
  assumes "lifecycle env s t" "exec_catalog (e_catalog env)" "untouched env base s"
  shows "untouched env base t"
  using assms
proof (cases rule: lifecycle.cases)
  case life_cleanup
  have "keeps (cleanup_orphaned_containers env) (untouched env base)"
    unfolding cleanup_orphaned_containers_def
    by (rule untouched_cleanup) (use assms(2) in \<open>auto simp: exec_catalog_def list_all_iff\<close>)
  with life_cleanup assms show ?thesis by (simp add: keeps_iff)
next
  case (life_swap p force)
  then have "set (all_models_of p) \<subseteq> set (ALL_MODELS (e_catalog env))"
    using assms(2) by (auto simp: exec_catalog_def)
  from untouched_switch [OF assms(2) this, of base force] show ?thesis
    using life_swap assms(3) by (simp add: keeps_iff)
next
  case life_adopt
  with untouched_detect [OF assms(2), of base] assms(3) show ?thesis by (simp add: keeps_iff)
next
  case life_refresh
  with untouched_refresh [of env base] assms(3) show ?thesis by (simp add: keeps_iff)
qed

interpretation life: transition_system "\<lambda>s. s = orch_init w" "lifecycle env"
    "\<lambda>s. exec_catalog (e_catalog env) \<longrightarrow> untouched env [] s" for w :: 'w and env
proof unfold_locales
  show "exec_catalog (e_catalog env) \<longrightarrow> untouched env [] s" if "s = orch_init w" for s
    using that by (simp add: untouched_def up_exec_def orch_init_def)
qed (blast intro: untouched_lifecycle)

text \<open>C11: containers are left alone.  If every model of the catalog runs inside a container that
  is managed elsewhere, as in the gateway's catalog, then in every history of startups, swaps
  and status checks the gateway never creates, stops, removes, pauses or unpauses a container,
  and a workload it records as up is always the container of such a model.\<close>

theorem containers_left_alone:
  assumes "exec_catalog (e_catalog env)" "reach (\<lambda>s. s = orch_init w) (lifecycle env) s"
  shows "list_all no_container_call (os_calls s) \<and> up_exec env (os_states s)"
  using life.reach_inv [OF assms(2)] assms(1) by (simp add: untouched_def)

theorem containers_left_alone_witness:
  "let s = snd (switch_profile sim_gateway (PROFILE_QWEN38 ''vllm_node'') True (orch_init ()))
   in list_all no_container_call (os_calls s) \<and> up_exec sim_gateway (os_states s)"
proof -
  have cat: "e_catalog sim_gateway = gateway_catalog ''vllm_node''" by (simp add: sim_env_def)
  have step: "lifecycle sim_gateway (orch_init ()) (snd (switch_profile sim_gateway (PROFILE_QWEN38 ''vllm_node'') True (orch_init ())))"
    by (rule life_swap) (simp add: cat)
  have "exec_catalog (e_catalog sim_gateway)" by (simp add: cat exec_gateway_catalog)
  moreover have "reach (\<lambda>s. s = orch_init ()) (lifecycle sim_gateway)
      (snd (switch_profile sim_gateway (PROFILE_QWEN38 ''vllm_node'') True (orch_init ())))"
    using step by (rule reach_step [rotated]) (rule reach_init, simp)
  ultimately show ?thesis unfolding Let_def by (rule containers_left_alone)
qed

end
