(* ===== verification/Serving.thy ===== *)
theory Serving
  imports Swap "HOL-Library.Sublist"
begin

text \<open>
  In which order the ranks of the Spark models are stopped and started, read off the trace of
  external calls.
\<close>

section \<open>Traces of loops\<close>

text \<open>\<open>emits m cs\<close>: the calls of \<open>m\<close> are a prefix of \<open>cs\<close>, and all of \<open>cs\<close>
  on a normal return.\<close>

definition emits :: "('w orch, unit) eff \<Rightarrow> call list \<Rightarrow> bool" where
  "emits m cs = (\<forall>s. \<exists>xs. os_calls (snd (m s)) = os_calls s @ xs \<and> prefix xs cs \<and>
     (fst (m s) = Inr () \<longrightarrow> xs = cs))"

lemma emits_ret: "emits (ret ()) []"
  by (simp add: emits_def ret_def)

lemma emits_seq:
  assumes "emits m cs" "emits n ds"
  shows "emits (seq m n) (cs @ ds)"
  unfolding emits_def
proof
  fix s
  obtain r s1 where m: "m s = (r, s1)" by (cases "m s")
  with assms(1) obtain xs where xs: "os_calls s1 = os_calls s @ xs" "prefix xs cs" "r = Inr () \<longrightarrow> xs = cs"
    by (fastforce simp: emits_def dest: spec [of _ s])
  obtain ys where ys: "os_calls (snd (n s1)) = os_calls s1 @ ys" "prefix ys ds" "fst (n s1) = Inr () \<longrightarrow> ys = ds"
    using assms(2) by (fastforce simp: emits_def dest: spec [of _ s1])
  show "\<exists>xs. os_calls (snd (seq m n s)) = os_calls s @ xs \<and> prefix xs (cs @ ds) \<and>
      (fst (seq m n s) = Inr () \<longrightarrow> xs = cs @ ds)"
  proof (cases r)
    case (Inl e)
    then show ?thesis using m xs by (auto simp: bind_def)
  next
    case (Inr u)
    then show ?thesis using m xs ys by (intro exI [of _ "cs @ ys"]) (auto simp: bind_def)
  qed
qed

lemma emits_for_each:
  "(\<And>x. x \<in> set xs \<Longrightarrow> emits (f x) (c x)) \<Longrightarrow> emits (for_each xs f) (concat (map c xs))"
  by (induction xs) (auto intro: emits_ret emits_seq)

lemma emits_seq_quiet:
  assumes "emits m cs" "\<And>s. os_calls (snd (n s)) = os_calls s"
  shows "emits (seq m n) cs"
proof -
  have "emits n []" by (simp add: emits_def assms(2))
  from emits_seq [OF assms(1) this] show ?thesis by simp
qed

text \<open>The call of one script, if the rank has a host.\<close>

definition rank_calls :: "settings \<Rightarrow> model_definition \<Rightarrow> string \<Rightarrow> nat \<Rightarrow> call list" where
  "rank_calls cfg m script rank = (if rank_reachable cfg rank then [spark_call cfg m script rank] else [])"

lemma exec_script_reachable:
  "fst (exec_shell_script env m script rank s) = Inr () \<Longrightarrow> rank_reachable (e_cfg env) rank"
  by (auto simp: exec_shell_script_def rank_reachable_def Let_def throw_def split: if_splits)

lemma exec_script_calls:
  "os_calls (snd (exec_shell_script env m script rank s)) = os_calls s @ rank_calls (e_cfg env) m script rank"
  by (auto simp: exec_shell_script_def exec_in_workload_def run_on_worker_def rank_calls_def rank_reachable_def
      spark_call_def Let_def ext_call_def bind_def ret_def throw_def split: prod.splits sum.splits)

definition kill_calls :: "settings \<Rightarrow> model_definition \<Rightarrow> call list" where
  "kill_calls cfg m = concat (map (rank_calls cfg m (kill_script m)) [0..<md_cluster_nodes m])"

lemma emits_stop_spark: "emits (stop_spark_serve env m) (kill_calls (e_cfg env) m)"
proof -
  have "os_calls (snd (handle n (\<lambda>_. ret ()) s)) = os_calls (snd (n s))" for n :: "('a orch, unit) eff" and s
    by (auto simp: handle_def ret_def split: prod.splits sum.splits)
  then have "emits (handle (exec_shell_script env m (kill_script m) rank) (\<lambda>_. ret ()))
      (rank_calls (e_cfg env) m (kill_script m) rank)" for rank
    by (simp add: emits_def exec_script_calls)
  then show ?thesis unfolding stop_spark_serve_def kill_calls_def by (intro emits_for_each)
qed

lemma stop_spark_not_raises: "fst (stop_spark_serve env m s) = Inr () \<or> fst (stop_spark_serve env m s) = Inl CancelledError"
proof -
  have step: "fst (handle (exec_shell_script env m (kill_script m) rank) (\<lambda>_. ret ()) s) \<in> {Inr (), Inl CancelledError}" for rank s
    by (auto simp: handle_def ret_def split: prod.splits sum.splits)
  have "fst (for_each xs (\<lambda>rank. handle (exec_shell_script env m (kill_script m) rank) (\<lambda>_. ret ())) s)
      \<in> {Inr (), Inl CancelledError}" for xs s
  proof (induction xs arbitrary: s)
    case (Cons x xs)
    then show ?case using step [of x s] by (auto simp: bind_def split: prod.splits sum.splits)
  qed (simp add: ret_def)
  then show ?thesis unfolding stop_spark_serve_def by auto
qed

section \<open>Starting a model\<close>

text \<open>Steps that all return normally, each in the state the one before left; a loop runs such
  a chain over an initial part of its list, and what stops it is the exception of the next step.\<close>

inductive chain :: "('x \<Rightarrow> ('s, unit) eff) \<Rightarrow> 'x list \<Rightarrow> 's \<Rightarrow> 's \<Rightarrow> bool" for f where
  chain_nil: "chain f [] s s"
| chain_cons: "f x s = (Inr (), s1) \<Longrightarrow> chain f xs s1 s2 \<Longrightarrow> chain f (x # xs) s s2"

lemma for_each_chain:
  assumes "for_each xs f s = (r, s')"
  shows "\<exists>ds rest s2. xs = ds @ rest \<and> chain f ds s s2 \<and>
    (rest = [] \<and> r = Inr () \<and> s' = s2 \<or> (\<exists>x ys e. rest = x # ys \<and> r = Inl e \<and> f x s2 = (Inl e, s')))"
  using assms
proof (induction xs arbitrary: s)
  case Nil
  then show ?case by (auto simp: ret_def intro: chain_nil)
next
  case (Cons x xs)
  obtain r1 s1 where fx: "f x s = (r1, s1)" by (cases "f x s")
  show ?case
  proof (cases r1)
    case (Inl e)
    with Cons.prems fx have "r = Inl e" "s' = s1" by (simp_all add: bind_def)
    with fx Inl show ?thesis
      by (intro exI [of _ "[]"] exI [of _ "x # xs"] exI [of _ s]) (simp add: chain_nil)
  next
    case (Inr u)
    with Cons.prems fx have "for_each xs f s1 = (r, s')" by (simp add: bind_def)
    from Cons.IH [OF this] obtain ds rest s2 where "xs = ds @ rest" "chain f ds s1 s2"
      "rest = [] \<and> r = Inr () \<and> s' = s2 \<or> (\<exists>x ys e. rest = x # ys \<and> r = Inl e \<and> f x s2 = (Inl e, s'))" by blast
    with fx Inr show ?thesis
      by (intro exI [of _ "x # ds"] exI [of _ rest] exI [of _ s2]) (auto intro: chain_cons)
  qed
qed

lemma chain_launch_calls:
  "chain (\<lambda>rank. exec_shell_script env m (script rank) rank) ds s s2 \<Longrightarrow>
     (\<forall>rank \<in> set ds. rank_reachable (e_cfg env) rank) \<and>
     os_calls s2 = os_calls s @ map (\<lambda>rank. spark_call (e_cfg env) m (script rank) rank) ds"
proof (induction rule: chain.induct)
  case (chain_cons rank s s1 ds s2)
  then have "rank_reachable (e_cfg env) rank" by (intro exec_script_reachable [of env m "script rank" rank s]) simp
  with chain_cons exec_script_calls [of env m "script rank" rank s] show ?case by (simp add: rank_calls_def)
qed simp

text \<open>C8: the order of a start.  \<open>_start_spark_serve\<close> first kills every rank of the model, from 0
  upwards; only a cancellation ends it before every kill has been tried.  Then it launches from the
  last worker down to rank 0, each launch after the one before has been accepted, and stops with
  the exception of the first launch that fails: no rank below it is launched, so rank 0 never runs
  before the launch on every worker was accepted.  A normal return means that every rank has a
  host and was launched.\<close>

theorem spark_start_order:
  assumes "build_cmd m = Some args" "start_spark_serve env m s = (r, s')"
    and launch: "launch = (\<lambda>rank. launch_script (e_cfg env) m args rank)"
  shows "\<exists>ks s1. os_calls s1 = os_calls s @ ks \<and> prefix ks (kill_calls (e_cfg env) m) \<and>
    (r = Inl CancelledError \<and> s' = s1 \<or>
     ks = kill_calls (e_cfg env) m \<and>
     (\<exists>ds rest s2. rev [0..<md_cluster_nodes m] = ds @ rest \<and>
        chain (\<lambda>rank. exec_shell_script env m (launch rank) rank) ds s1 s2 \<and>
        (\<forall>rank \<in> set ds. rank_reachable (e_cfg env) rank) \<and>
        os_calls s2 = os_calls s @ kill_calls (e_cfg env) m @ map (\<lambda>rank. spark_call (e_cfg env) m (launch rank) rank) ds \<and>
        (rest = [] \<and> r = Inr () \<and> s' = s2 \<or>
         (\<exists>rank below e. rest = rank # below \<and> r = Inl e \<and>
            exec_shell_script env m (launch rank) rank s2 = (Inl e, s') \<and>
            os_calls s' = os_calls s2 @ rank_calls (e_cfg env) m (launch rank) rank))))"
proof -
  let ?f = "\<lambda>rank. exec_shell_script env m (launch rank) rank"
  obtain r1 s1 where stop: "stop_spark_serve env m s = (r1, s1)" by (cases "stop_spark_serve env m s")
  obtain ks where ks: "os_calls s1 = os_calls s @ ks" "prefix ks (kill_calls (e_cfg env) m)"
      "r1 = Inr () \<Longrightarrow> ks = kill_calls (e_cfg env) m"
    using emits_stop_spark [of env m] stop by (fastforce simp: emits_def dest: spec [of _ s])
  show ?thesis
  proof (cases r1)
    case (Inl e)
    then have "r = Inl CancelledError" "s' = s1"
      using assms(2) stop stop_spark_not_raises [of env m s] by (auto simp: start_spark_serve_def bind_def)
    with ks show ?thesis by blast
  next
    case (Inr u)
    then have "for_each (rev [0..<md_cluster_nodes m]) ?f s1 = (r, s')"
      using assms stop by (simp add: start_spark_serve_def bind_def)
    from for_each_chain [OF this] obtain ds rest s2 where ranks: "rev [0..<md_cluster_nodes m] = ds @ rest"
      and run: "chain ?f ds s1 s2"
      and last: "rest = [] \<and> r = Inr () \<and> s' = s2 \<or> (\<exists>rank below e. rest = rank # below \<and> r = Inl e \<and> ?f rank s2 = (Inl e, s'))"
      by blast
    have stopped: "rest = [] \<and> r = Inr () \<and> s' = s2 \<or>
         (\<exists>rank below e. rest = rank # below \<and> r = Inl e \<and> ?f rank s2 = (Inl e, s') \<and>
            os_calls s' = os_calls s2 @ rank_calls (e_cfg env) m (launch rank) rank)"
      using last exec_script_calls [of env m] by (metis snd_conv)
    have calls: "(\<forall>rank \<in> set ds. rank_reachable (e_cfg env) rank) \<and>
        os_calls s2 = os_calls s @ kill_calls (e_cfg env) m @ map (\<lambda>rank. spark_call (e_cfg env) m (launch rank) rank) ds"
      using chain_launch_calls [OF run] ks Inr by simp
    have all: "ks = kill_calls (e_cfg env) m" using ks(3) Inr by simp
    show ?thesis
      by (rule exI [of _ ks], rule exI [of _ s1], rule conjI [OF ks(1) conjI [OF ks(2)]], rule disjI2, rule conjI [OF all],
          rule exI [of _ ds], rule exI [of _ rest], rule exI [of _ s2]) (use ranks run calls stopped in blast)
  qed
qed

lemma sim_env_simps [simp]:
  "e_backend (sim_env cat h) = sim_backend" "e_cfg (sim_env cat h) = default_settings"
  "e_catalog (sim_env cat h) = cat" "e_ssh (sim_env cat h) = (\<lambda>argv w. (Inr (0, ''true'', []), 1, w))"
  "be_exec_in_workload sim_backend = (\<lambda>n c w. (Inr \<lparr>ex_exit_code = 0, ex_output = ''2''\<rparr>, 1, w))"
  "SPARK_WORKER_HOSTS default_settings = [''192.168.200.13'']"
  by (simp_all add: sim_env_def sim_backend_def default_settings_def)

lemma sim_exec_script:
  "rank_reachable default_settings rank \<Longrightarrow> fst (exec_shell_script (sim_env cat h) m script rank s) = Inr ()"
  by (auto simp: exec_shell_script_def exec_in_workload_def run_on_worker_def rank_reachable_def Let_def eff_simps)

theorem spark_start_order_witness:
  "os_calls (snd (start_spark_serve sim_gateway (DEEPSEEK_V4_FLASH ''vllm_node'') (orch_init ()))) =
     kill_calls default_settings (DEEPSEEK_V4_FLASH ''vllm_node'') @
     map (\<lambda>rank. spark_call default_settings (DEEPSEEK_V4_FLASH ''vllm_node'')
       (launch_script default_settings (DEEPSEEK_V4_FLASH ''vllm_node'') deepseek_args rank) rank) [1, 0]"
proof -
  let ?m = "DEEPSEEK_V4_FLASH ''vllm_node''"
  have args: "build_cmd ?m = Some deepseek_args" by (simp add: deepseek_args_def build_cmd_def)
  have ranks: "rank_reachable default_settings 0" "rank_reachable default_settings 1"
    by (simp_all add: rank_reachable_def)
  have [simp]: "[0..<2] = [0, Suc 0]" by (simp add: upt_rec)
  have "fst (start_spark_serve sim_gateway ?m (orch_init ())) = Inr ()"
    using ranks sim_exec_script
    by (auto simp: start_spark_serve_def stop_spark_serve_def args bind_def handle_def ret_def
        split: prod.splits sum.splits) (metis fst_conv sum.distinct(1))+
  then obtain s' where run: "start_spark_serve sim_gateway ?m (orch_init ()) = (Inr (), s')" by (metis prod.collapse)
  have ranks: "rev [0..<md_cluster_nodes ?m] = [1, 0]" by simp
  from spark_start_order [OF args run refl, unfolded ranks] have
    "os_calls s' = os_calls (orch_init ()) @ kill_calls default_settings ?m @
      map (\<lambda>rank. spark_call default_settings ?m (launch_script default_settings ?m deepseek_args rank) rank) [1, 0]"
    by (elim exE conjE disjE) simp_all
  then show ?thesis by (simp add: run) (simp add: orch_init_def)
qed

section \<open>Stopping the outgoing models\<close>

text \<open>The trace only grows.\<close>

definition extends :: "call list \<Rightarrow> 'w orch \<Rightarrow> bool" where
  "extends base s = (\<exists>cs. os_calls s = base @ cs)"

lemma extends_external: "external C m \<Longrightarrow> keeps m (extends base)"
  by (rule external_valid) (auto simp: adds_def extends_def)

lemma extends_modify: "(\<And>s. os_calls (f s) = os_calls s) \<Longrightarrow> keeps (modify f) (extends base)"
  by (intro hoare) (simp add: extends_def)

lemma extends_set_state: "keeps (set_state n x) (extends base)"
  unfolding set_state_def by (rule extends_modify) simp

lemmas extends_ops = external_any_ops [THEN extends_external] extends_external [OF external_ret]
  extends_external [OF external_throw] extends_external [OF external_gets] extends_set_state

lemma extends_create: "keeps (create_and_start env m) (extends base)"
  unfolding create_and_start_def Let_def
  by (intro keeps_handle keeps_bind extends_ops extends_external [OF external_call [of "\<lambda>_. True"]] TrueI)

lemma extends_ensure_running: "keeps (ensure_container_running env strategy m) (extends base)"
  unfolding ensure_container_running_def Let_def
  by (intro keeps_bind valid_if valid_option extends_ops extends_create)

lemma extends_stop_recorded: "keeps (stop_recorded env strategy preserve ns) (extends base)"
  unfolding stop_recorded_def
  by (cases ns) (auto intro!: keeps_bind keeps_handle valid_if valid_option extends_ops)

lemma extends_teardown: "keeps (teardown_current env strategy preserve pm) (extends base)"
  unfolding teardown_current_def stop_outgoing_def
  by (intro valid_bind_gets keeps_bind valid_option valid_for_each valid_if extends_ops extends_stop_recorded)

lemma extends_await: "keeps (await_vram env mb n) (extends base)"
  by (induction n) (auto intro!: keeps_bind extends_ops)

lemma extends_wait: "keeps (wait_all_ready env ms tmo) (extends base)"
proof -
  have "keeps (wait_ready env start tmo m) (extends base)" for start m
    by (intro keeps_wait_ready extends_external [OF external_probe] extends_ops)
  then show ?thesis unfolding wait_all_ready_def by (intro valid_bind_gets valid_for_each)
qed

lemma extends_swap_rest:
  "keeps (seq (if b then ret () else ensure_vram_available env mb preserve n pm)
      (seq (for_each ms (ensure_container_running env strategy))
      (seq (handle (wait_all_ready env ms tmo) (\<lambda>e. if e = TimeoutError then promote_starting ms else throw e))
      (seq (modify (\<lambda>s. s\<lparr>os_active := Some key\<rparr>))
      (seq (persist_state env) (ret True)))))) (extends base)"
proof -
  have promote: "keeps (promote_starting ms) (extends base)"
    unfolding promote_starting_def by (intro valid_for_each valid_bind_gets valid_if extends_ops)
  have vram: "keeps (ensure_vram_available env mb preserve n pm) (extends base)"
    unfolding ensure_vram_available_def by (intro keeps_bind valid_if extends_ops extends_teardown extends_await)
  show ?thesis
    by (intro keeps_bind keeps_handle valid_if valid_for_each extends_ops vram promote extends_wait
        extends_ensure_running extends_modify) simp_all
qed

definition outgoing_kills :: "settings \<Rightarrow> vram_profile \<Rightarrow> vram_profile \<Rightarrow> call list" where
  "outgoing_kills cfg current target = concat (map (kill_calls cfg)
     (filter (\<lambda>m. md_name m \<notin> set (map md_name (all_models_of target))) (all_models_of current)))"

lemma concat_map_filter: "concat (map (\<lambda>x. if P x then [] else f x) xs) = concat (map f (filter (\<lambda>x. \<not> P x) xs))"
  by (induction xs) auto

lemma emits_outgoing:
  assumes "\<forall>m \<in> set ms. md_engine m = ''spark_cluster''"
  shows "emits (for_each ms (stop_outgoing env pm)) (concat (map (kill_calls (e_cfg env)) (filter (\<lambda>m. md_name m \<notin> set pm) ms)))"
proof -
  have "emits (seq (stop_spark_serve env m) (set_state n x)) (kill_calls (e_cfg env) m)" for m n x
    by (rule emits_seq_quiet [OF emits_stop_spark]) (simp add: set_state_def modify_def)
  then have "emits (stop_outgoing env pm m) (if md_name m \<in> set pm then [] else kill_calls (e_cfg env) m)" if "m \<in> set ms" for m
    using assms that by (simp add: stop_outgoing_def stop_exec_model_def EXEC_ENGINES_def emits_ret)
  then show ?thesis
    unfolding concat_map_filter [symmetric] by (rule emits_for_each)
qed

lemma outgoing_not_raises:
  assumes "\<forall>m \<in> set ms. md_engine m = ''spark_cluster''"
  shows "fst (for_each ms (stop_outgoing env pm) s) \<in> {Inr (), Inl CancelledError}"
  using assms
proof (induction ms arbitrary: s)
  case (Cons m ms)
  have "fst (stop_outgoing env pm m s) \<in> {Inr (), Inl CancelledError}"
    using stop_spark_not_raises [of env m s] Cons.prems
    by (auto simp: stop_outgoing_def stop_exec_model_def bind_def set_state_def modify_def ret_def
        split: prod.splits sum.splits)
  with Cons show ?case by (auto simp: bind_def split: prod.splits sum.splits)
qed (simp add: ret_def)

lemma swap_body_split:
  assumes "os_active s = Some k" "dict_get (PROFILES (e_catalog env)) k = Some current"
  obtains rest where "\<And>base. keeps rest (extends base)"
    "swap_body env key target strategy s =
       (case for_each (all_models_of current) (stop_outgoing env (map md_name (all_models_of target))) s of
          (Inl e, t) \<Rightarrow> (Inl e, t) | (Inr _, t) \<Rightarrow> rest t)"
proof -
  let ?ms = "all_models_of target"
  let ?recorded = "bind (gets os_states) (\<lambda>items. for_each items (stop_recorded env strategy (map md_container_name ?ms)))"
  let ?tail = "seq (if vp_skip_vram_check target then ret ()
            else ensure_vram_available env (vp_total_vram_required_mb target) (map md_container_name ?ms) 15 (map md_name ?ms))
      (seq (for_each ?ms (ensure_container_running env strategy))
      (seq (handle (wait_all_ready env ?ms (SWAP_TIMEOUT_S (e_cfg env)))
              (\<lambda>e. if e = TimeoutError then promote_starting ?ms else throw e))
      (seq (modify (\<lambda>s. s\<lparr>os_active := Some key\<rparr>))
      (seq (persist_state env) (ret True)))))"
  show ?thesis
  proof (rule that)
    show "keeps (seq ?recorded ?tail) (extends base)" for base
      by (rule keeps_bind, rule valid_bind_gets, rule valid_for_each, rule extends_stop_recorded, rule extends_swap_rest)
    show "swap_body env key target strategy s =
       (case for_each (all_models_of current) (stop_outgoing env (map md_name ?ms)) s of
          (Inl e, t) \<Rightarrow> (Inl e, t) | (Inr _, t) \<Rightarrow> seq ?recorded ?tail t)"
      using assms unfolding swap_body_def teardown_current_def Let_def
      by (auto simp: bind_def gets_def split: prod.splits sum.splits)
  qed
qed

text \<open>C7: outgoing models first.  Leaving a profile of Spark models, a swap that runs begins with
  the kill of every reachable rank of every model that the target does not list by name, even
  though all of them share one container; nothing else is called before.  Only a cancellation
  can cut this short, and then nothing else is called at all.\<close>

theorem swap_stops_outgoing_first:
  assumes "os_active s = Some k" "dict_get (PROFILES (e_catalog env)) k = Some current"
    and "\<forall>m \<in> set (all_models_of current). md_engine m = ''spark_cluster''"
    and "registry_key (e_catalog env) target \<noteq> k \<or> force"
    and "switch_profile env target force s = (r, s')"
  shows "\<exists>ks cs. os_calls s' = os_calls s @ ks @ cs \<and> prefix ks (outgoing_kills (e_cfg env) current target) \<and>
    (r \<noteq> Inl CancelledError \<or> cs \<noteq> [] \<longrightarrow> ks = outgoing_kills (e_cfg env) current target)"
proof -
  let ?key = "registry_key (e_catalog env) target" and ?pm = "map md_name (all_models_of target)"
  let ?out = "for_each (all_models_of current) (stop_outgoing env ?pm)"
  define s0 where "s0 = s\<lparr>os_swapping := True, os_swap_start := os_now s\<rparr>"
  obtain r2 s2 where body: "swap_body env ?key target (swap_strategy_of env) s0 = (r2, s2)"
    by (cases "swap_body env ?key target (swap_strategy_of env) s0")
  have res: "s' = s2\<lparr>os_swapping := False\<rparr>" "r = Inl CancelledError \<longleftrightarrow> r2 = Inl CancelledError"
    using switch_profile_run [of s env target force r2 s2] assms body by (auto simp: s0_def split: sum.splits)
  obtain r1 s1 where out: "?out s0 = (r1, s1)" by (cases "?out s0")
  obtain ks where ks: "os_calls s1 = os_calls s @ ks" "prefix ks (outgoing_kills (e_cfg env) current target)"
      "r1 = Inr () \<Longrightarrow> ks = outgoing_kills (e_cfg env) current target"
    using emits_outgoing [OF assms(3), of env ?pm] out
    by (fastforce simp: emits_def outgoing_kills_def s0_def dest: spec [of _ s0])
  have r1: "r1 = Inr () \<or> r1 = Inl CancelledError"
    using outgoing_not_raises [OF assms(3), of env ?pm s0] out by auto
  have "os_active s0 = Some k" by (simp add: s0_def assms(1))
  then obtain rest where rest: "swap_body env ?key target (swap_strategy_of env) s0 =
      (case ?out s0 of (Inl e, t) \<Rightarrow> (Inl e, t) | (Inr _, t) \<Rightarrow> rest t)" and grows: "\<And>base. keeps rest (extends base)"
    by (rule swap_body_split [OF _ assms(2)]) blast
  show ?thesis
  proof (cases r1)
    case (Inl e)
    then have "s2 = s1" "r2 = Inl CancelledError" using r1 rest out body by auto
    with ks res show ?thesis by (intro exI [of _ ks] exI [of _ "[]"]) auto
  next
    case (Inr u)
    then have "rest s1 = (r2, s2)" using rest out body by simp
    moreover have "extends (os_calls s1) s1" by (simp add: extends_def)
    ultimately obtain cs where "os_calls s2 = os_calls s1 @ cs"
      using grows [of "os_calls s1"] by (fastforce simp: keeps_iff extends_def)
    with ks res Inr show ?thesis by (intro exI [of _ ks] exI [of _ cs]) auto
  qed
qed

text \<open>A gateway without workers: the models of the catalog need two nodes, so a swap stops the
  outgoing model and then fails.\<close>

definition lone_gateway :: "unit env" where
  "lone_gateway = sim_gateway\<lparr>e_cfg := default_settings\<lparr>SPARK_WORKER_HOSTS := []\<rparr>\<rparr>"

definition serving_deepseek :: "unit orch" where
  "serving_deepseek = orch_init ()\<lparr>os_active := Some ''deepseek'', os_states := [(''vllm_node'', READY)]\<rparr>"

lemma profile_simps [simp]:
  "vp_primary_models (PROFILE_DEEPSEEK c) = [DEEPSEEK_V4_FLASH c]" "vp_secondary_models (PROFILE_DEEPSEEK c) = []"
  "vp_primary_models (PROFILE_QWEN38 c) = [QWEN38_FLASH_NEXT c]" "vp_secondary_models (PROFILE_QWEN38 c) = []"
  "vp_skip_vram_check (PROFILE_QWEN38 c) = True"
  by (simp_all add: profile_defs)

lemma registry_key_simps [simp]:
  "registry_key (gateway_catalog c) (PROFILE_QWEN38 c) = ''qwen38''"
  "registry_key (gateway_catalog c) (PROFILE_DEEPSEEK c) = ''deepseek''"
  by (simp_all add: registry_key_def)

lemma lone_gateway_simps [simp]:
  "e_catalog lone_gateway = gateway_catalog ''vllm_node''" "e_backend lone_gateway = sim_backend"
  "SPARK_WORKER_HOSTS (e_cfg lone_gateway) = []"
  by (simp_all add: lone_gateway_def)

lemma lone_swap_fails:
  "fst (switch_profile lone_gateway (PROFILE_QWEN38 ''vllm_node'') False serving_deepseek) = Inr False"
proof -
  have [simp]: "[0..<2] = [0, Suc 0]" by (simp add: upt_rec)
  show ?thesis
    by (simp add: switch_profile_def swap_body_def teardown_current_def stop_outgoing_def stop_exec_model_def
        stop_spark_serve_def exec_shell_script_def exec_in_workload_def stop_recorded_def ensure_container_running_def
        verify_spark_cluster_ready_def eff_simps Let_def serving_deepseek_def orch_init_def EXEC_ENGINES_def)
qed

theorem swap_stops_outgoing_first_witness:
  "\<exists>cs. os_calls (snd (switch_profile lone_gateway (PROFILE_QWEN38 ''vllm_node'') False serving_deepseek)) =
     [spark_call (e_cfg lone_gateway) (DEEPSEEK_V4_FLASH ''vllm_node'') (kill_script (DEEPSEEK_V4_FLASH ''vllm_node'')) 0] @ cs"
proof -
  have kills: "outgoing_kills (e_cfg lone_gateway) (PROFILE_DEEPSEEK ''vllm_node'') (PROFILE_QWEN38 ''vllm_node'') =
      [spark_call (e_cfg lone_gateway) (DEEPSEEK_V4_FLASH ''vllm_node'') (kill_script (DEEPSEEK_V4_FLASH ''vllm_node'')) 0]"
    by (simp add: outgoing_kills_def kill_calls_def rank_calls_def rank_reachable_def upt_rec)
  obtain r s' where run: "switch_profile lone_gateway (PROFILE_QWEN38 ''vllm_node'') False serving_deepseek = (r, s')"
    by (cases "switch_profile lone_gateway (PROFILE_QWEN38 ''vllm_node'') False serving_deepseek")
  have "r \<noteq> Inl CancelledError" using lone_swap_fails run by simp
  moreover have "os_active serving_deepseek = Some ''deepseek''" "os_calls serving_deepseek = []"
    "dict_get (PROFILES (e_catalog lone_gateway)) ''deepseek'' = Some (PROFILE_DEEPSEEK ''vllm_node'')"
    by (simp_all add: serving_deepseek_def orch_init_def)
  ultimately show ?thesis
    using swap_stops_outgoing_first [OF _ _ _ _ run, of "''deepseek''" "PROFILE_DEEPSEEK ''vllm_node''"]
    by (auto simp: kills run)
qed

section \<open>Going back after a failed swap\<close>

text \<open>After a failed swap the way back is not taken.  A swap to another profile that reports
  failure leaves the old profile's name in place although its models have been stopped; a
  following request for the old profile, unless forced, reports success without a single
  external call.\<close>

theorem failed_swap_then_back_skips:
  assumes "os_active s = Some (registry_key (e_catalog env) old)"
    and "switch_profile env target force s = (Inr False, s')"
  shows "switch_profile env old False s' = (Inr True, s')"
proof -
  have "os_active s' = os_active s"
  proof (cases "os_active s \<noteq> Some (registry_key (e_catalog env) target) \<or> force")
    case True
    from switch_profile_control [OF this assms(2)] show ?thesis by simp
  next
    case False
    then show ?thesis using assms(2) switch_profile_skip by fastforce
  qed
  then show ?thesis using assms(1) switch_profile_skip by metis
qed

theorem failed_swap_then_back_skips_witness:
  "let s = snd (switch_profile lone_gateway (PROFILE_QWEN38 ''vllm_node'') False serving_deepseek)
   in switch_profile lone_gateway (PROFILE_DEEPSEEK ''vllm_node'') False s = (Inr True, s)"
proof -
  have "os_active serving_deepseek = Some (registry_key (e_catalog lone_gateway) (PROFILE_DEEPSEEK ''vllm_node''))"
    by (simp add: serving_deepseek_def)
  moreover have "switch_profile lone_gateway (PROFILE_QWEN38 ''vllm_node'') False serving_deepseek =
      (Inr False, snd (switch_profile lone_gateway (PROFILE_QWEN38 ''vllm_node'') False serving_deepseek))"
    by (simp add: prod_eq_iff lone_swap_fails)
  ultimately show ?thesis unfolding Let_def by (rule failed_swap_then_back_skips)
qed

section \<open>Waiting\<close>

text \<open>The sleeps of a piece of trace, and the bound a deadline sets on them.\<close>

definition sleeps :: "call list \<Rightarrow> nat" where
  "sleeps cs = length (filter (\<lambda>c. c = CallSleep 1) cs)"

lemma sleeps_simps [simp]: "sleeps [] = 0" "sleeps (a @ b) = sleeps a + sleeps b"
  "sleeps (c # cs) = (if c = CallSleep 1 then 1 else 0) + sleeps cs"
  by (simp_all add: sleeps_def)

definition in_time :: "int \<Rightarrow> 'w orch \<Rightarrow> exn + unit \<Rightarrow> 'w orch \<Rightarrow> bool" where
  "in_time deadline s r s' = (os_now s \<le> os_now s' \<and> (\<exists>cs. os_calls s' = os_calls s @ cs \<and>
     (r = Inr () \<longrightarrow> os_now s + 1000 * sleeps cs \<le> os_now s') \<and>
     (sleeps cs = 0 \<or> int (os_now s) + 1000 * (int (sleeps cs) - 1) \<le> deadline)))"

lemma in_time_quiet:
  "os_now s \<le> os_now s' \<Longrightarrow> os_calls s' = os_calls s @ cs \<Longrightarrow> sleeps cs = 0 \<Longrightarrow> in_time deadline s r s'"
  by (auto simp: in_time_def)

lemma in_time_trans: "in_time d s (Inr ()) s1 \<Longrightarrow> in_time d s1 r s2 \<Longrightarrow> in_time d s r s2"
  unfolding in_time_def by (elim conjE exE, intro conjI, simp, rename_tac a b, rule_tac x = "a @ b" in exI) auto

lemma probe_no_sleep:
  "probe_ready env m s = (r, s') \<Longrightarrow> os_now s \<le> os_now s' \<and> (\<exists>cs. os_calls s' = os_calls s @ cs \<and> sleeps cs = 0)"
proof -
  assume probe: "probe_ready env m s = (r, s')"
  have "external (\<lambda>c. c \<noteq> CallSleep 1) (probe_ready env m)"
    unfolding probe_ready_def get_workload_def check_vllm_health_def Let_def by (intro ext_intro) simp_all
  with probe show ?thesis
    by (auto simp: external_def adds_def sleeps_def filter_empty_conv list_all_iff dest!: spec [of _ s])
qed

lemma wait_ready_in_time:
  "wait_ready env start tmo m s = (r, s') \<Longrightarrow> in_time (int start + 1000 * tmo) s r s'"
proof (induction env start tmo m s arbitrary: r s' rule: wait_ready.induct)
  case (1 env start tmo m s)
  show ?case
  proof (cases "int (os_now s) - int start > 1000 * tmo")
    case True
    then show ?thesis using 1(2) by (auto simp: wait_ready.simps [of env start tmo m s] intro: in_time_quiet)
  next
    case False
    obtain p s1 where probe: "probe_ready env m s = (p, s1)" by (cases "probe_ready env m s")
    obtain q s2 where sleep: "sleep env 1 s1 = (q, s2)" by (cases "sleep env 1 s1")
    obtain cs where cs: "os_now s \<le> os_now s1" "os_calls s1 = os_calls s @ cs" "sleeps cs = 0"
      using probe_no_sleep [OF probe] by blast
    have sleep_calls: "os_calls s2 = os_calls s1 @ [CallSleep 1]" "os_now s1 \<le> os_now s2"
        "q = Inr () \<Longrightarrow> os_now s1 + 1000 \<le> os_now s2"
      using sleep by (auto simp: eff_simps split: prod.splits sum.splits)
    have step: "in_time (int start + 1000 * tmo) s q s2"
      unfolding in_time_def using cs sleep_calls False by (intro conjI exI [of _ "cs @ [CallSleep 1]"]) auto
    show ?thesis
    proof (cases p)
      case (Inl e)
      then show ?thesis using 1(2) probe cs False by (auto simp: wait_ready.simps [of env start tmo m s] intro: in_time_quiet)
    next
      case (Inr up)
      show ?thesis
      proof (cases up)
        case True
        then show ?thesis using 1(2) probe cs False Inr
          by (auto simp: wait_ready.simps [of env start tmo m s] set_state_def modify_def intro!: in_time_quiet)
      next
        case down: False
        show ?thesis
        proof (cases q)
          case (Inl e)
          then show ?thesis using 1(2) probe sleep False Inr down step by (simp add: wait_ready.simps [of env start tmo m s])
        next
          case q: (Inr u)
          then have "wait_ready env start tmo m s2 = (r, s')"
            using 1(2) probe sleep False Inr down by (simp add: wait_ready.simps [of env start tmo m s])
          with 1(1) [OF False probe [symmetric] Inr _ sleep [symmetric] q] down
          have "in_time (int start + 1000 * tmo) s2 r s'" by simp
          then show ?thesis using step q by (auto intro: in_time_trans)
        qed
      qed
    qed
  qed
qed

lemma wait_list_in_time:
  "for_each ms (wait_ready env start tmo) s = (r, s') \<Longrightarrow> in_time (int start + 1000 * tmo) s r s'"
proof (induction ms arbitrary: s)
  case Nil
  then show ?case by (auto simp: ret_def intro: in_time_quiet)
next
  case (Cons m ms)
  then show ?case
    by (auto simp: bind_def split: prod.splits sum.splits dest!: wait_ready_in_time intro: in_time_trans)
qed

text \<open>C27: waiting is bounded.  \<open>_wait_all_ready\<close> returns in every environment, and however many
  models it waits for it sleeps at most \<open>timeout + 1\<close> times, one second each, over all of them
  together: the models share one deadline.\<close>

theorem wait_all_ready_bounded:
  assumes "0 \<le> tmo"
  shows "\<exists>r s' cs. wait_all_ready env ms tmo s = (r, s') \<and> os_calls s' = os_calls s @ cs \<and> int (sleeps cs) \<le> tmo + 1"
proof -
  obtain r s' where run: "for_each ms (wait_ready env (os_now s) tmo) s = (r, s')"
    by (cases "for_each ms (wait_ready env (os_now s) tmo) s")
  from wait_list_in_time [OF this] obtain cs where cs: "os_calls s' = os_calls s @ cs"
      "sleeps cs = 0 \<or> int (os_now s) + 1000 * (int (sleeps cs) - 1) \<le> int (os_now s) + 1000 * tmo"
    by (auto simp: in_time_def)
  moreover have "int (sleeps cs) \<le> tmo + 1" using cs(2) assms by auto
  ultimately show ?thesis
    using run by (auto simp: wait_all_ready_def bind_def gets_def)
qed

theorem wait_all_ready_bounded_witness:
  "\<exists>r s' cs. wait_all_ready (sim_env box_catalog (\<lambda>_. 503)) [box_model, box_model] 600 (orch_init ()) = (r, s') \<and>
     os_calls s' = cs \<and> sleeps cs \<le> 601"
  using wait_all_ready_bounded [of 600 "sim_env box_catalog (\<lambda>_. 503)" "[box_model, box_model]" "orch_init ()"]
  by (simp add: orch_init_def)

end
