(* ===== verification/Startup.thy ===== *)
theory Startup
  imports Swap "HOL-Library.Multiset"
begin

text \<open>
  Startup and the container runtime: what the orchestrator inherits from the contract of its
  backend, which profile it adopts, and where the two backends differ.
\<close>

section \<open>Operations that raise only when cancelled\<close>

definition absorbs :: "('w orch, 'a) eff \<Rightarrow> bool" where
  "absorbs m = (\<forall>s e. fst (m s) = Inl e \<longrightarrow> e = CancelledError)"

named_theorems absorb_intro \<open>introduction rules for absorbs\<close>

lemma absorbs_ret [absorb_intro]: "absorbs (ret x)"
  by (simp add: absorbs_def ret_def)

lemma absorbs_gets [absorb_intro]: "absorbs (gets f)"
  by (simp add: absorbs_def gets_def)

lemma absorbs_modify [absorb_intro]: "absorbs (modify f)"
  by (simp add: absorbs_def modify_def)

lemma absorbs_set_state [absorb_intro]: "absorbs (set_state n x)"
  unfolding set_state_def by (rule absorbs_modify)

lemma absorbs_bind [absorb_intro]: "absorbs m \<Longrightarrow> (\<And>x. absorbs (f x)) \<Longrightarrow> absorbs (bind m f)"
  by (auto simp: absorbs_def bind_def split: prod.splits sum.splits) (metis fst_conv)+

lemma absorbs_handle [absorb_intro]: "(\<And>e. absorbs (h e)) \<Longrightarrow> absorbs (handle m h)"
  by (auto simp: absorbs_def handle_def split: prod.splits sum.splits if_splits)

lemma absorbs_if [absorb_intro]: "(b \<Longrightarrow> absorbs m) \<Longrightarrow> (\<not> b \<Longrightarrow> absorbs n) \<Longrightarrow> absorbs (if b then m else n)"
  by simp

lemma absorbs_option [absorb_intro]:
  "(x = None \<Longrightarrow> absorbs m) \<Longrightarrow> (\<And>y. x = Some y \<Longrightarrow> absorbs (f y)) \<Longrightarrow>
   absorbs (case x of None \<Rightarrow> m | Some y \<Rightarrow> f y)"
  by (cases x) simp_all

lemma absorbs_for_each [absorb_intro]: "(\<And>x. x \<in> set xs \<Longrightarrow> absorbs (f x)) \<Longrightarrow> absorbs (for_each xs f)"
  by (induction xs) (auto intro: absorb_intro)

lemma absorbs_call: "no_raise m \<Longrightarrow> absorbs (ext_call c m)"
proof -
  assume m: "no_raise m"
  have "fst (ext_call c m s) = fst (m (os_world s))" for s
    by (simp add: ext_call_def split: prod.splits)
  then show ?thesis using m by (auto simp: absorbs_def ext_all_def) (metis Inl_Inr_False)
qed

lemma absorbs_health [absorb_intro]: "absorbs (check_vllm_health env n p e)"
  unfolding check_vllm_health_def Let_def by (intro absorb_intro)

lemma absorbs_persist [absorb_intro]: "absorbs (persist_state env)"
  unfolding persist_state_def by (intro absorb_intro)

lemma absorbs_stop_spark [absorb_intro]: "absorbs (stop_spark_serve env m)"
  unfolding stop_spark_serve_def by (intro absorb_intro)

lemma absorbs_cleanup_groups [absorb_intro]: "absorbs (cleanup_placement_groups env n)"
  unfolding cleanup_placement_groups_def by (intro absorb_intro)

lemma absorbs_adopt_states [absorb_intro]: "absorbs (adopt_states sc ms)"
  unfolding adopt_states_def by (intro absorb_intro)

lemma absorbs_count [absorb_intro]: "absorbs (count_ray_nodes env n)"
  unfolding count_ray_nodes_def by (intro absorb_intro)

text \<open>The client of the runtime contract: startup over any backend that meets it.\<close>

context runtime begin

lemma absorbs_find_head: "e_backend env = be \<Longrightarrow> absorbs (find_ray_head env)"
  unfolding find_ray_head_def by (intro absorb_intro absorbs_call) (simp add: list_total)

lemma absorbs_exec: "e_backend env = be \<Longrightarrow> absorbs (exec_in_workload env n cmd)"
  unfolding exec_in_workload_def by (intro absorbs_call) (simp add: exec_total)

lemma absorbs_stop_exec: "e_backend env = be \<Longrightarrow> absorbs (stop_exec_model env m)"
  unfolding stop_exec_model_def stop_ray_vllm_def
  by (intro absorb_intro absorbs_find_head absorbs_exec) assumption+

lemma absorbs_get: "e_backend env = be \<Longrightarrow> absorbs (get_workload env n)"
  unfolding get_workload_def by (intro absorbs_call) (simp add: get_total)

lemma absorbs_remove: "e_backend env = be \<Longrightarrow> absorbs (remove_workload env n)"
  unfolding remove_workload_def using remove_total [of n] by (intro absorbs_call) simp

lemma absorbs_scan: "e_backend env = be \<Longrightarrow> absorbs (scan_models env ms sc)"
  by (induction ms arbitrary: sc) (auto simp: Let_def intro!: absorb_intro absorbs_get)

lemma absorbs_detect: "e_backend env = be \<Longrightarrow> absorbs (detect_and_adopt env)"
  unfolding detect_and_adopt_def remove_orphan_def
  by (auto split: option.splits intro!: absorb_intro absorbs_scan absorbs_stop_exec absorbs_remove)

lemma absorbs_cleanup: "e_backend env = be \<Longrightarrow> absorbs (cleanup_orphaned_containers env)"
proof -
  assume env: "e_backend env = be"
  have "absorbs (cleanup_models env ms b)" for ms b
    by (induction ms arbitrary: b)
       (auto simp: kill_all_ray_vllm_def intro!: absorb_intro absorbs_find_head [OF env] absorbs_exec [OF env]
          absorbs_get [OF env] absorbs_remove [OF env])
  then show ?thesis unfolding cleanup_orphaned_containers_def .
qed

lemma absorbs_refresh: "e_backend env = be \<Longrightarrow> absorbs (refresh_ray_status env)"
proof -
  assume env: "e_backend env = be"
  have "absorbs (check_clusters env head gs)" for head gs
    by (induction env head gs rule: check_clusters.induct) (auto simp: Let_def intro!: absorb_intro)
  then show ?thesis
    unfolding refresh_ray_status_def check_ray_requirement_def Let_def
    by (intro absorb_intro absorbs_find_head [OF env])
qed

end

text \<open>Startup and status checks never fail.  Over either backend, whatever the Docker SDK or
  the Kubernetes client does, adopting the running profile, cleaning up leftovers and polling
  Ray raise nothing but the cancellation of their task.\<close>

theorem startup_never_raises:
  assumes "e_backend env = docker_backend cfg docker_sdk \<or> e_backend env = kubernetes_backend cfg show_exn k8s_sdk"
    and "fst (detect_and_adopt env s) = Inl e \<or> fst (cleanup_orphaned_containers env s) = Inl e \<or>
      fst (refresh_ray_status env s) = Inl e"
  shows "e = CancelledError"
proof -
  have "absorbs (detect_and_adopt env) \<and> absorbs (cleanup_orphaned_containers env) \<and> absorbs (refresh_ray_status env)"
    using assms(1)
  proof
    assume "e_backend env = docker_backend cfg docker_sdk"
    then show ?thesis by (intro conjI docker.absorbs_detect docker.absorbs_cleanup docker.absorbs_refresh)
  next
    assume "e_backend env = kubernetes_backend cfg show_exn k8s_sdk"
    then show ?thesis by (intro conjI kubernetes.absorbs_detect kubernetes.absorbs_cleanup kubernetes.absorbs_refresh)
  qed
  then show ?thesis using assms(2) by (auto simp: absorbs_def)
qed

text \<open>A Docker daemon that knows nothing and a health probe that is cancelled, for the witness.\<close>

definition empty_docker :: "unit docker_sdk" where
  "empty_docker =
     \<lparr>dk_get = (\<lambda>n w. (Inl NotFound, 1, w)), dk_run = (\<lambda>k w. (Inr (), 1, w)), dk_stop = (\<lambda>c t w. (Inr (), 1, w)),
      dk_remove = (\<lambda>c f w. (Inr (), 1, w)), dk_pause = (\<lambda>c w. (Inr (), 1, w)), dk_unpause = (\<lambda>c w. (Inr (), 1, w)),
      dk_exec_run = (\<lambda>c k w. (Inr (None, None), 1, w)), dk_list_running = (\<lambda>w. (Inl (APIError ''down''), 1, w)),
      dk_network_get = (\<lambda>n w. (Inr (), 1, w)), dk_connect = (\<lambda>n c w. (Inr (), 1, w))\<rparr>"

definition cancelled_env :: "unit env" where
  "cancelled_env = sim_gateway\<lparr>e_backend := docker_backend default_settings empty_docker,
     e_http_status := (\<lambda>url w. (Inl CancelledError, 1, w))\<rparr>"

theorem startup_never_raises_witness:
  "fst (detect_and_adopt cancelled_env (orch_init ())) = Inl CancelledError"
proof -
  have [simp]: "e_catalog cancelled_env = gateway_catalog ''vllm_node''"
    "e_http_status cancelled_env = (\<lambda>url w. (Inl CancelledError, 1, w))"
    by (simp_all add: cancelled_env_def sim_env_def)
  have "exec_managed (DEEPSEEK_V4_FLASH ''vllm_node'')" by (simp add: EXEC_ENGINES_def)
  then obtain e where e: "fst (detect_and_adopt cancelled_env (orch_init ())) = Inl e"
    by (simp add: detect_and_adopt_def check_vllm_health_def eff_simps Let_def)
  moreover have "e_backend cancelled_env = docker_backend default_settings empty_docker" by (simp add: cancelled_env_def)
  ultimately show ?thesis using startup_never_raises by blast
qed

section \<open>Kubernetes cannot create a workload\<close>

text \<open>C39: on Kubernetes no workload is ever created.  The orchestrator calls
  \<open>create_and_start\<close> with the keyword \<open>entrypoint\<close>, which the protocol and the Docker backend
  have and the Kubernetes backend has not: the call is a \<open>TypeError\<close> before anything is scaled or
  created, for every model, and the model is recorded \<open>ERROR\<close>.\<close>

theorem kubernetes_create_fails:
  assumes "e_backend env = kubernetes_backend cfg show_exn sdk"
  shows "fst (create_and_start env m s) = Inl TypeError \<and>
    os_world (snd (create_and_start env m s)) = os_world s \<and>
    dict_get (os_states (snd (create_and_start env m s))) (md_container_name m) = Some ERROR"
  by (simp add: create_and_start_def assms kubernetes_backend_def keyword_call_def K8S_CREATE_PARAMS_def CREATE_KEYWORDS_def
      eff_simps ext_ret_def Let_def)

text \<open>A Kubernetes cluster given by its running pods, each under an \<open>app\<close> label.\<close>

definition pods_sdk :: "(string \<times> string) list \<Rightarrow> (string \<Rightarrow> string list \<Rightarrow> string) \<Rightarrow> unit k8s_sdk" where
  "pods_sdk pods run =
     \<lparr>k8_list_pods = (\<lambda>sel field w. (Inr (map (\<lambda>(l, n). \<lparr>pd_name = n, pd_status = Some \<lparr>ps_phase = Some ''Running'',
         ps_conditions = None\<rparr>\<rparr>) (filter (\<lambda>(l, n). sel = [] \<or> sel = ''app='' @ l) pods)), 1, w)),
      k8_scale = (\<lambda>n r w. (Inr (), 1, w)), k8_create_deployment = (\<lambda>dep w. (Inr (), 1, w)),
      k8_create_service = (\<lambda>n p w. (Inr (), 1, w)),
      k8_exec = (\<lambda>pod cmd w. (Inr (Some (run pod cmd)), 1, w))\<rparr>"

definition k8s_env :: "(string \<times> string) list \<Rightarrow> (string \<Rightarrow> string list \<Rightarrow> string) \<Rightarrow> unit env" where
  "k8s_env pods run = sim_gateway\<lparr>e_backend := kubernetes_backend default_settings (\<lambda>_. ''error'') (pods_sdk pods run)\<rparr>"

theorem kubernetes_create_fails_witness:
  "fst (create_and_start (k8s_env [] (\<lambda>_ _. [])) box_model (orch_init ())) = Inl TypeError"
  using kubernetes_create_fails [of "k8s_env [] (\<lambda>_ _. [])" default_settings "\<lambda>_. ''error''" "pods_sdk [] (\<lambda>_ _. [])"]
  by (simp add: k8s_env_def)

section \<open>Kubernetes never sees the Ray cluster\<close>

lemma strip_head: "\<not> is_space c \<Longrightarrow> \<exists>r. py_strip (c # cs) = c # r"
proof -
  assume c: "\<not> is_space c"
  then have "dropWhile is_space (rev cs @ [c]) = dropWhile is_space (rev cs) @ [c]"
    by (induction "rev cs") (simp_all add: dropWhile_append)
  then show ?thesis using c by (simp add: py_strip_def lstrip_def rstrip_def)
qed

text \<open>A reply that starts with a letter is no number.\<close>

lemma py_int_letter:
  assumes "\<not> is_space c" "\<not> is_digit c" "c \<noteq> CHR ''-''" "c \<noteq> CHR ''+''"
  shows "py_strip (c # cs) \<noteq> []" "py_int (py_strip (c # cs)) = Inl ValueError"
proof -
  obtain r where r: "py_strip (c # cs) = c # r" using strip_head [OF assms(1)] by blast
  obtain r' where r': "py_strip (c # r) = c # r'" using strip_head [OF assms(1)] by blast
  show "py_strip (c # cs) \<noteq> []" by (simp add: r)
  show "py_int (py_strip (c # cs)) = Inl ValueError" using assms by (simp add: r r' py_int_def Let_def parse_nat_def)
qed

lemma letter_N: "\<not> is_space (CHR ''N'')" "\<not> is_digit (CHR ''N'')"
  by (simp_all add: is_space_def is_digit_def)

text \<open>On Kubernetes the Ray cluster is never ready.  \<open>_find_ray_head\<close> returns the name of a
  pod, and \<open>exec_in_workload\<close> takes that name for an \<open>app\<close> label: unless some pod is labelled with
  the name of the head pod, no pod is found, the reply is not a number, and a cluster of any
  size counts no node.  So a Ray model on two or more GPUs never starts there.\<close>

theorem kubernetes_ray_never_ready:
  assumes "\<forall>(l, n) \<in> set pods. l = RAY_HEAD_NAME \<longrightarrow> n \<notin> set (map fst pods)" "0 < n"
  shows "fst (verify_ray_cluster_ready (k8s_env pods run) n s) = Inr False"
proof -
  let ?env = "k8s_env pods run"
  have backend: "e_backend ?env = kubernetes_backend default_settings (\<lambda>_. ''error'') (pods_sdk pods run)"
    by (simp add: k8s_env_def)
  have count: "fst (count_ray_nodes ?env name s) = Inr 0" if "name \<notin> set (map fst pods)" for name s
  proof -
    have "filter (\<lambda>(l, n). name = l) pods = []" using that by (force simp: filter_empty_conv)
    then show ?thesis
      by (simp add: count_ray_nodes_def exec_in_workload_def backend kubernetes_backend_def k8s_exec_in_workload_def
          resolve_pod_name_def pods_sdk_def ext_bind_def ext_ret_def eff_simps py_int_letter letter_N Let_def)
  qed
  have head: "case h of None \<Rightarrow> True | Some name \<Rightarrow> name \<notin> set (map fst pods)"
    if "find_ray_head ?env s = (Inr h, s1)" for h s1
  proof -
    have "find_ray_head ?env s = (Inr h, s1) \<Longrightarrow> h = map_option wl_name (find (\<lambda>w. wl_name w = RAY_HEAD_NAME \<or> str_in RAY_HEAD_NAME (wl_name w))
        (map pod_workload (map (\<lambda>(l, n). \<lparr>pd_name = n, pd_status = Some \<lparr>ps_phase = Some ''Running'', ps_conditions = None\<rparr>\<rparr>)
          (filter (\<lambda>(l, n). RAY_HEAD_NAME = l) pods))))"
      by (auto simp: find_ray_head_def backend kubernetes_backend_def k8s_list_workloads_def pods_sdk_def ext_bind_def
          ext_ret_def eff_simps RAY_HEAD_NAME_def split: if_splits)
    then show ?thesis
      using that assms(1) by (force split: option.split dest!: find_SomeD simp: pod_workload_def)
  qed
  obtain r s1 where find: "find_ray_head ?env s = (r, s1)" by (cases "find_ray_head ?env s")
  have "\<exists>h. r = Inr h"
    using find by (auto simp: find_ray_head_def backend kubernetes_backend_def k8s_list_workloads_def pods_sdk_def
        ext_bind_def ext_ret_def eff_simps)
  then obtain h where r: "r = Inr h" by blast
  show ?thesis
  proof (cases h)
    case None
    then show ?thesis using find r by (simp add: verify_ray_cluster_ready_def bind_def ret_def)
  next
    case (Some name)
    then have "fst (count_ray_nodes ?env name s1) = Inr 0" using head [of h s1] find r count by simp
    then show ?thesis
      using find r Some assms(2)
      by (cases "count_ray_nodes ?env name s1") (simp add: verify_ray_cluster_ready_def bind_def ret_def)
  qed
qed

theorem kubernetes_ray_never_ready_witness:
  "fst (verify_ray_cluster_ready (k8s_env [(''ray-node-head'', ''ray-node-head-7d9f'')] (\<lambda>_ _. ''2'')) 2 (orch_init ())) = Inr False"
  using kubernetes_ray_never_ready [of "[(''ray-node-head'', ''ray-node-head-7d9f'')]" 2]
  by (simp add: RAY_HEAD_NAME_def)

section \<open>Adoption\<close>

definition url_of :: "'w env \<Rightarrow> model_definition \<Rightarrow> string" where
  "url_of env m = health_url env (md_container_name m) (md_port m) (md_engine m)"

text \<open>An environment in which every health endpoint answers, always the same.\<close>

definition stable_health :: "'w env \<Rightarrow> (string \<Rightarrow> nat) \<Rightarrow> bool" where
  "stable_health env status = (\<forall>url w. \<exists>d w'. e_http_status env url w = (Inr (status url), d, w'))"

abbreviation serving :: "'w env \<Rightarrow> (string \<Rightarrow> nat) \<Rightarrow> model_definition \<Rightarrow> bool" where
  "serving env status m \<equiv> status (url_of env m) = 200"

lemma check_health_stable:
  assumes "stable_health env status"
  shows "\<exists>s'. check_vllm_health env (md_container_name m) (md_port m) (md_engine m) s = (Inr (serving env status m), s') \<and>
    same_control s s' \<and> os_calls s' = os_calls s @ [CallHealth (url_of env m)]"
proof -
  obtain d w' where "e_http_status env (url_of env m) (os_world s) = (Inr (status (url_of env m)), d, w')"
    using assms unfolding stable_health_def by blast
  then show ?thesis
    by (simp add: check_vllm_health_def url_of_def eff_simps same_control_def Let_def)
qed

lemma scan_shared:
  assumes "stable_health env status" "\<forall>m \<in> set ms. exec_managed m \<and> md_container_name m = c"
    and "sc_running sc \<in> {[], [(c, ''running'')]}"
  shows "\<exists>sc' s'. scan_models env ms sc s = (Inr sc', s') \<and> same_control s s' \<and>
    sc_running sc' = (if list_ex (serving env status) ms then [(c, ''running'')] else sc_running sc) \<and>
    set (sc_healthy sc') = set (sc_healthy sc) \<union> md_name ` set (filter (serving env status) ms) \<and>
    os_calls s' = os_calls s @ map (\<lambda>m. CallHealth (url_of env m)) ms"
  using assms(2,3)
proof (induction ms arbitrary: sc s)
  case Nil
  then show ?case by (simp add: ret_def same_control_def)
next
  case (Cons m ms)
  obtain s1 where s1: "check_vllm_health env (md_container_name m) (md_port m) (md_engine m) s = (Inr (serving env status m), s1)"
      "same_control s s1" "os_calls s1 = os_calls s @ [CallHealth (url_of env m)]"
    using check_health_stable [OF assms(1)] by blast
  define sc1 where "sc1 = (if serving env status m
      then sc\<lparr>sc_running := dict_set (sc_running sc) c ''running'', sc_exec := c # sc_exec sc, sc_healthy := md_name m # sc_healthy sc\<rparr>
      else sc\<lparr>sc_exec := c # sc_exec sc\<rparr>)"
  have step: "scan_models env (m # ms) sc s = scan_models env ms sc1 s1"
    using Cons.prems s1 by (simp add: sc1_def bind_def Let_def)
  have "sc_running sc1 \<in> {[], [(c, ''running'')]}" using Cons.prems by (auto simp: sc1_def)
  moreover have "\<forall>m \<in> set ms. exec_managed m \<and> md_container_name m = c" using Cons.prems by simp
  ultimately obtain sc' s' where rest: "scan_models env ms sc1 s1 = (Inr sc', s')" "same_control s1 s'"
      "sc_running sc' = (if list_ex (serving env status) ms then [(c, ''running'')] else sc_running sc1)"
      "set (sc_healthy sc') = set (sc_healthy sc1) \<union> md_name ` set (filter (serving env status) ms)"
      "os_calls s' = os_calls s1 @ map (\<lambda>m. CallHealth (url_of env m)) ms"
    using Cons.IH [of sc1 s1] by blast
  show ?case
    unfolding step using rest s1 Cons.prems by (auto simp: sc1_def same_control_def)
qed

lemma adoptable_shared:
  assumes "\<forall>m \<in> set (all_models_of p). exec_managed m \<and> md_container_name m = c \<and> m \<in> set ms"
    and "all_models_of p \<noteq> []" "inj_on md_name (set ms)"
    and "sc_running sc = (if list_ex (serving env status) ms then [(c, ''running'')] else [])"
    and "set (sc_healthy sc) = md_name ` set (filter (serving env status) ms)"
  shows "adoptable sc p \<longleftrightarrow> list_all (serving env status) (all_models_of p)"
proof -
  have name: "md_name m \<in> set (sc_healthy sc) \<longleftrightarrow> serving env status m" if "m \<in> set (all_models_of p)" for m
    using assms(1,3,5) that by (auto simp: inj_on_def)
  have running: "dict_get (sc_running sc) c = Some ''running''" if "list_all (serving env status) (all_models_of p)"
    using assms(1,2,4) that by (cases "all_models_of p") (auto simp: list_ex_iff list_all_iff)
  show ?thesis
    unfolding adoptable_def using assms(1,2) name running
    by (auto simp: list_all_iff VALID_STATUSES_def)
qed

lemma adopt_states_shared:
  "\<forall>m \<in> set ms. md_container_name m = c \<Longrightarrow> dict_get (sc_running sc) c = Some ''running'' \<Longrightarrow>
   \<exists>s'. adopt_states sc ms s = (Inr (), s') \<and> os_active s' = os_active s \<and> os_calls s' = os_calls s \<and>
     (ms \<noteq> [] \<or> is_model_ready s c \<longrightarrow> is_model_ready s' c)"
proof (induction ms arbitrary: s)
  case Nil
  then show ?case by (simp add: adopt_states_def ret_def)
next
  case (Cons m ms)
  define s1 where "s1 = s\<lparr>os_states := dict_set (os_states s) c READY\<rparr>"
  obtain s' where "adopt_states sc ms s1 = (Inr (), s')" "os_active s' = os_active s1" "os_calls s' = os_calls s1"
      "ms \<noteq> [] \<or> is_model_ready s1 c \<longrightarrow> is_model_ready s' c"
    using Cons.IH [of s1] Cons.prems by auto
  moreover have "adopt_states sc (m # ms) s = adopt_states sc ms s1"
    using Cons.prems by (simp add: adopt_states_def eff_simps s1_def)
  ultimately show ?case by (simp add: s1_def is_model_ready_def)
qed

lemma persist_calls: "\<exists>cs. os_calls (snd (persist_state env s)) = os_calls s @ cs \<and> set cs \<subseteq> range CallPersist"
  by (auto simp: persist_state_def eff_simps split: option.splits prod.splits sum.splits)

text \<open>C21: adoption.  When all models share one container, as in the gateway's catalog, and the
  health endpoints answer steadily, startup adopts the first profile in registry order all of
  whose models are serving, records the container \<open>READY\<close>, and adopts nothing if there is no
  such profile.  It makes one probe per model and no other call but the write of the state
  file: a second model found serving in the container is left running.\<close>

theorem adoption_first_serving:
  assumes "stable_health env status"
    and models: "\<forall>m \<in> set (ALL_MODELS (e_catalog env)). exec_managed m \<and> md_container_name m = c"
    and names: "inj_on md_name (set (ALL_MODELS (e_catalog env)))"
    and profiles: "\<forall>(k, p) \<in> set (PROFILES (e_catalog env)). all_models_of p \<noteq> [] \<and> set (all_models_of p) \<subseteq> set (ALL_MODELS (e_catalog env))"
    and "k = map_option fst (find (\<lambda>(k, p). list_all (serving env status) (all_models_of p)) (PROFILES (e_catalog env)))"
  shows "\<exists>s' cs. detect_and_adopt env s = (Inr k, s') \<and>
    os_active s' = (if k = None then os_active s else k) \<and> (k \<noteq> None \<longrightarrow> is_model_ready s' c) \<and>
    os_calls s' = os_calls s @ map (\<lambda>m. CallHealth (url_of env m)) (ALL_MODELS (e_catalog env)) @ cs \<and>
    set cs \<subseteq> range CallPersist"
proof -
  let ?ms = "ALL_MODELS (e_catalog env)" and ?sc0 = "\<lparr>sc_running = [], sc_exec = [], sc_healthy = []\<rparr>"
  obtain sc s1 where scan: "scan_models env ?ms ?sc0 s = (Inr sc, s1)" "same_control s s1"
      "sc_running sc = (if list_ex (serving env status) ?ms then [(c, ''running'')] else [])"
      "set (sc_healthy sc) = md_name ` set (filter (serving env status) ?ms)"
      "os_calls s1 = os_calls s @ map (\<lambda>m. CallHealth (url_of env m)) ?ms"
    using scan_shared [OF assms(1) models, of ?sc0 s] by auto
  have adoptable: "adoptable sc p \<longleftrightarrow> list_all (serving env status) (all_models_of p)"
    if "(k, p) \<in> set (PROFILES (e_catalog env))" for k p
    by (rule adoptable_shared [OF _ _ names scan(3,4)]) (use that profiles models in blast)+
  have find: "find (\<lambda>(k, p). adoptable sc p) (PROFILES (e_catalog env)) =
      find (\<lambda>(k, p). list_all (serving env status) (all_models_of p)) (PROFILES (e_catalog env))"
    by (rule find_cong [OF refl]) (use adoptable in auto)
  show ?thesis
  proof (cases "find (\<lambda>(k, p). list_all (serving env status) (all_models_of p)) (PROFILES (e_catalog env))")
    case None
    then show ?thesis
      using scan assms(5) find by (auto simp: detect_and_adopt_def bind_def ret_def same_control_def)
  next
    case (Some kp)
    then obtain key p where kp: "kp = (key, p)" "(key, p) \<in> set (PROFILES (e_catalog env))"
        "list_all (serving env status) (all_models_of p)"
      by (cases kp) (auto dest!: find_SomeD)
    have some: "all_models_of p \<noteq> []" "set (all_models_of p) \<subseteq> set ?ms" using profiles kp(2) by auto
    then have "list_ex (serving env status) ?ms"
      using kp(3) by (cases "all_models_of p") (auto simp: list_ex_iff)
    then have running: "sc_running sc = [(c, ''running'')]" using scan(3) by simp
    have containers: "set (map md_container_name (all_models_of p)) = {c}" using models some by (cases "all_models_of p") force+
    define s2 where "s2 = s1\<lparr>os_active := Some key\<rparr>"
    obtain s3 where adopt: "adopt_states sc (all_models_of p) s2 = (Inr (), s3)" "os_active s3 = Some key"
        "os_calls s3 = os_calls s1" "is_model_ready s3 c"
      using adopt_states_shared [of "all_models_of p" c sc s2] models some running by (auto simp: s2_def)
    have here: "c \<in> md_container_name ` set (vp_primary_models p) \<or> c \<in> md_container_name ` set (vp_secondary_models p)"
    proof -
      have "c \<in> set (map md_container_name (all_models_of p))" by (simp only: containers singletonI)
      then show ?thesis by auto
    qed
    obtain s4 where persist: "persist_state env s3 = (Inr (), s4)" "same_control s3 s4"
      using persist_state_total by blast
    obtain cs where cs: "os_calls s4 = os_calls s3 @ cs" "set cs \<subseteq> range CallPersist"
      using persist_calls [of env s3] persist by auto
    have "detect_and_adopt env s = (Inr (Some key), s4)"
      using scan(1) running find Some kp(1) adopt(1) persist(1) here
      by (simp add: detect_and_adopt_def bind_def modify_def ret_def s2_def) blast
    then show ?thesis
      using assms(5) Some kp(1) adopt persist(2) cs scan(5) by (auto simp: same_control_def is_model_ready_def)
  qed
qed

theorem adoption_first_serving_witness:
  "\<exists>s' cs. detect_and_adopt sim_gateway (orch_init ()) = (Inr (Some ''deepseek''), s') \<and> set cs \<subseteq> range CallPersist \<and>
     os_calls s' = map (\<lambda>m. CallHealth (url_of sim_gateway m))
       [DEEPSEEK_V4_FLASH ''vllm_node'', QWEN35_122B_FP8 ''vllm_node'', QWEN38_FLASH_NEXT ''vllm_node''] @ cs"
proof -
  have cat: "e_catalog sim_gateway = gateway_catalog ''vllm_node''" by (simp add: sim_env_def)
  have 1: "stable_health sim_gateway (\<lambda>_. 200)" by (simp add: stable_health_def sim_env_def)
  have 2: "\<forall>m \<in> set (ALL_MODELS (e_catalog sim_gateway)). exec_managed m \<and> md_container_name m = ''vllm_node''"
    by (simp add: cat EXEC_ENGINES_def)
  have 3: "inj_on md_name (set (ALL_MODELS (e_catalog sim_gateway)))" by (simp add: cat)
  have 4: "\<forall>(k, p) \<in> set (PROFILES (e_catalog sim_gateway)). all_models_of p \<noteq> [] \<and>
      set (all_models_of p) \<subseteq> set (ALL_MODELS (e_catalog sim_gateway))"
    by (simp add: cat profile_defs)
  have 5: "Some ''deepseek'' = map_option fst (find (\<lambda>(k, p). list_all (serving sim_gateway (\<lambda>_. 200)) (all_models_of p))
      (PROFILES (e_catalog sim_gateway)))"
    by (simp add: cat list_all_iff)
  from adoption_first_serving [OF 1 2 3 4 5, of "orch_init ()"]
  obtain s' cs where "detect_and_adopt sim_gateway (orch_init ()) = (Inr (Some ''deepseek''), s')"
      "os_calls s' = os_calls (orch_init ()) @ map (\<lambda>m. CallHealth (url_of sim_gateway m)) (ALL_MODELS (e_catalog sim_gateway)) @ cs"
      "set cs \<subseteq> range CallPersist"
    by (elim exE conjE)
  then show ?thesis by (intro exI [of _ s'] exI [of _ cs]) (simp add: cat orch_init_def)
qed

section \<open>Ray health\<close>

abbreviation members :: "('k, 'm list) dict \<Rightarrow> 'm list" where
  "members g \<equiv> concat (map snd g)"

lemma mset_members_add:
  "mset (members (dict_set g k ((case dict_get g k of None \<Rightarrow> [] | Some l \<Rightarrow> l) @ [m]))) = add_mset m (mset (members g))"
  by (induction g) auto

lemma group_by_snoc:
  "group_by f (ms @ [m]) = dict_set (group_by f ms) (f m) ((case dict_get (group_by f ms) (f m) of None \<Rightarrow> [] | Some l \<Rightarrow> l) @ [m])"
  by (simp add: group_by_def)

lemma mset_group_by: "mset (members (group_by f ms)) = mset ms"
  by (induction ms rule: rev_induct) (simp_all only: group_by_snoc mset_members_add, simp_all add: group_by_def)

lemma group_by_nonempty: "(k, grp) \<in> set (group_by f ms) \<Longrightarrow> grp \<noteq> []"
proof (induction ms arbitrary: k grp rule: rev_induct)
  case (snoc m ms)
  let ?l = "(case dict_get (group_by f ms) (f m) of None \<Rightarrow> [] | Some l \<Rightarrow> l) @ [m]"
  have "(k, grp) \<in> set (dict_set (group_by f ms) (f m) ?l)" using snoc.prems by (simp only: group_by_snoc)
  then have "(k, grp) = (f m, ?l) \<or> (k, grp) \<in> set (group_by f ms)"
    using set_dict_set [where d = "group_by f ms" and k = "f m" and v = ?l] by blast
  with snoc.IH show ?case by auto
qed (simp add: group_by_def)

lemma cluster_status_sound:
  assumes "grp \<noteq> []" "\<forall>m \<in> set grp. 0 < required_ray_nodes m" "down \<longrightarrow> act = 0"
  shows "rc_models (cluster_status down c grp act) = map md_name grp"
    "rc_healthy (cluster_status down c grp act) \<longleftrightarrow> (\<forall>m \<in> set grp. int (required_ray_nodes m) \<le> rc_nodes_active (cluster_status down c grp act))"
    "rc_healthy (cluster_status down c grp act) \<longleftrightarrow> rc_detail (cluster_status down c grp act) = None"
proof -
  let ?M = "Max (set (map required_ray_nodes grp))"
  have "?M \<in> set (map required_ray_nodes grp)" using assms(1) by (intro Max_in) auto
  then have "0 < ?M" using assms(2) by auto
  then show "rc_healthy (cluster_status down c grp act) \<longleftrightarrow> rc_detail (cluster_status down c grp act) = None"
    using assms(3) by (auto simp: cluster_status_def Let_def)
  show "rc_models (cluster_status down c grp act) = map md_name grp" by (simp add: cluster_status_def Let_def)
  have "int ?M \<le> act \<longleftrightarrow> (\<forall>m \<in> set grp. int (required_ray_nodes m) \<le> act)"
  proof
    assume "\<forall>m \<in> set grp. int (required_ray_nodes m) \<le> act"
    then show "int ?M \<le> act" using \<open>?M \<in> set (map required_ray_nodes grp)\<close> by auto
  next
    assume le: "int ?M \<le> act"
    have "required_ray_nodes m \<le> ?M" if "m \<in> set grp" for m using that by (intro Max_ge) auto
    then show "\<forall>m \<in> set grp. int (required_ray_nodes m) \<le> act" using le by (meson of_nat_mono order_trans)
  qed
  then show "rc_healthy (cluster_status down c grp act) \<longleftrightarrow> (\<forall>m \<in> set grp. int (required_ray_nodes m) \<le> rc_nodes_active (cluster_status down c grp act))"
    by (simp add: cluster_status_def Let_def)
qed

lemma check_clusters_result:
  "check_clusters env head gs s = (Inr cs, s') \<Longrightarrow>
   list_all2 (\<lambda>c (k, grp). \<exists>down act. c = cluster_status down k grp act \<and> (down \<longrightarrow> act = 0)) cs gs"
proof (induction env head gs arbitrary: s cs s' rule: check_clusters.induct)
  case (1 env head)
  then show ?case by (simp add: ret_def)
next
  case (2 env head k grp gs)
  let ?down = "head = None \<and> list_ex (\<lambda>m. md_engine m = ''ray_vllm'') grp"
  obtain act s1 where act: "(if ?down then ret 0 else count_ray_nodes env k) s = (Inr act, s1)"
    using 2(2) by (auto simp: bind_def Let_def split: prod.splits sum.splits)
  obtain rest s2 where rest: "check_clusters env head gs s1 = (Inr rest, s2)"
    using 2(2) act by (auto simp: bind_def Let_def split: prod.splits sum.splits)
  have "cs = cluster_status ?down k grp act # rest" using 2(2) act rest by (simp add: bind_def ret_def Let_def)
  moreover have "?down \<longrightarrow> act = 0" using act by (auto simp: ret_def)
  ultimately show ?case using 2(1) [OF refl rest] by auto
qed

lemma list_all2_in_set1: "list_all2 P xs ys \<Longrightarrow> x \<in> set xs \<Longrightarrow> \<exists>y \<in> set ys. P x y"
  by (induction rule: list_all2_induct) auto

text \<open>What a Ray status means.  A status is only given for an active profile with Ray models.
  Its clusters list exactly those models, each once; the status is healthy iff every cluster
  is; a cluster is healthy iff it has the nodes each of its models needs, and then, and only
  then, it carries no explanation.\<close>

theorem ray_status_sound:
  assumes "check_ray_requirement env s = (Inr (Some st), s')"
  shows "\<exists>p ms. active_vram_profile env s = Some p \<and> ms = filter (\<lambda>m. required_ray_nodes m > 0) (all_models_of p) \<and> ms \<noteq> [] \<and>
    mset (concat (map rc_models (rs_clusters st))) = mset (map md_name ms) \<and>
    (rs_healthy st \<longleftrightarrow> (\<forall>c \<in> set (rs_clusters st). rc_healthy c)) \<and>
    (\<forall>c \<in> set (rs_clusters st). \<exists>grp \<subseteq> set ms. set (rc_models c) = md_name ` grp \<and>
       (rc_healthy c \<longleftrightarrow> (\<forall>m \<in> grp. int (required_ray_nodes m) \<le> rc_nodes_active c)) \<and>
       (rc_healthy c \<longleftrightarrow> rc_detail c = None))"
proof -
  obtain p where p: "active_vram_profile env s = Some p"
    using assms by (cases "active_vram_profile env s") (auto simp: check_ray_requirement_def bind_def gets_def ret_def)
  define ms where "ms = filter (\<lambda>m. required_ray_nodes m > 0) (all_models_of p)"
  have ms: "ms \<noteq> []"
    using assms p by (auto simp: check_ray_requirement_def bind_def gets_def ret_def ms_def Let_def split: if_splits)
  obtain head s1 cs s2 where cs: "check_clusters env head (group_by (ray_container head) ms) s1 = (Inr cs, s2)"
      and st: "st = \<lparr>rs_healthy = list_all rc_healthy cs, rs_clusters = cs, rs_checked_ms_ago = None\<rparr>"
    using assms p ms unfolding check_ray_requirement_def ms_def
    by (auto simp: bind_def gets_def ret_def Let_def split: prod.splits sum.splits if_splits)
  let ?gs = "group_by (ray_container head) ms"
  have sound: "rc_models c = map md_name grp \<and> (rc_healthy c \<longleftrightarrow> (\<forall>m \<in> set grp. int (required_ray_nodes m) \<le> rc_nodes_active c)) \<and>
      (rc_healthy c \<longleftrightarrow> rc_detail c = None) \<and> set grp \<subseteq> set ms"
    if c: "c = cluster_status down k grp act" "down \<longrightarrow> act = 0" and grp: "(k, grp) \<in> set ?gs" for c k grp down act
  proof -
    have sub: "set grp \<subseteq> set ms"
      using mset_eq_setD [OF mset_group_by [of "ray_container head" ms]] grp by force
    then have "\<forall>m \<in> set grp. 0 < required_ray_nodes m" by (auto simp: ms_def)
    from cluster_status_sound [OF group_by_nonempty [OF grp] this c(2), of k] sub show ?thesis
      unfolding c(1) by blast
  qed
  have all: "list_all2 (\<lambda>c (k, grp). \<exists>down act. c = cluster_status down k grp act \<and> (down \<longrightarrow> act = 0)) cs ?gs"
    by (rule check_clusters_result [OF cs])
  have grouped: "\<exists>k grp. (k, grp) \<in> set ?gs \<and> rc_models c = map md_name grp \<and> set grp \<subseteq> set ms \<and>
      (rc_healthy c \<longleftrightarrow> (\<forall>m \<in> set grp. int (required_ray_nodes m) \<le> rc_nodes_active c)) \<and>
      (rc_healthy c \<longleftrightarrow> rc_detail c = None)" if c: "c \<in> set cs" for c
  proof -
    obtain kg where "kg \<in> set ?gs" "case kg of (k, grp) \<Rightarrow> \<exists>down act. c = cluster_status down k grp act \<and> (down \<longrightarrow> act = 0)"
      using list_all2_in_set1 [OF all c] by blast
    then obtain k grp down act where kg: "(k, grp) \<in> set ?gs" "c = cluster_status down k grp act" "down \<longrightarrow> act = 0"
      by (cases kg) auto
    from sound [OF kg(2,3,1)] kg(1) show ?thesis by (intro exI [of _ k] exI [of _ grp]) argo
  qed
  have "list_all2 (\<lambda>c kg. rc_models c = map md_name (snd kg)) cs ?gs"
    using all by (rule list.rel_mono_strong) (use sound in fastforce)
  then have "map rc_models cs = map (map md_name) (map snd ?gs)"
    by (simp add: list_all2_conv_all_nth list_eq_iff_nth_eq)
  then have "mset (concat (map rc_models cs)) = image_mset md_name (mset (members ?gs))"
    by (simp only: map_concat [symmetric] mset_map)
  then have "mset (concat (map rc_models cs)) = mset (map md_name ms)" by (simp add: mset_group_by)
  moreover have "\<exists>grp \<subseteq> set ms. set (rc_models c) = md_name ` grp \<and>
       (rc_healthy c \<longleftrightarrow> (\<forall>m \<in> grp. int (required_ray_nodes m) \<le> rc_nodes_active c)) \<and>
       (rc_healthy c \<longleftrightarrow> rc_detail c = None)" if c: "c \<in> set cs" for c
    using grouped [OF c] by (elim exE conjE) (rule_tac x = "set grp" in exI, simp)
  ultimately show ?thesis
    using p ms by (intro exI [of _ p] exI [of _ ms]) (auto simp: ms_def st list_all_iff)
qed

text \<open>The active profile of the gateway with a Ray model, on a node that reports two Ray nodes.\<close>

definition serving_qwen35 :: "unit orch" where
  "serving_qwen35 = orch_init ()\<lparr>os_active := Some ''qwen35''\<rparr>"

theorem ray_status_sound_witness:
  "\<exists>st s'. check_ray_requirement sim_gateway serving_qwen35 = (Inr (Some st), s') \<and>
     concat (map rc_models (rs_clusters st)) = [''qwen3.5-122b'']"
proof -
  have cat: "e_catalog sim_gateway = gateway_catalog ''vllm_node''" by (simp add: sim_env_def)
  let ?m = "QWEN35_122B_FP8 ''vllm_node''"
  have p: "active_vram_profile sim_gateway serving_qwen35 = Some (PROFILE_QWEN35 ''vllm_node'')"
    by (simp add: active_vram_profile_def serving_qwen35_def cat)
  have ray: "required_ray_nodes ?m = 2" by (simp add: required_ray_nodes_def)
  have models: "all_models_of (PROFILE_QWEN35 ''vllm_node'') = [?m]" by (simp add: profile_defs)
  obtain st s' where run: "check_ray_requirement sim_gateway serving_qwen35 = (Inr (Some st), s')"
  proof -
    have int: "py_int t \<noteq> Inl CancelledError" for t by (simp add: py_int_def Let_def split: option.split)
    have "\<exists>n s1. count_ray_nodes sim_gateway ''vllm_node'' s = (Inr n, s1)" for s
      using int [of "py_strip ''2''"]
      by (auto simp: count_ray_nodes_def exec_in_workload_def sim_env_def sim_backend_def eff_simps Let_def
          split: sum.split)
    then obtain n s1 where count: "count_ray_nodes sim_gateway ''vllm_node'' serving_qwen35 = (Inr n, s1)" by blast
    have no_ray: "\<not> list_ex (\<lambda>m. md_engine m = ''ray_vllm'') [?m]" by simp
    have "filter (\<lambda>m. 0 < required_ray_nodes m) (all_models_of (PROFILE_QWEN35 ''vllm_node'')) = [?m]"
      unfolding models by (simp add: ray)
    then show ?thesis
      using that p count no_ray
      by (simp add: check_ray_requirement_def group_by_def ray_container_def bind_def gets_def ret_def Let_def)
  qed
  from ray_status_sound [OF run] obtain p' ms where ms: "active_vram_profile sim_gateway serving_qwen35 = Some p'"
      "ms = filter (\<lambda>m. required_ray_nodes m > 0) (all_models_of p')"
      "mset (concat (map rc_models (rs_clusters st))) = mset (map md_name ms)"
    by blast
  have "p' = PROFILE_QWEN35 ''vllm_node''" using ms(1) p by simp
  then have "ms = [?m]" using ms(2) by (simp only: models) (simp add: ray)
  then have "mset (concat (map rc_models (rs_clusters st))) = {#''qwen3.5-122b''#}" using ms(3) by simp
  with run show ?thesis by auto
qed

end
