(* ===== verification/Identity.thy ===== *)
theory Identity
  imports Schemas
begin

text \<open>
  \<open>gateway/identity.py\<close>: the label of a caller, derived from the headers of its request, and the
  mutable context a request carries.  Header names are compared without case, so the headers are
  a function of the lower-case name.  The first 8 hexadecimal digits of SHA-256 are a parameter
  \<open>sha8\<close>; \<open>py_str\<close> is \<open>str()\<close> of a JSON value.
\<close>

section \<open>Strings\<close>

lemma lstrip_hd: "lstrip s = c # cs \<Longrightarrow> \<not> is_space c"
  by (metis hd_dropWhile list.discI list.sel(1) lstrip_def)

lemma lstrip_clean [simp]: "s \<noteq> [] \<Longrightarrow> \<not> is_space (hd s) \<Longrightarrow> lstrip s = s"
  by (cases s) (simp_all add: lstrip_def)

lemma rstrip_clean [simp]: "s \<noteq> [] \<Longrightarrow> \<not> is_space (last s) \<Longrightarrow> rstrip s = s"
  by (cases s rule: rev_cases) (simp_all add: rstrip_def)

lemma rstrip_Cons: "\<not> is_space c \<Longrightarrow> \<exists>cs'. rstrip (c # cs) = c # cs'"
proof -
  assume c: "\<not> is_space c"
  have "\<exists>xs. dropWhile is_space (rev cs @ [c]) = xs @ [c]"
    using c by (induction "rev cs" arbitrary: cs) (auto simp: dropWhile_append)
  then obtain xs where "dropWhile is_space (rev cs @ [c]) = xs @ [c]" by blast
  then show ?thesis by (intro exI [of _ "rev xs"]) (simp add: rstrip_def)
qed

lemma py_strip_hd: "py_strip s = c # cs \<Longrightarrow> \<not> is_space c"
proof (cases "lstrip s")
  case (Cons d ds)
  assume strip: "py_strip s = c # cs"
  obtain ds' where "rstrip (d # ds) = d # ds'" using rstrip_Cons [OF lstrip_hd [OF Cons]] by blast
  then have "c = d" using strip Cons by (simp add: py_strip_def)
  then show ?thesis using lstrip_hd [OF Cons] by simp
qed (simp add: py_strip_def rstrip_def)

lemma split_ws_hd: "\<not> is_space c \<Longrightarrow> \<exists>w ws. split_ws (c # cs) = (c # w) # ws"
  by (subst split_ws.simps) (simp add: lstrip_def)

section \<open>API keys\<close>

text \<open>\<open>_parse_agent_keys\<close>: entries \<open>key:name\<close> separated by commas; later entries win.\<close>

definition parse_entry :: "string \<Rightarrow> (string \<times> string) option" where
  "parse_entry e =
     (let entry = py_strip e in
      if entry = [] \<or> CHR '':'' \<notin> set entry then None
      else (let key = py_strip (takeWhile (\<lambda>c. c \<noteq> CHR '':'') entry);
                name = py_strip (tl (dropWhile (\<lambda>c. c \<noteq> CHR '':'') entry))
            in if key \<noteq> [] \<and> name \<noteq> [] then Some (key, name) else None))"

definition parse_agent_keys :: "string \<Rightarrow> (string, string) dict" where
  "parse_agent_keys raw = fold (\<lambda>e m. case parse_entry e of None \<Rightarrow> m | Some (k, n) \<Rightarrow> dict_set m k n)
     (split_char CHR '','' raw) []"

text \<open>A string that survives stripping and contains none of the given characters.\<close>

definition clean_word :: "char list \<Rightarrow> string \<Rightarrow> bool" where
  "clean_word bad s = (s \<noteq> [] \<and> \<not> is_space (hd s) \<and> \<not> is_space (last s) \<and> (\<forall>c \<in> set s. c \<notin> set bad))"

lemma clean_strip: "clean_word bad s \<Longrightarrow> py_strip s = s"
  by (simp add: clean_word_def py_strip_def)

lemma clean_free: "clean_word bad s \<Longrightarrow> c \<in> set bad \<Longrightarrow> c \<notin> set s"
  by (auto simp: clean_word_def)

lemma partition_at: "c \<notin> set k \<Longrightarrow> takeWhile (\<lambda>x. x \<noteq> c) (k @ c # n) = k \<and> dropWhile (\<lambda>x. x \<noteq> c) (k @ c # n) = c # n"
  by (induction k) auto

lemma parse_entry_clean:
  assumes "clean_word [CHR '','', CHR '':''] k" "clean_word [CHR '',''] n"
  shows "parse_entry (k @ CHR '':'' # n) = Some (k, n)"
proof -
  have strip: "py_strip (k @ CHR '':'' # n) = k @ CHR '':'' # n"
    using assms by (intro clean_strip [of "[]"]) (auto simp: clean_word_def)
  have colon: "CHR '':'' \<notin> set k" using assms(1) by (auto simp: clean_word_def)
  then have "takeWhile (\<lambda>c. c \<noteq> CHR '':'') (k @ CHR '':'' # n) = k"
    "dropWhile (\<lambda>c. c \<noteq> CHR '':'') (k @ CHR '':'' # n) = CHR '':'' # n"
    by (auto simp: partition_at)
  moreover have "k \<noteq> []" "n \<noteq> []" using assms by (auto simp: clean_word_def)
  ultimately show ?thesis
    unfolding parse_entry_def by (simp add: Let_def strip clean_strip [OF assms(1)] clean_strip [OF assms(2)])
qed

lemma fold_dict_set_new:
  "distinct (dict_keys m @ map fst kns) \<Longrightarrow> fold (\<lambda>(k, n) m. dict_set m k n) kns m = m @ kns"
proof (induction kns arbitrary: m)
  case (Cons kn kns)
  obtain k n where kn: "kn = (k, n)" by (cases kn)
  have "dict_set m k n = m @ [(k, n)]"
    using Cons.prems unfolding kn by (induction m) auto
  then show ?case using Cons by (simp add: kn)
qed simp

lemma parse_agent_keys_roundtrip:
  assumes "distinct (map fst kns)" "\<forall>(k, n) \<in> set kns. clean_word [CHR '','', CHR '':''] k \<and> clean_word [CHR '',''] n"
  shows "parse_agent_keys (py_join [CHR '',''] (map (\<lambda>(k, n). k @ CHR '':'' # n) kns)) = kns"
proof (cases "kns = []")
  case True
  then show ?thesis by (simp add: parse_agent_keys_def parse_entry_def py_strip_def lstrip_def rstrip_def)
next
  case False
  let ?es = "map (\<lambda>(k, n). k @ CHR '':'' # n) kns"
  have "CHR '','' \<notin> set (k @ CHR '':'' # n)" if "(k, n) \<in> set kns" for k n
    using bspec [OF assms(2) that] clean_free [of "'',:''" k "CHR '',''"] clean_free [of "'',''" n "CHR '',''"] by simp
  then have "\<forall>e \<in> set ?es. CHR '','' \<notin> set e" by force
  then have split: "split_char CHR '','' (py_join [CHR '',''] ?es) = ?es" using False by (intro split_join) auto
  have "fold (\<lambda>e m. case parse_entry e of None \<Rightarrow> m | Some (k, n) \<Rightarrow> dict_set m k n) ?es m =
      fold (\<lambda>(k, n) m. dict_set m k n) kns m" for m
    unfolding fold_map o_def
  proof (rule fold_cong [OF refl refl])
    fix kn assume kn: "kn \<in> set kns"
    obtain k n where [simp]: "kn = (k, n)" by (cases kn)
    have "parse_entry (k @ CHR '':'' # n) = Some (k, n)" using kn assms(2) by (intro parse_entry_clean) auto
    then show "(\<lambda>m. case parse_entry (case kn of (k, n) \<Rightarrow> k @ CHR '':'' # n) of None \<Rightarrow> m | Some (k, n) \<Rightarrow> dict_set m k n) =
        (case kn of (k, n) \<Rightarrow> \<lambda>m. dict_set m k n)"
      by simp
  qed
  then show ?thesis
    using fold_dict_set_new [of "[]" kns] assms(1) by (simp add: parse_agent_keys_def split)
qed

section \<open>Identification\<close>

abbreviation or_empty :: "string option \<Rightarrow> string" where
  "or_empty x \<equiv> (case x of None \<Rightarrow> [] | Some s \<Rightarrow> s)"

definition fingerprint :: "(string \<Rightarrow> string) \<Rightarrow> string \<Rightarrow> string" where
  "fingerprint sha8 secret = ''key:'' @ sha8 secret"

text \<open>\<open>product_token\<close>: the first word before a slash; \<open>split()[0]\<close> of a blank string raises.\<close>

definition product_token :: "string option \<Rightarrow> exn + string" where
  "product_token ua =
     (if or_empty ua = [] then Inr []
      else if py_strip (or_empty ua) = [] then Inr []
      else (case split_ws (hd (split_char CHR ''/'' (py_strip (or_empty ua)))) of
              [] \<Rightarrow> Inl IndexError | w # _ \<Rightarrow> Inr (take 32 w)))"

definition bearer_token :: "(string \<Rightarrow> string option) \<Rightarrow> string" where
  "bearer_token h =
     (let auth = or_empty (h ''authorization'');
          token = (if py_lower (take 7 auth) = ''bearer '' then py_strip (drop 7 auth) else [])
      in if token \<noteq> [] then token else py_strip (or_empty (h ''x-api-key'')))"

definition explicit_name :: "string \<Rightarrow> (string \<Rightarrow> string option) \<Rightarrow> string" where
  "explicit_name agent_header h =
     (if or_empty (h agent_header) \<noteq> [] then or_empty (h agent_header) else or_empty (h ''x-agent-name''))"

definition identify ::
    "(string \<Rightarrow> string) \<Rightarrow> string \<Rightarrow> (string, string) dict \<Rightarrow> (string \<Rightarrow> string option) \<Rightarrow> string \<Rightarrow> exn + string" where
  "identify sha8 agent_header keys h ip =
     (let explicit = explicit_name agent_header h; ua = or_empty (h ''user-agent''); token = bearer_token h;
          title = or_empty (h ''x-title'')
      in if explicit \<noteq> [] then Inr (take 64 (py_strip explicit))
         else if token \<noteq> [] then
           (if or_empty (dict_get keys token) \<noteq> [] then Inr (or_empty (dict_get keys token))
            else and_then (product_token (Some ua)) (\<lambda>product.
              Inr (if product \<noteq> [] then product @ CHR ''~'' # drop 4 (fingerprint sha8 token) else fingerprint sha8 token)))
         else if title \<noteq> [] then Inr (take 64 (py_strip title))
         else if ua \<noteq> [] then Inr (take 64 (py_strip ua))
         else Inr (''ip:'' @ ip))"

definition client_ip :: "(string \<Rightarrow> string option) \<Rightarrow> string option \<Rightarrow> string" where
  "client_ip h peer =
     (if or_empty (h ''x-forwarded-for'') \<noteq> [] then py_strip (hd (split_char CHR '','' (or_empty (h ''x-forwarded-for''))))
      else if or_empty peer \<noteq> [] then or_empty peer else ''-'')"

lemma split_char_hd: "hd (split_char c s) = takeWhile (\<lambda>x. x \<noteq> c) s"
  by (induction s) (auto split: list.splits)

lemma product_token_raises:
  "product_token ua = Inl e \<longleftrightarrow> e = IndexError \<and> (\<exists>rest. py_strip (or_empty ua) = CHR ''/'' # rest)"
proof (cases "py_strip (or_empty ua)")
  case Nil
  then show ?thesis by (auto simp: product_token_def)
next
  case (Cons c cs)
  have space: "\<not> is_space c" using py_strip_hd [OF Cons] .
  have nonempty: "or_empty ua \<noteq> []" using Cons by (auto simp: py_strip_def lstrip_def rstrip_def)
  show ?thesis
  proof (cases "c = CHR ''/''")
    case True
    have "split_ws [] = []" by (simp add: split_ws.simps lstrip_def)
    then show ?thesis using Cons nonempty True by (auto simp: product_token_def)
  next
    case False
    obtain w ws where "split_ws (c # takeWhile (\<lambda>x. x \<noteq> CHR ''/'') cs) = (c # w) # ws"
      using split_ws_hd [OF space] by blast
    then show ?thesis using Cons nonempty False by (simp add: product_token_def split_char_hd del: split_char.simps)
  qed
qed

text \<open>When identification fails.  Identifying a caller raises exactly one exception, in exactly
  one case: no explicit name, an API key that is not in the map, and a \<open>User-Agent\<close> whose first
  character other than blanks is a slash.  Every other request gets a label.\<close>

theorem identify_raises:
  "identify sha8 agent_header keys h ip = Inl e \<longleftrightarrow>
   e = IndexError \<and> explicit_name agent_header h = [] \<and> bearer_token h \<noteq> [] \<and>
   or_empty (dict_get keys (bearer_token h)) = [] \<and> (\<exists>rest. py_strip (or_empty (h ''user-agent'')) = CHR ''/'' # rest)"
proof -
  have "and_then (product_token ua) (\<lambda>x. Inr (f x)) = Inl e \<longleftrightarrow> product_token ua = Inl e" for ua and f :: "string \<Rightarrow> string"
    by (cases "product_token ua") simp_all
  then show ?thesis by (auto simp: identify_def Let_def product_token_raises)
qed

text \<open>C26: an API key reaches the label only through its operator-configured name or its fingerprint.
  Two requests that agree on every other header, and whose keys are both present, have the same
  configured name and the same 8-digit fingerprint, get the same label or the same exception.\<close>

theorem identify_hides_secret:
  assumes "\<And>n. n \<noteq> ''authorization'' \<Longrightarrow> n \<noteq> ''x-api-key'' \<Longrightarrow> h n = h' n"
    and "agent_header \<noteq> ''authorization''" "agent_header \<noteq> ''x-api-key''"
    and "bearer_token h = [] \<longleftrightarrow> bearer_token h' = []"
    and "or_empty (dict_get keys (bearer_token h)) = or_empty (dict_get keys (bearer_token h'))"
    and "sha8 (bearer_token h) = sha8 (bearer_token h')"
  shows "identify sha8 agent_header keys h ip = identify sha8 agent_header keys h' ip"
proof -
  have "h agent_header = h' agent_header" "h ''x-agent-name'' = h' ''x-agent-name''"
    "h ''user-agent'' = h' ''user-agent''" "h ''x-title'' = h' ''x-title''"
    using assms(1-3) by simp_all
  moreover have "fingerprint sha8 (bearer_token h) = fingerprint sha8 (bearer_token h')"
    using assms(6) by (simp add: fingerprint_def)
  ultimately show ?thesis using assms(4,5) by (simp add: identify_def explicit_name_def Let_def cong: if_cong)
qed

theorem identify_hides_secret_witness:
  "identify (\<lambda>_. ''0a1b2c3d'') ''x-agent-id'' [] ([''authorization'' \<mapsto> ''Bearer s1'', ''user-agent'' \<mapsto> ''openclaw/1.4'']) ''10.0.0.5'' =
   identify (\<lambda>_. ''0a1b2c3d'') ''x-agent-id'' [] ([''x-api-key'' \<mapsto> ''s2'', ''user-agent'' \<mapsto> ''openclaw/1.4'']) ''10.0.0.5''"
  by (rule identify_hides_secret) (auto simp: bearer_token_def str_eval)

section \<open>The request context\<close>

record request_ctx =
  cx_rid :: string
  cx_harness :: string
  cx_agent :: string
  cx_session :: string
  cx_client_ip :: string
  cx_model :: string
  cx_profile :: string

definition new_request_context :: "string \<Rightarrow> string \<Rightarrow> string \<Rightarrow> request_ctx" where
  "new_request_context rid harness ip =
     \<lparr>cx_rid = rid, cx_harness = harness, cx_agent = harness, cx_session = [], cx_client_ip = ip, cx_model = [], cx_profile = []\<rparr>"

text \<open>Truth of a JSON value, and \<open>a or b\<close>.\<close>

fun json_truthy :: "json \<Rightarrow> bool" where
  "json_truthy JNull = False"
| "json_truthy (JBool b) = b"
| "json_truthy (JInt n) = (n \<noteq> 0)"
| "json_truthy (JFloat q) = (q \<noteq> 0)"
| "json_truthy (JStr s) = (s \<noteq> [])"
| "json_truthy (JArr xs) = (xs \<noteq> [])"
| "json_truthy (JObj d) = (d \<noteq> [])"

definition opt_json :: "string option \<Rightarrow> json" where
  "opt_json x = (case x of None \<Rightarrow> JNull | Some s \<Rightarrow> JStr s)"

definition json_or :: "json \<Rightarrow> json \<Rightarrow> json" where
  "json_or a b = (if json_truthy a then a else b)"

text \<open>\<open>set_agent\<close>; outside a request (\<open>None\<close>) it does nothing.\<close>

definition refine_label :: "string \<Rightarrow> string \<Rightarrow> string" where
  "refine_label harness0 agent =
     (let harness = takeWhile (\<lambda>c. c \<noteq> CHR ''~'') harness0 in
      if harness = [] \<or> harness = agent \<or> take 3 harness = ''ip:'' \<or> take 4 harness = ''key:'' then agent
      else harness @ CHR ''/'' # agent)"

definition set_agent :: "(json \<Rightarrow> string) \<Rightarrow> json \<Rightarrow> json \<Rightarrow> request_ctx option \<Rightarrow> request_ctx option" where
  "set_agent py_str agent session ctx0 = map_option (\<lambda>ctx.
     let ctx1 = (if json_truthy session then ctx\<lparr>cx_session := take 32 (py_strip (py_str session))\<rparr> else ctx);
         name = take 48 (py_strip (py_str agent))
     in if \<not> json_truthy agent \<or> name = [] then ctx1
        else ctx1\<lparr>cx_agent := refine_label (cx_harness ctx1) name\<rparr>) ctx0"

definition set_model :: "string option \<Rightarrow> string option \<Rightarrow> request_ctx option \<Rightarrow> request_ctx option" where
  "set_model model profile ctx0 = map_option (\<lambda>ctx.
     let ctx1 = (if or_empty model \<noteq> [] then ctx\<lparr>cx_model := take 64 (or_empty model)\<rparr> else ctx)
     in if or_empty profile \<noteq> [] then ctx1\<lparr>cx_profile := take 32 (or_empty profile)\<rparr> else ctx1) ctx0"

definition current_agent :: "request_ctx option \<Rightarrow> string" where
  "current_agent ctx = (case ctx of None \<Rightarrow> ''-'' | Some c \<Rightarrow> cx_agent c)"

definition current_model :: "request_ctx option \<Rightarrow> string" where
  "current_model ctx = (case ctx of None \<Rightarrow> [] | Some c \<Rightarrow> cx_model c)"

text \<open>\<open>RequestContextFilter.filter\<close>: the \<open>rid\<close> and \<open>agent\<close> put on a log record.\<close>

definition context_filter :: "request_ctx option \<Rightarrow> string \<times> string" where
  "context_filter ctx = (case ctx of None \<Rightarrow> (''-'', ''-'') | Some c \<Rightarrow> (cx_rid c, cx_agent c))"

text \<open>The refined label does not nest: it depends on the harness and the last name only.\<close>

lemma set_agent_last:
  assumes "json_truthy b" "py_strip (py_str b) \<noteq> []"
  shows "map_option cx_agent (set_agent py_str b sb (set_agent py_str a sa ctx)) = map_option cx_agent (set_agent py_str b sb ctx)"
  using assms by (cases ctx) (auto simp: set_agent_def Let_def)

lemma set_agent_keeps:
  "set_agent py_str a sa (Some c) = Some c' \<Longrightarrow> cx_rid c' = cx_rid c \<and> cx_harness c' = cx_harness c \<and>
   cx_client_ip c' = cx_client_ip c \<and> cx_model c' = cx_model c \<and> cx_profile c' = cx_profile c"
  by (auto simp: set_agent_def Let_def split: if_splits)

end
