(* ===== verification/Proxy.thy ===== *)
theory Proxy
  imports Config Effects Identity
begin

text \<open>
  \<open>gateway/proxy.py\<close>: requests to the inference backends.  The aiohttp session is a parameter: a
  response is an abstract handle from which the text, the JSON value or the stream of chunks is
  read, and each of these may fail.  An error is \<open>Transient\<close> if it is one of those the proxy
  retries on (\<open>ClientError\<close>, \<open>TimeoutError\<close>, \<open>OSError\<close>; with its \<open>str()\<close>), else \<open>Fatal\<close>.  A stream is
  finite, since the session's total timeout ends it.  A number is one a float can hold.
\<close>

section \<open>The session\<close>

datatype net_error = Transient string | Fatal exn

record ('w, 'r) http =
  h_post :: "string \<Rightarrow> (string, json) dict \<Rightarrow> ('w, net_error + nat \<times> 'r) ext"
  h_get :: "string \<Rightarrow> ('w, net_error + nat \<times> 'r) ext"
  h_text :: "'r \<Rightarrow> ('w, net_error + string) ext"
  h_json :: "'r \<Rightarrow> ('w, net_error + json) ext"
  h_stream :: "'r \<Rightarrow> ('w, string list \<times> net_error option) ext"
  h_sleep :: "nat \<Rightarrow> ('w, exn + unit) ext"
  h_resolve :: "string \<Rightarrow> string \<Rightarrow> string"
  h_dumps :: "json \<Rightarrow> string"
  h_loads :: "string \<Rightarrow> json option"

text \<open>What the proxy does, in order: requests, the chunks a response delivered, sleeps.\<close>

datatype proxy_call =
    PPost string "(string, json) dict"
  | PGet string
  | PRead
  | PChunks "string list"
  | PSleep nat

record 'w proxy =
  px_served :: "(string, json) dict"
  px_world :: 'w
  px_now :: nat
  px_calls :: "proxy_call list"

definition proxy_init :: "'w \<Rightarrow> 'w proxy" where
  "proxy_init w = \<lparr>px_served = [], px_world = w, px_now = 0, px_calls = []\<rparr>"

definition CONNECT_RETRIES :: nat where "CONNECT_RETRIES = 300"
definition CONNECT_RETRY_DELAY :: nat where "CONNECT_RETRY_DELAY = 2"

definition net :: "('a \<Rightarrow> proxy_call) \<Rightarrow> ('w, 'a) ext \<Rightarrow> ('w proxy, 'a) eff" where
  "net c m = (\<lambda>s. case m (px_world s) of (r, d, w) \<Rightarrow>
     (Inr r, s\<lparr>px_world := w, px_now := px_now s + d, px_calls := px_calls s @ [c r]\<rparr>))"

definition pause :: "('w, 'r) http \<Rightarrow> ('w proxy, unit) eff" where
  "pause h = bind (net (\<lambda>_. PSleep CONNECT_RETRY_DELAY) (h_sleep h CONNECT_RETRY_DELAY)) (\<lambda>r.
     case r of Inl e \<Rightarrow> throw e | Inr _ \<Rightarrow> ret ())"

definition backend_url :: "('w, 'r) http \<Rightarrow> model_definition \<Rightarrow> string \<Rightarrow> string" where
  "backend_url h m path =
     ''http://'' @ h_resolve h (md_container_name m) (md_engine m) @ '':'' @ show_nat (md_port m) @ path"

definition default_resolve :: "settings \<Rightarrow> string \<Rightarrow> string \<Rightarrow> string" where
  "default_resolve cfg name engine = (if engine \<in> set EXEC_ENGINES then RAY_HEAD_HOST cfg else name)"

section \<open>JSON values\<close>

definition json_get :: "(string, json) dict \<Rightarrow> string \<Rightarrow> json \<Rightarrow> json" where
  "json_get d k v = (case dict_get d k of Some x \<Rightarrow> x | None \<Rightarrow> v)"

definition json_num :: "json \<Rightarrow> rat option" where
  "json_num v = (case v of JInt n \<Rightarrow> Some (of_int n) | JFloat q \<Rightarrow> Some q | JBool b \<Rightarrow> Some (if b then 1 else 0) | _ \<Rightarrow> None)"

abbreviation attribute_error :: exn where
  "attribute_error \<equiv> OtherError ''AttributeError''"

definition error_body :: "string \<Rightarrow> int \<Rightarrow> json" where
  "error_body message status = JObj [(''error'', JObj [(''message'', JStr message), (''code'', JInt status)])]"

section \<open>Served names\<close>

text \<open>\<open>[m["id"] for m in value.get("data", [])]\<close>; iterating over a string or a dictionary gives
  strings, and a string has no entry \<open>"id"\<close>.\<close>

fun model_ids_of :: "json list \<Rightarrow> exn + json list" where
  "model_ids_of [] = Inr []"
| "model_ids_of (m # ms) = (case m of
       JObj d \<Rightarrow> (case dict_get d ''id'' of None \<Rightarrow> Inl KeyError
                 | Some i \<Rightarrow> and_then (model_ids_of ms) (\<lambda>is. Inr (i # is)))
     | _ \<Rightarrow> Inl TypeError)"

definition model_ids :: "json \<Rightarrow> exn + json list" where
  "model_ids v = (case v of
       JObj d \<Rightarrow> (case json_get d ''data'' (JArr []) of
           JArr ms \<Rightarrow> model_ids_of ms
         | JStr s \<Rightarrow> (if s = [] then Inr [] else Inl TypeError)
         | JObj e \<Rightarrow> (if e = [] then Inr [] else Inl TypeError)
         | _ \<Rightarrow> Inl TypeError)
     | _ \<Rightarrow> Inl attribute_error)"

definition pick_served :: "string \<Rightarrow> json list \<Rightarrow> json option" where
  "pick_served name ids =
     (let served = (if JStr name \<in> set ids then JStr name else case ids of [] \<Rightarrow> JNull | i # _ \<Rightarrow> i)
      in if json_truthy served then Some served else None)"

text \<open>The \<open>try\<close> of \<open>_served_model_name\<close>: an exception it does not catch, or the name found.\<close>

definition swallowed :: "net_error \<Rightarrow> exn option" where
  "swallowed e = (case e of Transient _ \<Rightarrow> None
     | Fatal x \<Rightarrow> if x \<in> {ValueError, KeyError} then None else Some x)"

definition ask_served :: "('w, 'r) http \<Rightarrow> model_definition \<Rightarrow> ('w proxy, net_error + json option) eff" where
  "ask_served h m =
     bind (net (\<lambda>_. PGet (backend_url h m ''/v1/models'')) (h_get h (backend_url h m ''/v1/models''))) (\<lambda>r. case r of
       Inl e \<Rightarrow> ret (Inl e)
     | Inr (status, resp) \<Rightarrow>
         (if status \<noteq> 200 then ret (Inr None)
          else bind (net (\<lambda>_. PRead) (h_json h resp)) (\<lambda>v. case v of
            Inl e \<Rightarrow> ret (Inl e)
          | Inr j \<Rightarrow> (case model_ids j of Inl e \<Rightarrow> ret (Inl (Fatal e))
                      | Inr ids \<Rightarrow> ret (Inr (pick_served (md_name m) ids))))))"

definition served_model_name :: "('w, 'r) http \<Rightarrow> model_definition \<Rightarrow> ('w proxy, json) eff" where
  "served_model_name h m =
     bind (gets (\<lambda>s. json_get (px_served s) (md_name m) JNull)) (\<lambda>cached.
     if json_truthy cached then ret cached
     else bind (ask_served h m) (\<lambda>r. case r of
         Inr (Some served) \<Rightarrow>
           seq (modify (\<lambda>s. s\<lparr>px_served := dict_set (px_served s) (md_name m) served\<rparr>)) (ret served)
       | Inr None \<Rightarrow> ret (JStr (md_name m))
       | Inl e \<Rightarrow> (case swallowed e of None \<Rightarrow> ret (JStr (md_name m)) | Some x \<Rightarrow> throw x)))"

definition forget_served_names :: "string option \<Rightarrow> 'w proxy \<Rightarrow> 'w proxy" where
  "forget_served_names name s = (case name of
       None \<Rightarrow> s\<lparr>px_served := []\<rparr> | Some n \<Rightarrow> s\<lparr>px_served := dict_pop (px_served s) n\<rparr>)"

section \<open>Completions\<close>

text \<open>The figures logged for a completion; what is not a number raises.\<close>

definition log_usage :: "nat \<Rightarrow> json \<Rightarrow> exn + unit" where
  "log_usage elapsed result = (case result of
       JObj d \<Rightarrow> (case json_or (json_get d ''usage'' JNull) (JObj []) of
           JObj u \<Rightarrow> (if elapsed > 0 \<and> json_num (json_get u ''completion_tokens'' (JInt 0)) = None then Inl TypeError else Inr ())
         | _ \<Rightarrow> Inl attribute_error)
     | _ \<Rightarrow> Inl attribute_error)"

definition try_post :: "('w, 'r) http \<Rightarrow> string \<Rightarrow> (string, json) dict \<Rightarrow> ('w proxy, net_error + json) eff" where
  "try_post h url payload =
     bind (gets px_now) (\<lambda>start.
     bind (net (\<lambda>_. PPost url payload) (h_post h url payload)) (\<lambda>r. case r of
       Inl e \<Rightarrow> ret (Inl e)
     | Inr (status, resp) \<Rightarrow>
         (if status \<noteq> 200
          then bind (net (\<lambda>_. PRead) (h_text h resp)) (\<lambda>t. case t of
                 Inl e \<Rightarrow> ret (Inl e) | Inr body \<Rightarrow> ret (Inr (error_body body (int status))))
          else bind (net (\<lambda>_. PRead) (h_json h resp)) (\<lambda>v. case v of
                 Inl e \<Rightarrow> ret (Inl e)
               | Inr result \<Rightarrow> bind (gets px_now) (\<lambda>now.
                   (case log_usage (now - start) result of Inl e \<Rightarrow> ret (Inl (Fatal e)) | Inr _ \<Rightarrow> ret (Inr result)))))))"

definition unreachable :: "model_definition \<Rightarrow> string \<Rightarrow> json" where
  "unreachable m last_exc = error_body
     (''Backend '' @ [CHR 0x27] @ md_container_name m @ [CHR 0x27] @ '' unreachable after '' @ show_nat CONNECT_RETRIES @
      '' retries: '' @ last_exc) 502"

text \<open>The retry loop, with the number of attempts left and the text of the last error.\<close>

fun post_loop ::
    "('w, 'r) http \<Rightarrow> model_definition \<Rightarrow> string \<Rightarrow> (string, json) dict \<Rightarrow> nat \<Rightarrow> string \<Rightarrow> ('w proxy, json) eff" where
  "post_loop h m url payload 0 last_exc = ret (unreachable m last_exc)"
| "post_loop h m url payload (Suc n) last_exc =
     bind (try_post h url payload) (\<lambda>r. case r of
       Inr v \<Rightarrow> ret v
     | Inl (Fatal e) \<Rightarrow> throw e
     | Inl (Transient msg) \<Rightarrow> seq (if n = 0 then ret () else pause h) (post_loop h m url payload n msg))"

text \<open>What \<open>chat_completion\<close> hands back: a generator that has not started, or a JSON value.\<close>

datatype dispatched = DStream string "(string, json) dict" | DBody json

definition chat_completion ::
    "('w, 'r) http \<Rightarrow> model_definition \<Rightarrow> (string, json) dict \<Rightarrow> bool \<Rightarrow> ('w proxy, dispatched) eff" where
  "chat_completion h m payload0 stream =
     bind (served_model_name h m) (\<lambda>name.
     (let url = backend_url h m ''/v1/chat/completions''; payload = dict_set payload0 ''model'' name in
      if stream then ret (DStream url payload)
      else bind (post_loop h m url payload CONNECT_RETRIES ''None'') (\<lambda>v. ret (DBody v))))"

definition healthcheck :: "('w, 'r) http \<Rightarrow> model_definition \<Rightarrow> ('w proxy, bool) eff" where
  "healthcheck h m =
     bind (net (\<lambda>_. PGet (backend_url h m ''/health'')) (h_get h (backend_url h m ''/health''))) (\<lambda>r. case r of
       Inr (status, resp) \<Rightarrow> ret (status = 200)
     | Inl (Fatal CancelledError) \<Rightarrow> throw CancelledError
     | Inl _ \<Rightarrow> ret False)"

section \<open>Streams\<close>

text \<open>\<open>bytes.strip()\<close>, and the usage entry of the lines of a chunk: the first line that cannot be
  read ends the scan of its chunk.\<close>

definition ascii_space :: "char \<Rightarrow> bool" where
  "ascii_space c = (let n = code c in (9 \<le> n \<and> n \<le> 13) \<or> n = 32)"

definition bytes_strip :: "string \<Rightarrow> string" where
  "bytes_strip b = rev (dropWhile ascii_space (rev (dropWhile ascii_space b)))"

definition usage_mark :: string where
  "usage_mark = [CHR 0x22] @ ''usage'' @ [CHR 0x22]"

fun scan_lines :: "(string \<Rightarrow> json option) \<Rightarrow> string list \<Rightarrow> json \<Rightarrow> json" where
  "scan_lines loads [] usage = usage"
| "scan_lines loads (l # ls) usage =
     (let line = bytes_strip l in
      if take 6 line = ''data: '' \<and> str_in usage_mark line
      then (case loads (drop 6 line) of
          Some (JObj d) \<Rightarrow> scan_lines loads ls (json_or (json_get d ''usage'' JNull) usage)
        | _ \<Rightarrow> usage)
      else scan_lines loads ls usage)"

definition scan_chunk :: "(string \<Rightarrow> json option) \<Rightarrow> string \<Rightarrow> json \<Rightarrow> json" where
  "scan_chunk loads chunk usage =
     (if str_in usage_mark chunk then scan_lines loads (split_char (CHR 0x0A) chunk) usage else usage)"

text \<open>The figures logged at the end of a stream.\<close>

definition log_stream :: "nat \<Rightarrow> json \<Rightarrow> exn + unit" where
  "log_stream elapsed usage =
     (if \<not> json_truthy usage then Inr ()
      else (case usage of
          JObj u \<Rightarrow>
            (let tokens = json_get u ''completion_tokens'' (JInt 0); ttft = json_get u ''time_to_first_token_ms'' (JInt 0) in
             case (if json_truthy ttft then map_option (\<lambda>t. of_nat elapsed - t) (json_num ttft) else Some (of_nat elapsed)) of
               None \<Rightarrow> Inl TypeError
             | Some decode \<Rightarrow> if decode > 0 \<and> json_num tokens = None then Inl TypeError else Inr ())
        | _ \<Rightarrow> Inl attribute_error))"

definition error_event :: "('w, 'r) http \<Rightarrow> string \<Rightarrow> int \<Rightarrow> string" where
  "error_event h message status = ''data: '' @ h_dumps h (error_body message status) @ [CHR 0x0A, CHR 0x0A]"

text \<open>One attempt of \<open>_stream_response\<close>: what it yields, and how it ended: finished, with an error of
  the connection, or with another exception.\<close>

definition stream_attempt ::
    "('w, 'r) http \<Rightarrow> string \<Rightarrow> (string, json) dict \<Rightarrow> ('w proxy, string list \<times> net_error option) eff" where
  "stream_attempt h url payload =
     bind (gets px_now) (\<lambda>start.
     bind (net (\<lambda>_. PPost url payload) (h_post h url payload)) (\<lambda>r. case r of
       Inl e \<Rightarrow> ret ([], Some e)
     | Inr (status, resp) \<Rightarrow>
         (if status \<noteq> 200
          then bind (net (\<lambda>_. PRead) (h_text h resp)) (\<lambda>t. case t of
                 Inl e \<Rightarrow> ret ([], Some e) | Inr body \<Rightarrow> ret ([error_event h body (int status)], None))
          else bind (net (\<lambda>r. PChunks (fst r)) (h_stream h resp)) (\<lambda>(chunks, end). case end of
                 Some e \<Rightarrow> ret (chunks, Some e)
               | None \<Rightarrow> bind (gets px_now) (\<lambda>now.
                   (case log_stream (now - start) (fold (scan_chunk (h_loads h)) chunks (JObj [])) of
                      Inl e \<Rightarrow> ret (chunks, Some (Fatal e)) | Inr _ \<Rightarrow> ret (chunks, None)))))))"

text \<open>The generator: all it yields, and the exception that ends it, if any.  No attempt follows one
  that has yielded something.\<close>

fun stream_loop ::
    "('w, 'r) http \<Rightarrow> string \<Rightarrow> (string, json) dict \<Rightarrow> nat \<Rightarrow> string \<Rightarrow> ('w proxy, string list \<times> exn option) eff" where
  "stream_loop h url payload 0 last_exc = ret ([error_event h last_exc 502], None)"
| "stream_loop h url payload (Suc n) last_exc =
     bind (stream_attempt h url payload) (\<lambda>(ys, end). case end of
       None \<Rightarrow> ret (ys, None)
     | Some (Fatal e) \<Rightarrow> ret (ys, Some e)
     | Some (Transient msg) \<Rightarrow>
         (if ys \<noteq> [] then ret (ys @ [error_event h (''Stream interrupted: '' @ msg) 502], None)
          else seq (if n = 0 then ret () else pause h) (stream_loop h url payload n msg)))"

definition stream_payload :: "(string, json) dict \<Rightarrow> (string, json) dict" where
  "stream_payload payload =
     (let p = dict_set payload ''stream'' (JBool True) in
      if dict_get p ''stream_options'' = None then dict_set p ''stream_options'' (JObj [(''include_usage'', JBool True)]) else p)"

definition stream_response ::
    "('w, 'r) http \<Rightarrow> string \<Rightarrow> (string, json) dict \<Rightarrow> ('w proxy, string list \<times> exn option) eff" where
  "stream_response h url payload = stream_loop h url (stream_payload payload) CONNECT_RETRIES ''None''"

section \<open>Traces\<close>

text \<open>What is read off a trace: the posts, the sleeps, the chunks delivered.\<close>

definition posts :: "proxy_call list \<Rightarrow> nat" where
  "posts cs = length (filter (\<lambda>c. case c of PPost _ _ \<Rightarrow> True | _ \<Rightarrow> False) cs)"

definition pauses :: "proxy_call list \<Rightarrow> nat" where
  "pauses cs = length (filter (\<lambda>c. case c of PSleep _ \<Rightarrow> True | _ \<Rightarrow> False) cs)"

definition delivered :: "proxy_call list \<Rightarrow> string list" where
  "delivered cs = concat (map (\<lambda>c. case c of PChunks ys \<Rightarrow> ys | _ \<Rightarrow> []) cs)"

lemma trace_simps [simp]:
  "posts [] = 0" "posts (a @ b) = posts a + posts b" "posts (PPost u p # cs) = Suc (posts cs)"
  "posts (PGet u # cs) = posts cs" "posts (PRead # cs) = posts cs" "posts (PChunks ys # cs) = posts cs" "posts (PSleep k # cs) = posts cs"
  "pauses [] = 0" "pauses (a @ b) = pauses a + pauses b" "pauses (PPost u p # cs) = pauses cs"
  "pauses (PGet u # cs) = pauses cs" "pauses (PRead # cs) = pauses cs" "pauses (PChunks ys # cs) = pauses cs" "pauses (PSleep k # cs) = Suc (pauses cs)"
  "delivered [] = []" "delivered (a @ b) = delivered a @ delivered b" "delivered (PPost u p # cs) = delivered cs"
  "delivered (PGet u # cs) = delivered cs" "delivered (PRead # cs) = delivered cs" "delivered (PChunks ys # cs) = ys @ delivered cs"
  "delivered (PSleep k # cs) = delivered cs"
  by (simp_all add: posts_def pauses_def delivered_def)

lemma net_run: "\<exists>s'. net c m s = (Inr (fst (m (px_world s))), s') \<and> px_calls s' = px_calls s @ [c (fst (m (px_world s)))] \<and>
  px_served s' = px_served s"
  by (cases "m (px_world s)") (auto simp: net_def)

lemma netE:
  assumes "bind (net c m) f s = (r, s')"
  obtains x s1 where "f x s1 = (r, s')" "px_calls s1 = px_calls s @ [c x]" "px_served s1 = px_served s"
  using assms by (auto simp: bind_def net_def split: prod.splits)

lemma pause_run:
  assumes "pause h s = (r, s')"
  shows "px_calls s' = px_calls s @ [PSleep CONNECT_RETRY_DELAY] \<and> px_served s' = px_served s"
  using assms unfolding pause_def
  by (elim netE) (auto simp: throw_def ret_def split: sum.splits)

lemma bind_gets: "bind (gets f) g s = g (f s) s"
  by (simp add: bind_def gets_def)

lemma stream_attempt_run:
  assumes "stream_attempt h url payload s = (r, s')"
  shows "\<exists>ys end cs. r = Inr (ys, end) \<and> px_calls s' = px_calls s @ PPost url payload # cs \<and> posts cs = 0 \<and> pauses cs = 0 \<and>
    (ys = delivered cs \<or> delivered cs = [] \<and> end = None \<and> (\<exists>message status. ys = [error_event h message status]))"
proof -
  from assms obtain x s1 where post: "px_calls s1 = px_calls s @ [PPost url payload]"
    and rest: "(case x of Inl e \<Rightarrow> ret ([], Some e)
     | Inr (status, resp) \<Rightarrow>
         (if status \<noteq> 200
          then bind (net (\<lambda>_. PRead) (h_text h resp)) (\<lambda>t. case t of
                 Inl e \<Rightarrow> ret ([], Some e) | Inr body \<Rightarrow> ret ([error_event h body (int status)], None))
          else bind (net (\<lambda>r. PChunks (fst r)) (h_stream h resp)) (\<lambda>(chunks, end). case end of
                 Some e \<Rightarrow> ret (chunks, Some e)
               | None \<Rightarrow> bind (gets px_now) (\<lambda>now.
                   (case log_stream (now - px_now s) (fold (scan_chunk (h_loads h)) chunks (JObj [])) of
                      Inl e \<Rightarrow> ret (chunks, Some (Fatal e)) | Inr _ \<Rightarrow> ret (chunks, None)))))) s1 = (r, s')"
    unfolding stream_attempt_def by (auto simp: bind_gets elim: netE)
  show ?thesis
  proof (cases x)
    case (Inl e)
    then show ?thesis using rest post by (auto simp: ret_def intro: exI [of _ "[]"])
  next
    case (Inr sr)
    obtain status resp where [simp]: "sr = (status, resp)" by (cases sr)
    show ?thesis
    proof (cases "status = 200")
      case False
      then show ?thesis using rest post Inr
        by (auto simp: ret_def elim!: netE intro!: exI [of _ "[PRead]"] split: sum.splits) blast
    next
      case True
      then show ?thesis using rest post Inr
        by (auto simp: ret_def bind_gets elim!: netE split: sum.splits option.splits prod.splits)
    qed
  qed
qed

text \<open>Nothing is posted once a chunk has been delivered.\<close>

fun no_replay :: "proxy_call list \<Rightarrow> bool" where
  "no_replay [] = True"
| "no_replay (c # cs) = (case c of PChunks ys \<Rightarrow> (if ys = [] then no_replay cs else posts cs = 0) | _ \<Rightarrow> no_replay cs)"

lemma no_replay_quiet: "posts cs = 0 \<Longrightarrow> no_replay cs"
  by (induction cs) (auto simp: posts_def split: proxy_call.splits if_splits)

lemma no_replay_append: "delivered as = [] \<Longrightarrow> no_replay (as @ bs) = no_replay bs"
  by (induction as) (auto simp: delivered_def split: proxy_call.splits)

definition error_events :: "('w, 'r) http \<Rightarrow> string list \<Rightarrow> bool" where
  "error_events h tail = (tail = [] \<or> (\<exists>message status. tail = [error_event h message status]))"

lemma error_events_simps [simp]: "error_events h []" "error_events h [error_event h message status]"
  by (auto simp: error_events_def)

lemma stream_loop_run:
  assumes "stream_loop h url payload n last_exc s = (r, s')"
  shows "\<exists>cs. px_calls s' = px_calls s @ cs \<and> posts cs \<le> n \<and> (n > 0 \<longrightarrow> posts cs > 0) \<and> pauses cs \<le> posts cs \<and> no_replay cs \<and>
    (case r of Inl e \<Rightarrow> delivered cs = [] | Inr (ys, e) \<Rightarrow> \<exists>tail. ys = delivered cs @ tail \<and> error_events h tail)"
  using assms
proof (induction h url payload n last_exc arbitrary: s r s' rule: stream_loop.induct)
  case (1 h url payload last_exc)
  then show ?case by (auto simp: ret_def intro!: exI [of _ "[]"])
next
  case (2 h url payload n last_exc)
  obtain a s1 where attempt: "stream_attempt h url payload s = (a, s1)" by (cases "stream_attempt h url payload s")
  obtain ys "end" cs where run: "a = Inr (ys, end)" "px_calls s1 = px_calls s @ PPost url payload # cs" "posts cs = 0" "pauses cs = 0"
      "ys = delivered cs \<or> delivered cs = [] \<and> end = None \<and> (\<exists>message status. ys = [error_event h message status])"
    using stream_attempt_run [OF attempt] by blast
  have ev: "\<exists>tail. ys = delivered cs @ tail \<and> error_events h tail" using run(5) by auto
  have one: "posts (PPost url payload # cs) \<le> Suc n" "pauses (PPost url payload # cs) \<le> posts (PPost url payload # cs)"
      "no_replay (PPost url payload # cs)"
    using run(3,4) no_replay_quiet by auto
  show ?case
  proof (cases "end")
    case None
    then have "r = Inr (ys, None)" "s' = s1" using 2(2) attempt run(1) by (simp_all add: bind_def ret_def)
    then show ?thesis using run(2) one ev by (intro exI [of _ "PPost url payload # cs"]) simp
  next
    case (Some err)
    show ?thesis
    proof (cases err)
      case (Fatal e)
      then have "r = Inr (ys, Some e)" "s' = s1" using 2(2) attempt run(1) Some by (simp_all add: bind_def ret_def)
      then show ?thesis using run(2) one ev by (intro exI [of _ "PPost url payload # cs"]) simp
    next
      case (Transient msg)
      have d: "ys = delivered cs" using run(5) Some by simp
      show ?thesis
      proof (cases "ys = []")
        case False
        then have "r = Inr (ys @ [error_event h (''Stream interrupted: '' @ msg) 502], None)" "s' = s1"
          using 2(2) attempt run(1) Some Transient by (simp_all add: bind_def ret_def)
        then show ?thesis using run(2) one d by (intro exI [of _ "PPost url payload # cs"]) simp
      next
        case True
        have next_run: "seq (if n = 0 then ret () else pause h) (stream_loop h url payload n msg) s1 = (r, s')"
          using 2(2) attempt run(1) Some Transient True by (simp add: bind_def)
        have silent: "delivered (PPost url payload # cs) = []" using True d by simp
        obtain u s2 where pause: "(if n = 0 then ret () else pause h) s1 = (u, s2)" by fastforce
        obtain ps where ps: "px_calls s2 = px_calls s1 @ ps" "posts ps = 0" "pauses ps \<le> 1" "delivered ps = []" "no_replay ps"
          using pause pause_run [of h s1 u s2] by (cases "n = 0") (auto simp: ret_def intro!: that [of "[]"] that [of "[PSleep CONNECT_RETRY_DELAY]"])
        show ?thesis
        proof (cases u)
          case (Inl e)
          then have "r = Inl e" "s' = s2" using next_run pause by (auto simp: bind_def split: if_splits)
          moreover have "no_replay (PPost url payload # cs @ ps)"
            using no_replay_append [OF silent, of ps] ps(5) by simp
          ultimately show ?thesis
            using run(2,3,4) ps silent by (intro exI [of _ "PPost url payload # cs @ ps"]) simp
        next
          case (Inr v)
          then have loop: "stream_loop h url payload n msg s2 = (r, s')"
            using next_run pause by (auto simp: bind_def split: if_splits)
          have "\<not> ys \<noteq> []" using True by simp
          from 2(1) [OF this loop]
          obtain cs' where cs': "px_calls s' = px_calls s2 @ cs'" "posts cs' \<le> n" "pauses cs' \<le> posts cs'" "no_replay cs'"
              "case r of Inl e \<Rightarrow> delivered cs' = [] | Inr (ys, e) \<Rightarrow> \<exists>tail. ys = delivered cs' @ tail \<and> error_events h tail"
            by blast
          have "no_replay ((PPost url payload # cs @ ps) @ cs')"
            using no_replay_append [of "PPost url payload # cs @ ps" cs'] silent ps(4) cs'(4) by simp
          then show ?thesis
            using run(2,3,4) ps silent cs' by (intro exI [of _ "(PPost url payload # cs @ ps) @ cs'"]) (simp split: sum.splits prod.splits)
        qed
      qed
    qed
  qed
qed

text \<open>What the backend said to a post, as the proxy passes it on.\<close>

definition answered :: "('w, 'r) http \<Rightarrow> string \<Rightarrow> (string, json) dict \<Rightarrow> json \<Rightarrow> bool" where
  "answered h url payload v =
     (\<exists>w w' status resp. fst (h_post h url payload w) = Inr (status, resp) \<and>
        (status \<noteq> 200 \<and> (\<exists>body. fst (h_text h resp w') = Inr body \<and> v = error_body body (int status)) \<or>
         status = 200 \<and> fst (h_json h resp w') = Inr v))"

lemma netE':
  assumes "bind (net c m) f s = (r, s')"
  obtains w s1 where "f (fst (m w)) s1 = (r, s')" "px_calls s1 = px_calls s @ [c (fst (m w))]"
    "px_served s1 = px_served s"
proof -
  obtain a d w where m: "m (px_world s) = (a, d, w)" by (cases "m (px_world s)")
  show thesis
    by (rule that [of "px_world s" "s\<lparr>px_world := w, px_now := px_now s + d, px_calls := px_calls s @ [c a]\<rparr>"])
       (use assms m in \<open>simp_all add: bind_def net_def\<close>)
qed

lemma try_post_run:
  assumes "try_post h url payload s = (r, s')"
  shows "\<exists>x cs. r = Inr x \<and> px_calls s' = px_calls s @ PPost url payload # cs \<and> posts cs = 0 \<and> pauses cs = 0 \<and>
    (\<forall>v. x = Inr v \<longrightarrow> answered h url payload v)"
proof -
  from assms obtain w s1 where post: "px_calls s1 = px_calls s @ [PPost url payload]"
    and rest: "(case fst (h_post h url payload w) of
       Inl e \<Rightarrow> ret (Inl e)
     | Inr (status, resp) \<Rightarrow>
         (if status \<noteq> 200
          then bind (net (\<lambda>_. PRead) (h_text h resp)) (\<lambda>t. case t of
                 Inl e \<Rightarrow> ret (Inl e) | Inr body \<Rightarrow> ret (Inr (error_body body (int status))))
          else bind (net (\<lambda>_. PRead) (h_json h resp)) (\<lambda>v. case v of
                 Inl e \<Rightarrow> ret (Inl e)
               | Inr result \<Rightarrow> bind (gets px_now) (\<lambda>now.
                   (case log_usage (now - px_now s) result of Inl e \<Rightarrow> ret (Inl (Fatal e)) | Inr _ \<Rightarrow> ret (Inr result)))))) s1 = (r, s')"
    unfolding try_post_def by (auto simp: bind_gets elim: netE')
  show ?thesis
  proof (cases "fst (h_post h url payload w)")
    case (Inl e)
    then show ?thesis using rest post by (auto simp: ret_def intro: exI [of _ "[]"])
  next
    case (Inr sr)
    obtain status resp where [simp]: "sr = (status, resp)" by (cases sr)
    show ?thesis
    proof (cases "status = 200")
      case False
      then have "bind (net (\<lambda>_. PRead) (h_text h resp)) (\<lambda>t. case t of
           Inl e \<Rightarrow> ret (Inl e) | Inr body \<Rightarrow> ret (Inr (error_body body (int status)))) s1 = (r, s')"
        using rest Inr by simp
      then obtain w' s2 where t: "(case fst (h_text h resp w') of
           Inl e \<Rightarrow> ret (Inl e) | Inr body \<Rightarrow> ret (Inr (error_body body (int status)))) s2 = (r, s')"
          "px_calls s2 = px_calls s1 @ [PRead]"
        by (rule netE')
      have "answered h url payload (error_body body (int status))" if "fst (h_text h resp w') = Inr body" for body
        unfolding answered_def using Inr False that by (intro exI [of _ w] exI [of _ w'] exI [of _ status] exI [of _ resp]) simp
      then show ?thesis using t post by (cases "fst (h_text h resp w')") (auto simp: ret_def)
    next
      case True
      then have "bind (net (\<lambda>_. PRead) (h_json h resp)) (\<lambda>v. case v of
                 Inl e \<Rightarrow> ret (Inl e)
               | Inr result \<Rightarrow> bind (gets px_now) (\<lambda>now.
                   (case log_usage (now - px_now s) result of Inl e \<Rightarrow> ret (Inl (Fatal e)) | Inr _ \<Rightarrow> ret (Inr result)))) s1 = (r, s')"
        using rest Inr by simp
      then obtain w' s2 where t: "(case fst (h_json h resp w') of
                 Inl e \<Rightarrow> ret (Inl e)
               | Inr result \<Rightarrow> bind (gets px_now) (\<lambda>now.
                   (case log_usage (now - px_now s) result of Inl e \<Rightarrow> ret (Inl (Fatal e)) | Inr _ \<Rightarrow> ret (Inr result)))) s2 = (r, s')"
          "px_calls s2 = px_calls s1 @ [PRead]"
        by (rule netE')
      have "answered h url payload v" if "fst (h_json h resp w') = Inr v" for v
        unfolding answered_def using Inr True that by (intro exI [of _ w] exI [of _ w'] exI [of _ status] exI [of _ resp]) simp
      then show ?thesis using t post
        by (cases "fst (h_json h resp w')") (auto simp: ret_def bind_gets split: sum.splits)
    qed
  qed
qed

lemma post_loop_run:
  assumes "post_loop h m url payload n last_exc s = (r, s')"
  shows "\<exists>cs. px_calls s' = px_calls s @ cs \<and> posts cs \<le> n \<and> pauses cs \<le> posts cs \<and> (n > 0 \<longrightarrow> pauses cs < n) \<and>
    (\<forall>v. r = Inr v \<longrightarrow> 0 < posts cs \<and> answered h url payload v \<or> posts cs = n \<and> (\<exists>msg. v = unreachable m msg))"
  using assms
proof (induction h m url payload n last_exc arbitrary: s r s' rule: post_loop.induct)
  case (1 h m url payload last_exc)
  then show ?case by (auto simp: ret_def intro!: exI [of _ "[] :: proxy_call list"])
next
  case (2 h m url payload n last_exc)
  obtain a s1 where attempt: "try_post h url payload s = (a, s1)" by (cases "try_post h url payload s")
  obtain x cs where run: "a = Inr x" "px_calls s1 = px_calls s @ PPost url payload # cs" "posts cs = 0" "pauses cs = 0"
      "\<forall>v. x = Inr v \<longrightarrow> answered h url payload v"
    using try_post_run [OF attempt] by blast
  have quiet: "\<exists>cs'. px_calls s1 = px_calls s @ cs' \<and> posts cs' = 1 \<and> pauses cs' = 0"
    using run(2-4) by (intro exI [of _ "PPost url payload # cs"]) simp
  show ?case
  proof (cases x)
    case (Inr v)
    then have "r = Inr v" "s' = s1" using 2(2) attempt run(1) by (simp_all add: bind_def ret_def)
    then show ?thesis using quiet run(5) Inr by auto
  next
    case (Inl err)
    show ?thesis
    proof (cases err)
      case (Fatal e)
      then have "r = Inl e" "s' = s1" using 2(2) attempt run(1) Inl by (simp_all add: bind_def throw_def)
      then show ?thesis using quiet by auto
    next
      case (Transient msg)
      have next_run: "seq (if n = 0 then ret () else pause h) (post_loop h m url payload n msg) s1 = (r, s')"
        using 2(2) attempt run(1) Inl Transient by (simp add: bind_def)
      obtain u s2 where pause: "(if n = 0 then ret () else pause h) s1 = (u, s2)" by fastforce
      obtain ps where ps: "px_calls s2 = px_calls s1 @ ps" "posts ps = 0" "pauses ps = (if n = 0 then 0 else 1)"
        using pause pause_run [of h s1 u s2] by (cases "n = 0") (auto simp: ret_def intro!: that [of "[]"] that [of "[PSleep CONNECT_RETRY_DELAY]"])
      show ?thesis
      proof (cases u)
        case (Inl e)
        then have "r = Inl e" "s' = s2" "n \<noteq> 0" using next_run pause by (auto simp: bind_def ret_def split: if_splits)
        then show ?thesis
          using run(2-4) ps by (intro exI [of _ "PPost url payload # cs @ ps"]) simp
      next
        case (Inr v)
        then have loop: "post_loop h m url payload n msg s2 = (r, s')"
          using next_run pause by (auto simp: bind_def split: if_splits)
        from 2(1) [OF loop]
        obtain cs' where cs': "px_calls s' = px_calls s2 @ cs'" "posts cs' \<le> n" "pauses cs' \<le> posts cs'" "n > 0 \<longrightarrow> pauses cs' < n"
            "\<forall>v. r = Inr v \<longrightarrow> 0 < posts cs' \<and> answered h url payload v \<or> posts cs' = n \<and> (\<exists>msg. v = unreachable m msg)"
          by blast
        then show ?thesis
          using run(2-4) ps by (intro exI [of _ "PPost url payload # cs @ ps @ cs'"]) (cases "n = 0"; auto)
      qed
    qed
  qed
qed

text \<open>C6: a streamed answer reaches the client verbatim and at most once.  The generator posts between
  one and 300 times, and never again after a chunk has been delivered; what it yields is exactly
  the chunks delivered, in order, followed by nothing or by one error event.\<close>

theorem stream_verbatim_once:
  assumes "stream_response h url payload s = (r, s')"
  shows "\<exists>cs. px_calls s' = px_calls s @ cs \<and> 0 < posts cs \<and> posts cs \<le> 300 \<and> no_replay cs \<and>
    (case r of Inl e \<Rightarrow> delivered cs = [] | Inr (ys, e) \<Rightarrow> \<exists>tail. ys = delivered cs @ tail \<and> error_events h tail)"
proof -
  have "stream_loop h url (stream_payload payload) 300 ''None'' s = (r, s')"
    using assms by (simp add: stream_response_def CONNECT_RETRIES_def)
  from stream_loop_run [OF this] show ?thesis by auto
qed

text \<open>A backend that refuses a number of connections and then answers.\<close>

definition flaky :: "(nat, unit) http" where
  "flaky =
     \<lparr>h_post = (\<lambda>url p k. if k = 0 then (Inr (200, ()), 1, 0) else (Inl (Transient ''refused''), 1, k - 1)),
      h_get = (\<lambda>url k. (Inr (200, ()), 1, k)),
      h_text = (\<lambda>_ k. (Inr [], 1, k)),
      h_json = (\<lambda>_ k. (Inr (JObj [(''data'', JArr [JObj [(''id'', JStr ''hf/model'')], JObj [(''id'', JStr ''m'')]])]), 1, k)),
      h_stream = (\<lambda>_ k. (([''data: a'', ''data: b''], None), 1, k)),
      h_sleep = (\<lambda>n k. (Inr (), 1000 * n, k)),
      h_resolve = (\<lambda>n e. n), h_dumps = (\<lambda>_. []), h_loads = (\<lambda>_. None)\<rparr>"

definition box_m :: model_definition where
  "box_m = model_defaults ''m'' ''img'' ''box'' 1000 8000"

lemma flaky_calls: "\<exists>s'. stream_response flaky url payload (proxy_init 1) = (Inr ([''data: a'', ''data: b''], None), s')"
proof -
  have three: "(300 :: nat) = Suc (Suc 298)" by simp
  have quiet: "\<not> str_in usage_mark ''data: a''" "\<not> str_in usage_mark ''data: b''"
    by (simp_all add: str_in_def usage_mark_def sublist_Cons_right)
  show ?thesis
    unfolding stream_response_def CONNECT_RETRIES_def three stream_loop.simps
    by (simp add: stream_attempt_def flaky_def bind_def net_def gets_def ret_def
        pause_def proxy_init_def scan_chunk_def quiet log_stream_def)
qed

theorem stream_verbatim_once_witness:
  "\<exists>s'. stream_response flaky ''u'' [] (proxy_init 1) = (Inr ([''data: a'', ''data: b''], None), s') \<and> posts (px_calls s') \<le> 300 \<and>
     no_replay (px_calls s')"
proof -
  obtain s' where run: "stream_response flaky ''u'' [] (proxy_init 1) = (Inr ([''data: a'', ''data: b''], None), s')"
    using flaky_calls by blast
  from stream_verbatim_once [OF run] obtain cs where "px_calls s' = cs" "posts cs \<le> 300" "no_replay cs"
    by (auto simp: proxy_init_def)
  then show ?thesis using run by auto
qed

text \<open>C25: a completion is the backend's answer or the report that there is none.  A request that is
  not streamed is posted at most 300 times with fewer pauses; if a value is returned, it is what
  the backend answered to the post, unchanged (an error status wrapped with its text), or, after
  exactly 300 posts, the error 502.\<close>

theorem completion_faithful:
  assumes "post_loop h m url payload CONNECT_RETRIES ''None'' s = (Inr v, s')"
  shows "\<exists>cs. px_calls s' = px_calls s @ cs \<and> posts cs \<le> 300 \<and> pauses cs < 300 \<and>
    (0 < posts cs \<and> answered h url payload v \<or> posts cs = 300 \<and> (\<exists>msg. v = unreachable m msg))"
  using post_loop_run [OF assms [unfolded CONNECT_RETRIES_def]] by auto

theorem completion_faithful_witness:
  "\<exists>s' cs v. post_loop flaky box_m ''u'' [] CONNECT_RETRIES ''None'' (proxy_init 1) = (Inr v, s') \<and> px_calls s' = cs \<and> pauses cs < 300"
proof -
  have three: "(300 :: nat) = Suc (Suc 298)" by simp
  let ?v = "JObj [(''data'', JArr [JObj [(''id'', JStr ''hf/model'')], JObj [(''id'', JStr ''m'')]])]"
  have "fst (post_loop flaky box_m ''u'' [] CONNECT_RETRIES ''None'' (proxy_init 1)) = Inr ?v"
    unfolding CONNECT_RETRIES_def three post_loop.simps
    by (simp add: try_post_def flaky_def bind_def net_def gets_def ret_def
        pause_def proxy_init_def log_usage_def json_get_def json_or_def json_num_def)
  then obtain s' where run: "post_loop flaky box_m ''u'' [] CONNECT_RETRIES ''None'' (proxy_init 1) = (Inr ?v, s')"
    by (metis prod.collapse)
  from completion_faithful [OF run] run show ?thesis by (auto simp: proxy_init_def)
qed

section \<open>Served names\<close>

lemma pick_served_configured: "JStr name \<in> set ids \<Longrightarrow> name \<noteq> [] \<Longrightarrow> pick_served name ids = Some (JStr name)"
  by (simp add: pick_served_def)

lemma pick_served_offered: "pick_served name ids = Some v \<Longrightarrow> v \<in> set ids \<and> json_truthy v"
  by (auto simp: pick_served_def Let_def split: if_splits list.splits)

text \<open>The names a backend offers, as some world gives them.\<close>

definition offers :: "('w, 'r) http \<Rightarrow> model_definition \<Rightarrow> json list \<Rightarrow> bool" where
  "offers h m ids = (\<exists>w w' resp v. fst (h_get h (backend_url h m ''/v1/models'') w) = Inr (200, resp) \<and>
     fst (h_json h resp w') = Inr v \<and> model_ids v = Inr ids)"

lemma ask_served_run:
  assumes "ask_served h m s = (r, s')"
  shows "px_served s' = px_served s \<and> (\<exists>x. r = Inr x \<and> (\<forall>v. x = Inr (Some v) \<longrightarrow> (\<exists>ids. offers h m ids \<and> pick_served (md_name m) ids = Some v)))"
proof -
  from assms obtain w s1 where get: "px_served s1 = px_served s"
    and rest: "(case fst (h_get h (backend_url h m ''/v1/models'') w) of
       Inl e \<Rightarrow> ret (Inl e)
     | Inr (status, resp) \<Rightarrow>
         (if status \<noteq> 200 then ret (Inr None)
          else bind (net (\<lambda>_. PRead) (h_json h resp)) (\<lambda>v. case v of
            Inl e \<Rightarrow> ret (Inl e)
          | Inr j \<Rightarrow> (case model_ids j of Inl e \<Rightarrow> ret (Inl (Fatal e))
                      | Inr ids \<Rightarrow> ret (Inr (pick_served (md_name m) ids)))))) s1 = (r, s')"
    unfolding ask_served_def by (auto elim: netE')
  show ?thesis
  proof (cases "\<exists>resp. fst (h_get h (backend_url h m ''/v1/models'') w) = Inr (200, resp)")
    case False
    then show ?thesis using rest get by (auto simp: ret_def split: sum.splits prod.splits if_splits)
  next
    case True
    then obtain resp where resp: "fst (h_get h (backend_url h m ''/v1/models'') w) = Inr (200, resp)" by blast
    then have "bind (net (\<lambda>_. PRead) (h_json h resp)) (\<lambda>v. case v of
            Inl e \<Rightarrow> ret (Inl e)
          | Inr j \<Rightarrow> (case model_ids j of Inl e \<Rightarrow> ret (Inl (Fatal e))
                      | Inr ids \<Rightarrow> ret (Inr (pick_served (md_name m) ids)))) s1 = (r, s')"
      using rest by simp
    then obtain w' s2 where t: "(case fst (h_json h resp w') of
            Inl e \<Rightarrow> ret (Inl e)
          | Inr j \<Rightarrow> (case model_ids j of Inl e \<Rightarrow> ret (Inl (Fatal e))
                      | Inr ids \<Rightarrow> ret (Inr (pick_served (md_name m) ids)))) s2 = (r, s')" "px_served s2 = px_served s1"
      by (rule netE')
    have "offers h m ids" if "fst (h_json h resp w') = Inr j" "model_ids j = Inr ids" for j ids
      unfolding offers_def using resp that by blast
    then show ?thesis using t get by (auto simp: ret_def split: sum.splits)
  qed
qed

text \<open>The name a backend is addressed by.  Without a cached name, the name used is one the backend
  offered when it was asked, the configured one if it offered that, and is then cached; or the
  backend gave no answer, and the configured name is used and nothing is cached, so that the next
  request asks again.\<close>

theorem served_name_sound:
  assumes "served_model_name h m s = (Inr name, s')" "dict_get (px_served s) (md_name m) = None"
  shows "name = JStr (md_name m) \<and> px_served s' = px_served s \<or>
    (\<exists>ids. offers h m ids \<and> name \<in> set ids \<and> (md_name m \<noteq> [] \<and> JStr (md_name m) \<in> set ids \<longrightarrow> name = JStr (md_name m)) \<and>
       px_served s' = dict_set (px_served s) (md_name m) name)"
proof -
  have fresh: "json_get (px_served s) (md_name m) JNull = JNull" using assms(2) by (simp add: json_get_def)
  obtain a s1 where ask: "ask_served h m s = (a, s1)" by (cases "ask_served h m s")
  obtain x where x: "a = Inr x" "px_served s1 = px_served s"
      "\<forall>v. x = Inr (Some v) \<longrightarrow> (\<exists>ids. offers h m ids \<and> pick_served (md_name m) ids = Some v)"
    using ask_served_run [OF ask] by blast
  show ?thesis
  proof (cases "\<exists>v. x = Inr (Some v)")
    case True
    then obtain v ids where v: "x = Inr (Some v)" "offers h m ids" "pick_served (md_name m) ids = Some v" using x(3) by blast
    have "name = v" "px_served s' = dict_set (px_served s) (md_name m) v"
      using assms(1) ask x(1,2) v(1) fresh by (auto simp: served_model_name_def bind_def gets_def modify_def ret_def)
    then show ?thesis
      using v pick_served_offered [OF v(3)] pick_served_configured [of "md_name m" ids] by auto
  next
    case False
    then show ?thesis
      using assms(1) ask x(1,2) fresh
      by (auto simp: served_model_name_def bind_def gets_def ret_def throw_def split: sum.splits option.splits)
  qed
qed

theorem served_name_sound_witness:
  "px_served (snd (served_model_name flaky (box_m\<lparr>md_name := ''x''\<rparr>) (proxy_init 0))) = [(''x'', JStr ''hf/model'')]"
proof -
  let ?m = "box_m\<lparr>md_name := ''x''\<rparr>"
  have run: "served_model_name flaky ?m (proxy_init 0) = (Inr (JStr ''hf/model''), snd (served_model_name flaky ?m (proxy_init 0)))"
    by (simp add: served_model_name_def ask_served_def flaky_def bind_def net_def gets_def ret_def modify_def proxy_init_def
        json_get_def model_ids_def pick_served_def)
  have "dict_get (px_served (proxy_init (0 :: nat))) (md_name ?m) = None" by (simp add: proxy_init_def)
  from served_name_sound [OF run this] show ?thesis by (auto simp: proxy_init_def)
qed

end
