(* ===== verification/App.thy ===== *)
theory App
  imports Startup Serving Lifecycle Router RequestBuffer Proxy
begin

text \<open>
  \<open>gateway/app.py\<close>: the application around the components.  The swap tasks with their tracking
  variables are a state machine; the flow of a chat request is a function of what it reads from
  the orchestrator, of what waiting for the swap task yields and of what the backend returns;
  startup, the watchdog and the administration endpoints are operations on the orchestrator.
  The HTTP framework is not modelled: an endpoint's result is a response value or an exception.
\<close>

section \<open>Swap tasks\<close>

text \<open>A swap task of \<open>_execute_swap_and_drain\<close> runs until it has a result.  Tasks are named by
  their index; the pair of tracking variables is \<open>tk_active\<close> and \<open>tk_target\<close>.\<close>

record swap_task =
  st_key :: string
  st_force :: bool
  st_result :: "(exn + bool) option"

record tracker =
  tk_tasks :: "swap_task list"
  tk_active :: "nat option"
  tk_target :: "string option"

definition tracker_init :: tracker where
  "tracker_init = \<lparr>tk_tasks = [], tk_active = None, tk_target = None\<rparr>"

definition task_pending :: "tracker \<Rightarrow> nat \<Rightarrow> bool" where
  "task_pending tk i = (i < length (tk_tasks tk) \<and> st_result (tk_tasks tk ! i) = None)"

text \<open>\<open>_get_or_create_swap_task\<close>: the task to wait for, and the new tracking.\<close>

definition get_or_create_swap_task :: "string \<Rightarrow> bool \<Rightarrow> tracker \<Rightarrow> nat \<times> tracker" where
  "get_or_create_swap_task key force tk =
     (case (case tk_active tk of None \<Rightarrow> None
            | Some i \<Rightarrow> if task_pending tk i \<and> tk_target tk = Some key then Some i else None) of
        Some i \<Rightarrow> (i, tk)
      | None \<Rightarrow> (length (tk_tasks tk),
          \<lparr>tk_tasks = tk_tasks tk @ [\<lparr>st_key = key, st_force = force, st_result = None\<rparr>],
           tk_active = Some (length (tk_tasks tk)), tk_target = Some key\<rparr>))"

text \<open>The end of \<open>_execute_swap_and_drain\<close>: the result of \<open>switch_profile\<close>, an ordinary
  exception becoming \<open>False\<close>, and the \<open>finally\<close> clause.\<close>

definition task_outcome :: "exn + bool \<Rightarrow> exn + bool" where
  "task_outcome r = (case r of Inl e \<Rightarrow> if e = CancelledError then Inl e else Inr False | Inr ok \<Rightarrow> Inr ok)"

definition finish_swap_task :: "nat \<Rightarrow> exn + bool \<Rightarrow> tracker \<Rightarrow> tracker" where
  "finish_swap_task i r tk =
     (let tk' = tk\<lparr>tk_tasks := (tk_tasks tk)[i := (tk_tasks tk ! i)\<lparr>st_result := Some (task_outcome r)\<rparr>]\<rparr>
      in if tk_active tk = Some i then tk'\<lparr>tk_active := None, tk_target := None\<rparr> else tk')"

inductive task_step :: "tracker \<Rightarrow> tracker \<Rightarrow> bool" where
  task_request: "task_step tk (snd (get_or_create_swap_task key force tk))"
| task_finish: "task_pending tk i \<Longrightarrow> task_step tk (finish_swap_task i r tk)"

text \<open>The invariant: what is tracked is an unfinished task for the tracked target.\<close>

definition tracked_ok :: "tracker \<Rightarrow> bool" where
  "tracked_ok tk = (case tk_active tk of None \<Rightarrow> tk_target tk = None
     | Some i \<Rightarrow> task_pending tk i \<and> tk_target tk = Some (st_key (tk_tasks tk ! i)))"

lemma tracked_request: "tracked_ok tk \<Longrightarrow> tracked_ok (snd (get_or_create_swap_task key force tk))"
  by (auto simp: tracked_ok_def get_or_create_swap_task_def task_pending_def nth_append split: option.splits)

lemma tracked_finish: "tracked_ok tk \<Longrightarrow> task_pending tk i \<Longrightarrow> tracked_ok (finish_swap_task i r tk)"
  by (auto simp: tracked_ok_def finish_swap_task_def task_pending_def Let_def nth_list_update split: option.splits)

interpretation tasks: transition_system "\<lambda>tk. tk = tracker_init" task_step tracked_ok
proof unfold_locales
  show "tracked_ok tk" if "tk = tracker_init" for tk using that by (simp add: tracked_ok_def tracker_init_def)
  show "tracked_ok tk'" if "task_step tk tk'" "tracked_ok tk" for tk tk'
    using that by cases (auto intro: tracked_request tracked_finish)
qed

lemma reach_request:
  "reach (\<lambda>tk. tk = tracker_init) task_step tk \<Longrightarrow>
   reach (\<lambda>tk. tk = tracker_init) task_step (snd (get_or_create_swap_task key force tk))"
  by (erule reach_step) (rule task_request)

lemma reach_no_task: "reach (\<lambda>tk. tk = tracker_init) task_step tracker_init"
  by (rule reach_init) simp

text \<open>The unfinished tasks, and how often a request found another target tracked.\<close>

definition pending_for :: "tracker \<Rightarrow> string \<Rightarrow> nat list" where
  "pending_for tk key = filter (\<lambda>i. task_pending tk i \<and> st_key (tk_tasks tk ! i) = key) [0..<length (tk_tasks tk)]"

text \<open>C14: a swap in flight is joined.  In every reachable state a request for the tracked target
  gets the unfinished task for it and creates nothing, whatever \<open>force\<close> says; any other request
  gets a fresh task, which is then the tracked one; so the task a request waits for is always
  unfinished and for its own target.\<close>

theorem swap_task_joined:
  assumes "reach (\<lambda>tk. tk = tracker_init) task_step tk" "get_or_create_swap_task key force tk = (i, tk')"
  shows "task_pending tk' i \<and> st_key (tk_tasks tk' ! i) = key \<and> tk_active tk' = Some i \<and> tk_target tk' = Some key \<and>
    (if tk_target tk = Some key then tk' = tk else tk_tasks tk' = tk_tasks tk @ [\<lparr>st_key = key, st_force = force, st_result = None\<rparr>])"
proof -
  have "tracked_ok tk" using tasks.reach_inv [OF assms(1)] .
  then show ?thesis
    using assms(2)
    by (auto simp: tracked_ok_def get_or_create_swap_task_def task_pending_def split: option.splits if_splits)
qed

definition one_swap :: tracker where
  "one_swap = snd (get_or_create_swap_task ''qwen35'' False tracker_init)"

theorem swap_task_joined_witness:
  "get_or_create_swap_task ''qwen35'' True one_swap = (0, one_swap)"
proof -
  have reach: "reach (\<lambda>tk. tk = tracker_init) task_step one_swap"
    unfolding one_swap_def by (intro reach_request reach_no_task)
  have target: "tk_target one_swap = Some ''qwen35''" "tk_active one_swap = Some 0"
    by (simp_all add: one_swap_def get_or_create_swap_task_def tracker_init_def)
  obtain i tk' where run: "get_or_create_swap_task ''qwen35'' True one_swap = (i, tk')"
    by (cases "get_or_create_swap_task ''qwen35'' True one_swap")
  from swap_task_joined [OF reach run] target show ?thesis by (auto simp: run)
qed

text \<open>Alternating targets do duplicate: three requests, for one profile, another and the first
  again, leave two unfinished tasks for the first.\<close>

lemma swap_task_duplicated:
  "\<exists>tk. reach (\<lambda>tk. tk = tracker_init) task_step tk \<and> pending_for tk ''qwen35'' = [0, 2]"
proof -
  let ?a = "snd (get_or_create_swap_task ''qwen35'' False tracker_init)"
  let ?b = "snd (get_or_create_swap_task ''deepseek'' False ?a)"
  let ?c = "snd (get_or_create_swap_task ''qwen35'' False ?b)"
  have "reach (\<lambda>tk. tk = tracker_init) task_step ?c"
    by (intro reach_request reach_no_task)
  moreover have "pending_for ?c ''qwen35'' = [0, 2]"
    by (simp add: pending_for_def task_pending_def get_or_create_swap_task_def tracker_init_def upt_rec)
  ultimately show ?thesis by blast
qed

section \<open>A chat request\<close>

text \<open>\<open>_drain_buffered_requests\<close> and the buffer's side of \<open>_execute_swap_and_drain\<close>: on failure
  every buffered request is rejected.  \<open>show_exn\<close> is \<open>str(exc)\<close>.\<close>

definition swap_task_buffer :: "(exn \<Rightarrow> string) \<Rightarrow> exn + bool \<Rightarrow> 'r request_buffer \<Rightarrow> 'r request_buffer" where
  "swap_task_buffer show_exn r b = (case r of
       Inr ok \<Rightarrow> if ok then b else reject_all ''Swap failed'' b
     | Inl e \<Rightarrow> if e = CancelledError then b else reject_all (''Swap error: '' @ show_exn e) b)"

text \<open>After a successful swap the served names are forgotten.\<close>

definition swap_task_names :: "exn + bool \<Rightarrow> 'w proxy \<Rightarrow> 'w proxy" where
  "swap_task_names r px = (case r of Inr ok \<Rightarrow> if ok then forget_served_names None px else px | Inl _ \<Rightarrow> px)"

text \<open>What the endpoint answers: an \<open>HTTPException\<close> with its status, its detail and whether it asks to
  retry, the event stream of a generator of the proxy, the backend's completion passed on, or a wrapped value.\<close>

datatype response =
    HttpError int json bool
  | EventStream string "(string, json) dict"
  | Completion "(string, json) dict"
  | Wrapped json "(profile_mode \<times> string) option"

text \<open>The body of an \<open>error\<close> entry must be a dictionary with a number as its code.\<close>

definition backend_error :: "json \<Rightarrow> exn + response" where
  "backend_error err = (case err of
       JObj d \<Rightarrow> (case json_get d ''code'' (JInt 502) of
           JInt n \<Rightarrow> Inr (HttpError n (json_get d ''message'' (JStr ''Backend error'')) False)
         | _ \<Rightarrow> Inl TypeError)
     | _ \<Rightarrow> Inl (OtherError ''AttributeError''))"

definition answer :: "json \<Rightarrow> routing_decision \<Rightarrow> dispatched \<Rightarrow> exn + response" where
  "answer elapsed d r =
     (case r of
        DStream url payload \<Rightarrow> Inr (EventStream url payload)
      | DBody (JObj body) \<Rightarrow>
          (case dict_get body ''error'' of
             Some err \<Rightarrow> backend_error err
           | None \<Rightarrow>
               if dict_get body ''object'' = Some (JStr ''chat.completion'')
               then Inr (Completion (if ''processing_time_ms'' \<in> set (dict_keys body) then body
                                     else dict_set body ''processing_time_ms'' elapsed))
               else Inr (Wrapped (JObj body) (Some (vp_mode (rd_profile d), md_name (rd_target_model d)))))
      | DBody v \<Rightarrow> Inr (Wrapped v (Some (vp_mode (rd_profile d), md_name (rd_target_model d)))))"

text \<open>The tests of step 3.  The code reads the swap flag twice; nothing awaits in between.\<close>

definition needs_swap :: "'w env \<Rightarrow> 'w orch \<Rightarrow> routing_decision \<Rightarrow> bool" where
  "needs_swap env s d =
     ((case os_active s of None \<Rightarrow> [] | Some k \<Rightarrow> k) \<noteq> registry_key (e_catalog env) (rd_profile d) \<or>
      \<not> is_model_ready s (md_container_name (rd_target_model d)) \<or> os_swapping s)"

definition force_swap :: "'w env \<Rightarrow> 'w orch \<Rightarrow> routing_decision \<Rightarrow> bool" where
  "force_swap env s d =
     ((case os_active s of None \<Rightarrow> [] | Some k \<Rightarrow> k) = registry_key (e_catalog env) (rd_profile d) \<and>
      \<not> is_model_ready s (md_container_name (rd_target_model d)) \<and> \<not> os_swapping s)"

text \<open>The caller's label and the resolved model go into the request context, the system prompt into
  the prefix cache.\<close>

definition chat_context ::
    "(json \<Rightarrow> string) \<Rightarrow> catalog \<Rightarrow> agent_request \<Rightarrow> routing_decision \<Rightarrow> request_ctx option \<Rightarrow> request_ctx option" where
  "chat_context py_str cat r d ctx =
     set_model (Some (md_name (rd_target_model d))) (Some (registry_key cat (rd_profile d)))
       (set_agent py_str (json_or (opt_json (req_agent_id r)) (json_get (req_extra r) ''user'' JNull))
          (json_or (opt_json (req_session_id r)) (json_get (req_extra r) ''conversation_id'' JNull)) ctx)"

definition chat_prefix :: "(string \<Rightarrow> string) \<Rightarrow> nat \<Rightarrow> agent_request \<Rightarrow> prefix_cache \<Rightarrow> exn + prefix_cache" where
  "chat_prefix sha16 now r pc =
     (if req_messages r = [] then Inr pc
      else and_then (get_prefix_hash sha16 now (req_messages r) pc) (\<lambda>(h, pc'). Inr pc'))"

text \<open>What the coroutine of a request gets from outside: \<open>str()\<close> of exceptions and values, the hash,
  the setting, the clock, the result of waiting for the swap task (\<open>TimeoutError\<close> if the wait was
  given up) and the result of the dispatch.\<close>

record chat_world =
  cw_show_exn :: "exn \<Rightarrow> string"
  cw_py_str :: "json \<Rightarrow> string"
  cw_sha16 :: "string \<Rightarrow> string"
  cw_long_polling :: bool
  cw_now :: nat
  cw_elapsed :: json
  cw_waited :: "exn + bool"
  cw_reply :: "exn + dispatched"

text \<open>What happens around one request: the swap task is asked for, the request is dispatched.\<close>

datatype chat_event = AskSwap string bool | Dispatch model_definition

text \<open>\<open>_chat_completions\<close>, with the request context and the prefix cache it updates.\<close>

definition chat_completions ::
    "chat_world \<Rightarrow> 'w env \<Rightarrow> 'w orch \<Rightarrow> agent_request \<Rightarrow> routing_decision \<Rightarrow> request_ctx option \<times> prefix_cache \<Rightarrow>
     (request_ctx option \<times> prefix_cache) \<times> chat_event list \<times> (exn + response)" where
  "chat_completions cw env s r d st =
     (let key = registry_key (e_catalog env) (rd_profile d);
          ctx = chat_context (cw_py_str cw) (e_catalog env) r d (fst st)
      in case chat_prefix (cw_sha16 cw) (cw_now cw) r (snd st) of
          Inl e \<Rightarrow> ((ctx, snd st), [], Inl e)
        | Inr pc \<Rightarrow>
     (let ask = (if needs_swap env s d then [AskSwap key (force_swap env s d)] else []);
          proceed = (ask @ [Dispatch (rd_target_model d)],
             (case cw_reply cw of
                Inl e \<Rightarrow> if e = CancelledError then Inl e else Inr (HttpError 502 (JStr (cw_show_exn cw e)) False)
              | Inr reply \<Rightarrow> answer (cw_elapsed cw) d reply))
      in ((ctx, pc),
          if \<not> needs_swap env s d then proceed
          else if \<not> cw_long_polling cw then (ask, Inr (HttpError 503 (JStr ''Profile switch in progress'') True))
          else (case cw_waited cw of
              Inr ok \<Rightarrow> if ok then proceed else (ask, Inr (HttpError 503 (JStr ''Model swap failed'') True))
            | Inl e \<Rightarrow> if e = TimeoutError
                then (ask, Inr (HttpError 503 (JStr ''Swap still in progress, please retry'') True))
                else (ask, Inl e)))))"

text \<open>A request with the swap task it waits for.  The task is the one \<open>_get_or_create_swap_task\<close>
  gives: a new one or the unfinished one for the same profile, with the force flag that one was
  made with.  It starts its \<open>switch_profile\<close> in the state \<open>s0\<close>, when the swap lock is free; the
  request goes on in the state the task ends in, or gives the wait up.\<close>

definition serve_chat ::
    "chat_world \<Rightarrow> 'w env \<Rightarrow> 'w orch \<Rightarrow> 'w orch \<Rightarrow> bool \<Rightarrow> agent_request \<Rightarrow> routing_decision \<Rightarrow>
     tracker \<times> request_ctx option \<times> prefix_cache \<Rightarrow>
     (tracker \<times> request_ctx option \<times> prefix_cache) \<times> 'w orch \<times> chat_event list \<times> (exn + response)" where
  "serve_chat cw env s s0 gave_up r d st =
     (let (tk, st1) = st;
          (i, tk') = get_or_create_swap_task (registry_key (e_catalog env) (rd_profile d)) (force_swap env s d) tk;
          (result, s1) = switch_profile env (rd_profile d) (st_force (tk_tasks tk' ! i)) s0;
          (st2, evs, res) = chat_completions
            (cw\<lparr>cw_waited := if gave_up then Inl TimeoutError else task_outcome result\<rparr>) env s r d st1;
          asked = (\<exists>key force. AskSwap key force \<in> set evs)
      in ((if asked then tk' else tk, st2), if asked then s1 else s, evs, res))"

text \<open>The two ways the awaited task can have succeeded: it ran the swap, or it found its profile
  active when it began, not being forced, and did nothing.\<close>

lemma task_success:
  assumes "task_outcome (fst (switch_profile env target force s0)) = Inr True" "\<not> os_swapping s0"
  shows "os_active (snd (switch_profile env target force s0)) = Some (registry_key (e_catalog env) target) \<and>
    \<not> os_swapping (snd (switch_profile env target force s0)) \<and>
    ((\<forall>m \<in> set (all_models_of target). is_model_ready (snd (switch_profile env target force s0)) (md_container_name m)) \<or>
     \<not> force \<and> os_active s0 = Some (registry_key (e_catalog env) target) \<and> snd (switch_profile env target force s0) = s0)"
proof (cases "os_active s0 \<noteq> Some (registry_key (e_catalog env) target) \<or> force")
  case True
  obtain r s1 where run: "switch_profile env target force s0 = (r, s1)" by (cases "switch_profile env target force s0")
  with assms(1) have "r = Inr True" by (cases r) (auto simp: task_outcome_def split: if_splits)
  with switch_profile_control [OF True run] run show ?thesis by (auto simp: all_in_def is_model_ready_def)
next
  case False
  with switch_profile_skip [of s0 env target] assms(2) show ?thesis by auto
qed

lemma task_outcome_exn: "task_outcome r = Inl e \<Longrightarrow> e = CancelledError"
  by (cases r) (auto simp: task_outcome_def split: if_splits)

lemma chat_completions_cases:
  assumes "chat_completions cw env s r d st = (st', evs, res)"
  shows "(evs = [] \<and> (\<exists>e. chat_prefix (cw_sha16 cw) (cw_now cw) r (snd st) = Inl e \<and> res = Inl e)) \<or>
    (evs = [Dispatch (rd_target_model d)] \<and> \<not> needs_swap env s d) \<or>
    (\<exists>force. force = force_swap env s d \<and> needs_swap env s d \<and>
       (evs = [AskSwap (registry_key (e_catalog env) (rd_profile d)) force, Dispatch (rd_target_model d)] \<and>
          cw_long_polling cw \<and> cw_waited cw = Inr True \<or>
        evs = [AskSwap (registry_key (e_catalog env) (rd_profile d)) force] \<and>
          ((\<exists>detail. res = Inr (HttpError 503 detail True)) \<or>
           (\<exists>e. res = Inl e \<and> cw_waited cw = Inl e \<and> e \<noteq> TimeoutError))))"
  using assms by (auto simp: chat_completions_def Let_def split: if_splits sum.splits)



definition calm_world :: chat_world where
  "calm_world = \<lparr>cw_show_exn = (\<lambda>_. []), cw_py_str = (\<lambda>_. []), cw_sha16 = (\<lambda>_. []), cw_long_polling = True, cw_now = 0,
     cw_elapsed = JInt 1, cw_waited = Inr True, cw_reply = Inr (DStream ''u'' [])\<rparr>"

definition auto_request :: agent_request where
  "auto_request = \<lparr>req_model = ''auto'', req_messages = [], req_stream = True, req_agent_id = None, req_session_id = None,
     req_declared = [], req_extra = []\<rparr>"

text \<open>A request for a model that has fallen out of readiness, whose swap succeeds: it is dispatched to
  a container recorded \<open>READY\<close>.\<close>

definition box_decision :: routing_decision where
  "box_decision = \<lparr>rd_media_type = TEXT, rd_profile = box_profile, rd_target_model = box_model, rd_requires_swap = False\<rparr>"


section \<open>The watchdog\<close>

definition downgrade :: "string \<Rightarrow> ('w orch, unit) eff" where
  "downgrade name = bind (gets (\<lambda>s. dict_get (os_states s) name)) (\<lambda>st.
     if st = Some READY then set_state name ERROR else ret ())"

definition watch_model :: "'w env \<Rightarrow> string option \<Rightarrow> string list \<Rightarrow> model_definition \<Rightarrow> ('w orch, unit) eff" where
  "watch_model env head degraded m =
     (if md_name m \<in> set degraded then downgrade (md_container_name m)
      else if \<not> exec_managed m then ret ()
      else if md_engine m = ''ray_vllm'' \<and> head = None then ret ()
      else bind (check_vllm_health env (md_container_name m) (md_port m) (md_engine m)) (\<lambda>healthy.
        if healthy then ret () else downgrade (md_container_name m)))"

definition ray_degraded :: "ray_status option \<Rightarrow> string list" where
  "ray_degraded st = (case st of None \<Rightarrow> []
     | Some r \<Rightarrow> if rs_healthy r then [] else concat (map rc_models (filter (\<lambda>c. \<not> rc_healthy c) (rs_clusters r))))"

definition ray_watchdog_tick :: "'w env \<Rightarrow> ('w orch, unit) eff" where
  "ray_watchdog_tick env =
     bind (find_ray_head env) (\<lambda>head.
     seq (if head = None
          then for_each (filter (\<lambda>m. md_engine m = ''ray_vllm'') (ALL_MODELS (e_catalog env)))
                 (\<lambda>m. set_state (md_container_name m) ERROR)
          else ret ())
     (bind (refresh_ray_status env) (\<lambda>st.
      bind (gets (active_vram_profile env)) (\<lambda>p. case p of
          None \<Rightarrow> ret ()
        | Some prof \<Rightarrow> for_each (all_models_of prof) (watch_model env head (ray_degraded st))))))"

text \<open>One round of \<open>_ray_watchdog_loop\<close>.\<close>

definition ray_watchdog_round :: "'w env \<Rightarrow> nat \<Rightarrow> ('w orch, unit) eff" where
  "ray_watchdog_round env interval = seq (sleep env interval) (handle (ray_watchdog_tick env) (\<lambda>_. ret ()))"

text \<open>The assertion of the watchdog: against the state \<open>s0\<close> it started from, a recorded state has
  only changed to \<open>ERROR\<close>, for the container of a Ray model or, from \<open>READY\<close>, of a model of the
  active profile.\<close>

definition may_fail :: "'w env \<Rightarrow> 'w orch \<Rightarrow> string \<Rightarrow> bool" where
  "may_fail env s0 n =
     ((\<exists>m \<in> set (ALL_MODELS (e_catalog env)). md_engine m = ''ray_vllm'' \<and> md_container_name m = n) \<or>
      dict_get (os_states s0) n = Some READY \<and>
        (\<exists>p. active_vram_profile env s0 = Some p \<and> (\<exists>m \<in> set (all_models_of p). md_container_name m = n)))"

definition downgraded :: "'w env \<Rightarrow> 'w orch \<Rightarrow> 'w orch \<Rightarrow> bool" where
  "downgraded env s0 s =
     (os_active s = os_active s0 \<and> os_swapping s = os_swapping s0 \<and>
      (\<forall>n. dict_get (os_states s) n = dict_get (os_states s0) n \<or> dict_get (os_states s) n = Some ERROR \<and> may_fail env s0 n) \<and>
      (\<exists>cs. os_calls s = os_calls s0 @ cs \<and> list_all no_container_call cs))"

lemma downgraded_external: "external no_container_call m \<Longrightarrow> keeps m (downgraded env s0)"
  by (rule external_valid) (auto simp: same_control_def adds_def downgraded_def)

lemma downgraded_downgrade:
  assumes "active_vram_profile env s0 = Some p" "m \<in> set (all_models_of p)"
  shows "keeps (downgrade (md_container_name m)) (downgraded env s0)"
proof -
  have "dict_get (os_states s) n = Some READY \<Longrightarrow> downgraded env s0 s \<Longrightarrow> dict_get (os_states s0) n = Some READY" for s n
    by (auto simp: downgraded_def dest: spec [of _ n])
  then have "may_fail env s0 (md_container_name m)"
    if "dict_get (os_states s) (md_container_name m) = Some READY" "downgraded env s0 s" for s
    using assms that unfolding may_fail_def by blast
  then show ?thesis
    by (auto simp: keeps_iff downgrade_def eff_simps) (simp add: downgraded_def)
qed

lemma downgraded_watch:
  assumes "active_vram_profile env s0 = Some p" "m \<in> set (all_models_of p)"
  shows "keeps (watch_model env head degraded m) (downgraded env s0)"
  unfolding watch_model_def
  by (intro valid_if keeps_bind downgraded_downgrade [OF assms] downgraded_external external_quiet_ops(6) external_ret)

lemma downgraded_refresh: "keeps (refresh_ray_status env) (downgraded env s0)"
  unfolding refresh_ray_status_def
  by (intro keeps_bind downgraded_external external_check_ray external_ret hoare) (simp add: downgraded_def)

lemma downgraded_tick: "keeps (ray_watchdog_tick env) (downgraded env s0)"
proof -
  have ray: "keeps (for_each (filter (\<lambda>m. md_engine m = ''ray_vllm'') (ALL_MODELS (e_catalog env)))
      (\<lambda>m. set_state (md_container_name m) ERROR)) (downgraded env s0)"
    unfolding set_state_def
    by (intro valid_for_each hoare) (auto simp: downgraded_def may_fail_def)
  have watch: "valid (\<lambda>s. downgraded env s0 s \<and> p = active_vram_profile env s) (case p of None \<Rightarrow> ret ()
      | Some prof \<Rightarrow> for_each (all_models_of prof) (watch_model env head degraded)) (\<lambda>_. downgraded env s0) (\<lambda>_. downgraded env s0)"
    for p head degraded
  proof (cases "p = active_vram_profile env s0")
    case True
    show ?thesis
      by (rule valid_pre [where P' = "downgraded env s0"])
         (use True in \<open>auto intro!: valid_for_each downgraded_watch valid_ret split: option.split\<close>)
  next
    case False
    show ?thesis
      by (rule valid_pre [OF valid_false]) (use False in \<open>auto simp: downgraded_def active_vram_profile_def\<close>)
  qed
  have gets: "valid (downgraded env s0) (gets (active_vram_profile env)) (\<lambda>p s. downgraded env s0 s \<and> p = active_vram_profile env s) E" for E
    by (rule hoare) simp
  show ?thesis
    unfolding ray_watchdog_tick_def
    by (intro keeps_bind valid_bind [OF gets watch] valid_if ray downgraded_refresh downgraded_external
        external_find_ray_head external_ret) simp_all
qed

text \<open>Detection, when the health endpoints answer steadily: a model must fail if its Ray cluster is
  degraded or if it is served by a command and does not answer 200.  \<open>K\<close> holds the models
  marked before the loop.\<close>

abbreviation not_ready :: "model_definition list \<Rightarrow> 'w orch \<Rightarrow> bool" where
  "not_ready ms s \<equiv> \<forall>m \<in> set ms. \<not> is_model_ready s (md_container_name m)"

definition must_fail :: "'w env \<Rightarrow> (string \<Rightarrow> nat) \<Rightarrow> ray_status option \<Rightarrow> model_definition \<Rightarrow> bool" where
  "must_fail env status st m = (md_name m \<in> set (ray_degraded st) \<or> exec_managed m \<and> \<not> serving env status m)"

abbreviation watched :: "ray_status option \<Rightarrow> model_definition list \<Rightarrow> 'w orch \<Rightarrow> bool" where
  "watched st ms s \<equiv> os_ray s = st \<and> not_ready ms s"

lemma downgrade_watched: "valid (watched st ms) (downgrade (md_container_name m)) (\<lambda>_. watched st (ms @ [m])) E"
  by (auto simp: valid_def downgrade_def eff_simps is_model_ready_def)

lemma watch_not_ready:
  fixes env :: "'a env" and st :: "ray_status option"
  assumes "stable_health env status" and K: "md_engine m = ''ray_vllm'' \<and> head = None \<Longrightarrow> m \<in> set K"
  defines "I \<equiv> \<lambda>ds. watched st (K @ filter (must_fail env status st) ds)"
  shows "valid (I ds) (watch_model env head (ray_degraded st) m) (\<lambda>_. I (ds @ [m])) E"
proof -
  have drop: "valid (I ds) (downgrade (md_container_name m)) (\<lambda>_. I (ds @ [m])) E"
    unfolding I_def by (rule valid_conseq [OF downgrade_watched [of st "K @ filter (must_fail env status st) ds" m]]) auto
  have stay: "valid (I ds) (ret ()) (\<lambda>_. I (ds @ [m])) E" if "\<not> must_fail env status st m \<or> m \<in> set K"
    using that unfolding I_def by (intro valid_ret) auto
  have health: "valid (I ds) (check_vllm_health env (md_container_name m) (md_port m) (md_engine m))
      (\<lambda>h s. I ds s \<and> h = serving env status m) E"
    unfolding valid_def
  proof (intro allI impI)
    fix s :: "'a orch"
    assume "I ds s"
    moreover obtain s' where "check_vllm_health env (md_container_name m) (md_port m) (md_engine m) s =
        (Inr (serving env status m), s')" "same_control s s'"
      using check_health_stable [OF assms(1)] by blast
    ultimately show "case check_vllm_health env (md_container_name m) (md_port m) (md_engine m) s of
        (Inl e, s') \<Rightarrow> E e s' | (Inr h, s') \<Rightarrow> I ds s' \<and> h = serving env status m"
      by (simp add: I_def same_control_def is_model_ready_def)
  qed
  have probe: "valid (\<lambda>s. I ds s \<and> h = serving env status m)
      (if h then ret () else downgrade (md_container_name m)) (\<lambda>_. I (ds @ [m])) E" if "md_name m \<notin> set (ray_degraded st)" for h
  proof (cases "h = serving env status m")
    case True
    have "valid (I ds) (if h then ret () else downgrade (md_container_name m)) (\<lambda>_. I (ds @ [m])) E"
      by (intro valid_if drop stay) (use True that in \<open>simp add: must_fail_def\<close>)
    then show ?thesis by (rule valid_pre) simp
  next
    case False
    show ?thesis by (rule valid_pre [OF valid_false]) (simp add: False)
  qed
  show ?thesis
    unfolding watch_model_def
    by (intro valid_if drop valid_bind [OF health probe] stay) (use K in \<open>auto simp: must_fail_def\<close>)
qed

lemma tick_detects:
  fixes p :: vram_profile
  assumes "stable_health env status" "set (all_models_of p) \<subseteq> set (ALL_MODELS (e_catalog env))"
  defines "rays (h :: string option) \<equiv> if h = None then filter (\<lambda>m. md_engine m = ''ray_vllm'') (ALL_MODELS (e_catalog env)) else []"
  shows "valid (\<lambda>s. active_vram_profile env s = Some p) (ray_watchdog_tick env)
    (\<lambda>_ s. not_ready (filter (must_fail env status (os_ray s)) (all_models_of p)) s) (\<lambda>_ _. True)"
proof -
  let ?E = "\<lambda>_ _. True"
  let ?A = "\<lambda>s. active_vram_profile env s = Some p"
  let ?B = "\<lambda>h s. ?A s \<and> not_ready (rays h) s"
  let ?D = "\<lambda>_ s. not_ready (filter (must_fail env status (os_ray s)) (all_models_of p)) s"
  have head: "valid ?A (find_ray_head env) (\<lambda>_. ?A) ?E"
    by (rule external_valid [OF external_find_ray_head]) (auto simp: active_vram_profile_def same_control_def)
  have mark: "valid ?A (if h = None then for_each (filter (\<lambda>m. md_engine m = ''ray_vllm'') (ALL_MODELS (e_catalog env)))
      (\<lambda>m. set_state (md_container_name m) ERROR) else ret ()) (\<lambda>_. ?B h) ?E" for h
  proof (cases h)
    case None
    have "valid (\<lambda>s. ?A s \<and> not_ready ds s) (set_state (md_container_name m) ERROR) (\<lambda>_ s. ?A s \<and> not_ready (ds @ [m]) s) ?E"
      for ds m
      by (auto simp: valid_def eff_simps is_model_ready_def active_vram_profile_def)
    then have marked: "valid (\<lambda>s. ?A s \<and> not_ready [] s) (for_each ms (\<lambda>m. set_state (md_container_name m) ERROR)) (\<lambda>_ s. ?A s \<and> not_ready ms s) ?E"
      for ms by (intro valid_for_each_done)
    from marked [of "filter (\<lambda>m. md_engine m = ''ray_vllm'') (ALL_MODELS (e_catalog env))"]
    show ?thesis by (simp add: None rays_def)
  qed (auto simp: rays_def intro: valid_ret)
  have refresh: "valid (?B h) (refresh_ray_status env) (\<lambda>st s. ?B h s \<and> os_ray s = st) ?E" for h
  proof -
    have check: "valid (?B h) (check_ray_requirement env) (\<lambda>_. ?B h) ?E"
      by (rule external_valid [OF external_check_ray]) (auto simp: active_vram_profile_def same_control_def is_model_ready_def)
    have store: "valid (?B h) (seq (modify (\<lambda>s. s\<lparr>os_ray := st, os_ray_profile := os_active s, os_ray_at := os_now s\<rparr>)) (ret st))
        (\<lambda>st s. ?B h s \<and> os_ray s = st) ?E" for st
      by (auto simp: valid_def eff_simps is_model_ready_def active_vram_profile_def)
    show ?thesis unfolding refresh_ray_status_def by (rule valid_bind [OF check store])
  qed
  have gets: "valid (\<lambda>s. ?B h s \<and> os_ray s = st) (gets (active_vram_profile env))
      (\<lambda>q s. q = Some p \<and> watched st (rays h) s) ?E" for h st
    by (rule hoare) simp
  have loop: "valid (watched st (rays h)) (for_each (all_models_of p) (watch_model env h (ray_degraded st))) ?D ?E" for h st
  proof (rule valid_conseq [OF valid_for_each_done [where I = "\<lambda>ds. watched st (rays h @ filter (must_fail env status st) ds)"]])
    fix ds m rest assume "all_models_of p = ds @ m # rest"
    then have "m \<in> set (all_models_of p)" by simp
    then have "md_engine m = ''ray_vllm'' \<and> h = None \<Longrightarrow> m \<in> set (rays h)" using assms(2) by (auto simp: rays_def)
    from watch_not_ready [OF assms(1) this]
    show "valid (watched st (rays h @ filter (must_fail env status st) ds)) (watch_model env h (ray_degraded st) m)
        (\<lambda>_. watched st (rays h @ filter (must_fail env status st) (ds @ [m]))) ?E" .
  qed auto
  have rest: "valid (\<lambda>s. q = Some p \<and> watched st (rays h) s)
      (case q of None \<Rightarrow> ret () | Some prof \<Rightarrow> for_each (all_models_of prof) (watch_model env h (ray_degraded st))) ?D ?E" for q h st
  proof (cases "q = Some p")
    case True
    show ?thesis unfolding True option.case by (rule valid_pre [OF loop]) simp
  qed (rule valid_pre [OF valid_false], simp)
  show ?thesis
    unfolding ray_watchdog_tick_def
    by (intro valid_bind [OF head] valid_bind [OF mark] valid_bind [OF refresh] valid_bind [OF gets rest])
qed

context runtime begin

lemma absorbs_tick: "e_backend env = be \<Longrightarrow> absorbs (ray_watchdog_tick env)"
  unfolding ray_watchdog_tick_def watch_model_def downgrade_def
  by (intro absorb_intro absorbs_find_head absorbs_refresh)

end

text \<open>The watchdog only takes readiness away.  Whatever a round of it observes, and however it
  ends, the active profile and the swap flag are unchanged, no container is started, stopped or
  removed, and every recorded state is either unchanged or now \<open>ERROR\<close>; the latter only for a
  Ray model or for a model of the active profile that was recorded \<open>READY\<close>.\<close>

theorem watchdog_only_downgrades:
  "let s' = snd (ray_watchdog_round env interval s) in
   os_active s' = os_active s \<and> os_swapping s' = os_swapping s \<and>
   (\<forall>n. dict_get (os_states s') n = dict_get (os_states s) n \<or> dict_get (os_states s') n = Some ERROR \<and> may_fail env s n) \<and>
   (\<exists>cs. os_calls s' = os_calls s @ cs \<and> list_all no_container_call cs)"
proof -
  have "keeps (ray_watchdog_round env interval) (downgraded env s)"
    unfolding ray_watchdog_round_def
    by (intro keeps_bind keeps_handle downgraded_tick downgraded_external external_ret external_sleep) simp
  moreover have "downgraded env s s" by (auto simp: downgraded_def)
  ultimately show ?thesis by (simp add: keeps_iff downgraded_def Let_def)
qed

text \<open>C24: the watchdog notices.  If the health endpoints answer steadily, a pass of the watchdog over
  either backend ends normally or is cancelled.  After a normal end no model of the active profile
  that is served by a command in a shared container, Ray or not, and does not answer 200 is still
  recorded \<open>READY\<close>, and neither is one of a Ray cluster the pass found degraded.\<close>

theorem watchdog_detects:
  assumes "wf_catalog (e_catalog env)" "stable_health env status" "active_vram_profile env s = Some p"
    and "e_backend env = docker_backend cfg docker_sdk \<or> e_backend env = kubernetes_backend cfg show_exn k8s_sdk"
    and "ray_watchdog_tick env s = (r, s')"
  shows "r = Inl CancelledError \<or> r = Inr () \<and>
    (\<forall>m \<in> set (all_models_of p).
       exec_managed m \<and> \<not> serving env status m \<or> md_name m \<in> set (ray_degraded (os_ray s')) \<longrightarrow>
       \<not> is_model_ready s' (md_container_name m))"
proof -
  have absorbs: "absorbs (ray_watchdog_tick env)"
    using assms(4) docker.absorbs_tick kubernetes.absorbs_tick by blast
  have models: "set (all_models_of p) \<subseteq> set (ALL_MODELS (e_catalog env))"
    using assms(3) wf_catalogD(2) [OF assms(1) map_of_SomeD] by (auto simp: active_vram_profile_def split: option.splits if_splits)
  show ?thesis
  proof (cases r)
    case (Inl e)
    then show ?thesis using absorbs assms(5) unfolding absorbs_def by (metis fst_conv)
  next
    case (Inr u)
    then have "ray_watchdog_tick env s = (Inr u, s')" using assms(5) by simp
    from validD [OF tick_detects [OF assms(2) models] assms(3) this] Inr show ?thesis by (auto simp: must_fail_def)
  qed
qed

definition broken_gateway :: "unit env" where
  "broken_gateway = (sim_env (gateway_catalog ''vllm_node'') (\<lambda>_. 503))\<lparr>e_backend := docker_backend default_settings empty_docker\<rparr>"

text \<open>A catalog of one Ray model, whose head container is missing.\<close>

definition ray_model :: model_definition where
  "ray_model = box_model\<lparr>md_engine := ''ray_vllm''\<rparr>"

definition ray_catalog :: catalog where
  "ray_catalog = (let p = mk_profile CREATIVE ''box'' [ray_model] [] [(''chat'', ray_model)] True
     in \<lparr>PROFILES = [(''box'', p)], ALL_MODELS = [ray_model], DEFAULT_PROFILE = p\<rparr>)"

definition headless :: "unit env" where
  "headless = broken_gateway\<lparr>e_catalog := ray_catalog\<rparr>"

definition serving_ray :: "unit orch" where
  "serving_ray = orch_init ()\<lparr>os_active := Some ''box'', os_states := [(''box'', READY)]\<rparr>"

theorem watchdog_detects_witness:
  "\<not> is_model_ready (snd (ray_watchdog_tick broken_gateway serving_deepseek)) ''vllm_node'' \<and>
   \<not> is_model_ready (snd (ray_watchdog_tick headless serving_ray)) ''box''"
proof
  have [simp]: "e_catalog broken_gateway = gateway_catalog ''vllm_node''"
    "e_http_status broken_gateway = (\<lambda>url w. (Inr 503, 1, w))"
    by (simp_all add: broken_gateway_def sim_env_def)
  have 0: "wf_catalog (e_catalog broken_gateway)" by (simp add: wf_gateway_catalog)
  have 1: "stable_health broken_gateway (\<lambda>_. 503)" by (simp add: stable_health_def)
  have 2: "active_vram_profile broken_gateway serving_deepseek = Some (PROFILE_DEEPSEEK ''vllm_node'')"
    by (simp add: active_vram_profile_def serving_deepseek_def)
  have 3: "e_backend broken_gateway = docker_backend default_settings empty_docker" by (simp add: broken_gateway_def)
  have "fst (ray_watchdog_tick broken_gateway serving_deepseek) = Inr ()"
    by (simp add: ray_watchdog_tick_def find_ray_head_def refresh_ray_status_def check_ray_requirement_def watch_model_def
        downgrade_def check_vllm_health_def active_vram_profile_def required_ray_nodes_def 3 docker_backend_def docker_list_workloads_def
        ext_ret_def ext_bind_def empty_docker_def ray_degraded_def serving_deepseek_def orch_init_def EXEC_ENGINES_def
        eff_simps Let_def)
  then show "\<not> is_model_ready (snd (ray_watchdog_tick broken_gateway serving_deepseek)) ''vllm_node''"
    using watchdog_detects [OF 0 1 2 disjI1 [OF 3] prod.collapse [symmetric]] by (auto simp: EXEC_ENGINES_def)
next
  let ?p = "mk_profile CREATIVE ''box'' [ray_model] [] [(''chat'', ray_model)] True"
  have env: "e_catalog headless = ray_catalog" "e_http_status headless = (\<lambda>url w. (Inr 503, 1, w))"
    "e_backend headless = docker_backend default_settings empty_docker"
    by (simp_all add: headless_def broken_gateway_def sim_env_def)
  have ray: "md_engine ray_model = ''ray_vllm''" "md_container_name ray_model = ''box''" by (simp_all add: ray_model_def)
  have catalog: "PROFILES ray_catalog = [(''box'', ?p)]" "ALL_MODELS ray_catalog = [ray_model]" "DEFAULT_PROFILE ray_catalog = ?p"
    "vp_primary_models ?p = [ray_model]" "vp_secondary_models ?p = []" "vp_labels ?p = [(''chat'', ray_model)]"
    by (simp_all add: ray_catalog_def mk_profile_def Let_def)
  have 0: "wf_catalog (e_catalog headless)" by (simp add: env wf_catalog_def wf_profile_def catalog)
  have 1: "stable_health headless (\<lambda>_. 503)" by (simp add: stable_health_def env)
  have 2: "active_vram_profile headless serving_ray = Some ?p"
    by (simp add: active_vram_profile_def serving_ray_def env catalog)
  have "fst (ray_watchdog_tick headless serving_ray) = Inr ()"
    by (simp add: ray_watchdog_tick_def find_ray_head_def refresh_ray_status_def check_ray_requirement_def watch_model_def
        downgrade_def active_vram_profile_def required_ray_nodes_def group_by_def ray_container_def env catalog ray
        docker_backend_def docker_list_workloads_def
        ext_ret_def ext_bind_def empty_docker_def ray_degraded_def serving_ray_def orch_init_def EXEC_ENGINES_def
        eff_simps Let_def)
  then show "\<not> is_model_ready (snd (ray_watchdog_tick headless serving_ray)) ''box''"
    using watchdog_detects [OF 0 1 2 disjI1 [OF env(3)] prod.collapse [symmetric]] by (auto simp: catalog ray EXEC_ENGINES_def)
qed

end
