(* ===== verification/Endpoints.thy ===== *)
theory Endpoints
  imports App Admission "HOL-Library.List_Lexorder" "HOL-Library.Char_ord"
begin

text \<open>
  The rest of \<open>gateway/app.py\<close>: what happens at startup, the status and administration endpoints,
  the model listing, and the way a chat request holds its lease.  An \<open>HTTPException\<close> raised by an
  endpoint is an \<open>exn\<close>.
\<close>

section \<open>Startup\<close>

text \<open>\<open>load_persisted_profile\<close>: \<open>doc\<close> is the JSON value of the state file, or the exception of opening
  or parsing it.  The value of the entry can be any JSON value.\<close>

definition load_persisted_profile :: "exn + json \<Rightarrow> json" where
  "load_persisted_profile doc = (case doc of Inr (JObj d) \<Rightarrow> json_get d ''active_profile'' JNull | _ \<Rightarrow> JNull)"

text \<open>The profile \<open>lifespan\<close> loads when nothing was adopted; a list or a dictionary is no key.\<close>

definition startup_profile :: "catalog \<Rightarrow> json \<Rightarrow> exn + vram_profile" where
  "startup_profile cat key =
     (let default = (case dict_get (PROFILES cat) ''deepseek'' of Some p \<Rightarrow> p | None \<Rightarrow> DEFAULT_PROFILE cat) in
      if \<not> json_truthy key then Inr default
      else (case key of
          JStr k \<Rightarrow> Inr (case dict_get (PROFILES cat) k of Some p \<Rightarrow> p | None \<Rightarrow> default)
        | JArr _ \<Rightarrow> Inl TypeError
        | JObj _ \<Rightarrow> Inl TypeError
        | _ \<Rightarrow> Inr default))"

definition startup :: "'w env \<Rightarrow> exn + json \<Rightarrow> ('w orch, unit) eff" where
  "startup env doc =
     bind (detect_and_adopt env) (\<lambda>adopted.
     if or_empty adopted \<noteq> [] then ret ()
     else seq (cleanup_orphaned_containers env)
       (case startup_profile (e_catalog env) (load_persisted_profile doc) of
          Inl e \<Rightarrow> throw e
        | Inr p \<Rightarrow> bind (switch_profile env p False) (\<lambda>_. ret ())))"

text \<open>What startup does to the active profile.\<close>

abbreviation idle_with :: "(string option \<Rightarrow> bool) \<Rightarrow> 'w orch \<Rightarrow> bool" where
  "idle_with P s \<equiv> P (os_active s) \<and> \<not> os_swapping s"

lemma idle_external: "external C m \<Longrightarrow> valid (idle_with P) m (\<lambda>_. idle_with P) (\<lambda>_. idle_with P)"
  by (rule external_valid) (auto simp: same_control_def)

lemma external_scan: "external (\<lambda>_. True) (scan_models env ms sc)"
  by (induction ms arbitrary: sc) (auto simp: Let_def intro!: ext_intro external_any_ops)

lemma external_cleanup: "external (\<lambda>_. True) (cleanup_models env ms b)"
proof -
  have "external (\<lambda>_. True) (stop_spark_serve env m)" "external (\<lambda>_. True) (kill_all_ray_vllm env)" for m
    by (rule external_mono [OF external_stop_spark] external_mono [OF external_kill_all], simp)+
  then show ?thesis by (induction ms arbitrary: b) (auto intro!: ext_intro external_any_ops)
qed

lemma detect_active:
  "valid (idle_with (\<lambda>a. a = None)) (detect_and_adopt env)
     (\<lambda>k. idle_with (\<lambda>a. a = k \<and> (\<forall>key. k = Some key \<longrightarrow> key \<in> set (dict_keys (PROFILES (e_catalog env))))))
     (\<lambda>_. idle_with (\<lambda>a. \<forall>key. a = Some key \<longrightarrow> key \<in> set (dict_keys (PROFILES (e_catalog env)))))"
proof -
  let ?ok = "\<lambda>a. \<forall>key. a = Some key \<longrightarrow> key \<in> set (dict_keys (PROFILES (e_catalog env)))"
  have scan: "valid (idle_with (\<lambda>a. a = None)) (scan_models env ms sc) (\<lambda>_. idle_with (\<lambda>a. a = None)) (\<lambda>_. idle_with ?ok)" for ms sc
    by (rule valid_conseq [OF idle_external [OF external_scan, where P = "\<lambda>a. a = None"]]) auto
  have known: "key \<in> set (dict_keys (PROFILES (e_catalog env)))" if "find P (PROFILES (e_catalog env)) = Some (key, p)" for P key p
    using find_SomeD [OF that] by (auto intro: image_eqI [of _ fst "(key, p)"])
  have states: "keeps (adopt_states sc ms) (idle_with P)" for sc ms P
    unfolding adopt_states_def set_state_def by (intro valid_for_each hoare) simp
  have orphan: "keeps (for_each ns (remove_orphan env sc)) (idle_with P)" for ns sc P
    unfolding remove_orphan_def
    by (intro valid_for_each idle_external [where C = "\<lambda>_. True"]) (auto intro!: ext_intro external_any_ops split: option.splits)
  have weaken: "valid (idle_with (\<lambda>a. a = Some key)) m (\<lambda>_. idle_with (\<lambda>a. a = Some key)) (\<lambda>_. idle_with ?ok)"
    if "keeps m (idle_with (\<lambda>a. a = Some key))" "key \<in> set (dict_keys (PROFILES (e_catalog env)))"
    for key and m :: "('a orch, unit) eff"
    by (rule valid_conseq [OF that(1)]) (use that(2) in auto)
  have rest: "valid (idle_with (\<lambda>a. a = None))
      (seq (modify (\<lambda>s. s\<lparr>os_active := Some key\<rparr>))
         (seq (adopt_states sc (all_models_of p))
         (seq (for_each ns (remove_orphan env sc))
         (seq (persist_state env) (ret (Some key))))))
      (\<lambda>k. idle_with (\<lambda>a. a = k \<and> ?ok k)) (\<lambda>_. idle_with ?ok)"
    if "key \<in> set (dict_keys (PROFILES (e_catalog env)))" for key sc p ns
    by (rule valid_bind [where R = "\<lambda>_. idle_with (\<lambda>a. a = Some key)"], rule hoare, simp)
       (intro valid_bind [OF weaken [OF states that]] valid_bind [OF weaken [OF orphan that]]
          valid_bind [OF weaken [OF idle_external [OF external_any_ops(6)] that]] hoare, use that in simp)
  show ?thesis
    unfolding detect_and_adopt_def
  proof (intro valid_bind [OF scan] valid_if)
    fix sc
    show "valid (idle_with (\<lambda>a. a = None)) (ret None) (\<lambda>k. idle_with (\<lambda>a. a = k \<and> ?ok k)) (\<lambda>_. idle_with ?ok)"
      by (intro hoare) simp
    then show "valid (idle_with (\<lambda>a. a = None)) (case find (\<lambda>(k, p). adoptable sc p) (PROFILES (e_catalog env)) of
           None \<Rightarrow> ret None
         | Some (key, p) \<Rightarrow>
             seq (modify (\<lambda>s. s\<lparr>os_active := Some key\<rparr>))
             (seq (adopt_states sc (all_models_of p))
             (seq (for_each (filter (\<lambda>n. n \<notin> set (map md_container_name (all_models_of p))) (dict_keys (sc_running sc)))
                     (remove_orphan env sc))
             (seq (persist_state env) (ret (Some key))))))
       (\<lambda>k. idle_with (\<lambda>a. a = k \<and> ?ok k)) (\<lambda>_. idle_with ?ok)"
    proof (cases "find (\<lambda>(k, p). adoptable sc p) (PROFILES (e_catalog env))")
      case (Some kp)
      obtain key p where kp: "kp = (key, p)" by (cases kp)
      show ?thesis unfolding Some kp option.case prod.case by (rule rest [OF known [OF Some [unfolded kp]]])
    qed simp
  qed
qed

context runtime begin

lemma absorbs_switch: "absorbs (switch_profile env p force)"
proof -
  have fin: "absorbs (finally_do m c)" if "absorbs m" for m :: "('a orch, bool) eff" and c
    using that by (auto simp: absorbs_def finally_do_def split: prod.splits) (metis fst_conv)
  show ?thesis unfolding switch_profile_def Let_def by (intro absorb_intro fin)
qed

lemma startup_result:
  assumes "e_backend env = be" "startup env doc s = (r, s')"
  shows "r = Inr () \<or> r = Inl CancelledError \<or> (\<exists>e. r = Inl e \<and> startup_profile (e_catalog env) (load_persisted_profile doc) = Inl e)"
proof (cases "startup_profile (e_catalog env) (load_persisted_profile doc)")
  case (Inr p)
  have "absorbs (startup env doc)"
    unfolding startup_def Inr sum.case
    by (intro absorb_intro absorbs_detect [OF assms(1)] absorbs_cleanup [OF assms(1)] absorbs_switch)
  then show ?thesis using assms(2) by (cases r) (auto simp: absorbs_def dest!: spec [of _ s])
next
  case (Inl e)
  show ?thesis
    using assms(2) absorbs_detect [OF assms(1)] absorbs_cleanup [OF assms(1)] Inl
    unfolding startup_def bind_def absorbs_def
    by (auto simp: ret_def throw_def split: prod.splits sum.splits if_splits) (metis fst_conv)+
qed

end

text \<open>The profile to load: the persisted one if it is known, else the default.\<close>

definition restored_key :: "exn + json \<Rightarrow> string" where
  "restored_key doc = (case load_persisted_profile doc of
       JStr k \<Rightarrow> if k \<in> {''deepseek'', ''qwen35'', ''qwen38''} then k else ''deepseek''
     | _ \<Rightarrow> ''deepseek'')"


lemma startup_profile_restored:
  assumes "startup_profile (gateway_catalog c) (load_persisted_profile doc) = Inr p"
  shows "registry_key (gateway_catalog c) p = restored_key doc"
proof -
  have qwen35: "registry_key (gateway_catalog c) (PROFILE_QWEN35 c) = ''qwen35''" by (simp add: registry_key_def)
  show ?thesis
    using assms by (cases "load_persisted_profile doc") (auto simp: startup_profile_def restored_key_def qwen35 Let_def split: if_splits)
qed

lemma restored_key_known: "restored_key doc \<in> {''deepseek'', ''qwen35'', ''qwen38''}"
  by (auto simp: restored_key_def split: json.splits)

lemma load_active:
  assumes cat: "e_catalog env = gateway_catalog c"
  shows "valid (idle_with (\<lambda>a. a = None))
    (seq (cleanup_orphaned_containers env)
       (case startup_profile (e_catalog env) (load_persisted_profile doc) of
          Inl e \<Rightarrow> throw e
        | Inr p \<Rightarrow> bind (switch_profile env p False) (\<lambda>_. ret ())))
    (\<lambda>_. idle_with (\<lambda>a. a = None \<or> a = Some (restored_key doc))) (\<lambda>_. idle_with (\<lambda>a. a = None \<or> a = Some (restored_key doc)))"
proof -
  have cleanup: "valid (idle_with (\<lambda>a. a = None)) (cleanup_orphaned_containers env) (\<lambda>_. idle_with (\<lambda>a. a = None))
      (\<lambda>_. idle_with (\<lambda>a. a = None \<or> a = Some (restored_key doc)))"
    unfolding cleanup_orphaned_containers_def
    by (rule valid_conseq [OF idle_external [OF external_cleanup, where P = "\<lambda>a. a = None"]]) auto
  have switch: "valid (idle_with (\<lambda>a. a = None)) (switch_profile env p False)
      (\<lambda>_. idle_with (\<lambda>a. a = None \<or> a = Some (restored_key doc))) (\<lambda>_. idle_with (\<lambda>a. a = None \<or> a = Some (restored_key doc)))"
    if "startup_profile (e_catalog env) (load_persisted_profile doc) = Inr p" for p
    unfolding valid_def
  proof (intro allI impI)
    fix s :: "'a orch"
    assume s: "idle_with (\<lambda>a. a = None) s"
    obtain r s' where run: "switch_profile env p False s = (r, s')" by (cases "switch_profile env p False s")
    have "idle_with (\<lambda>a. a = None \<or> a = Some (restored_key doc)) s'"
      using switch_profile_control [OF _ run] s startup_profile_restored [of c doc p] that cat by (auto split: if_splits)
    then show "case switch_profile env p False s of
        (Inl e, s') \<Rightarrow> idle_with (\<lambda>a. a = None \<or> a = Some (restored_key doc)) s'
      | (Inr x, s') \<Rightarrow> idle_with (\<lambda>a. a = None \<or> a = Some (restored_key doc)) s'"
      by (simp add: run split: sum.split)
  qed
  show ?thesis
  proof (rule valid_bind [OF cleanup])
    show "valid (idle_with (\<lambda>a. a = None)) (case startup_profile (e_catalog env) (load_persisted_profile doc) of
          Inl e \<Rightarrow> throw e
        | Inr p \<Rightarrow> bind (switch_profile env p False) (\<lambda>_. ret ()))
       (\<lambda>_. idle_with (\<lambda>a. a = None \<or> a = Some (restored_key doc))) (\<lambda>_. idle_with (\<lambda>a. a = None \<or> a = Some (restored_key doc)))"
    proof (cases "startup_profile (e_catalog env) (load_persisted_profile doc)")
      case (Inl e)
      show ?thesis unfolding Inl sum.case by (rule valid_throw) simp
    next
      case (Inr p)
      show ?thesis unfolding Inr sum.case by (rule valid_bind [OF switch [OF Inr]]) (rule valid_ret, simp)
    qed
  qed
qed

text \<open>C20: what startup leaves behind.  Over either backend and whatever the state file holds, startup
  of the gateway ends with no swap flagged and with no active profile or one of its catalog; it
  raises nothing but cancellation, except for a \<open>TypeError\<close> if the persisted entry is a list or
  a dictionary.  If nothing was adopted, the active profile is none or the persisted one if it
  is known, else the default.\<close>

theorem startup_outcome:
  assumes "e_catalog env = gateway_catalog c"
    and "e_backend env = docker_backend cfg docker_sdk \<or> e_backend env = kubernetes_backend cfg show_exn k8s_sdk"
    and "os_active s = None" "\<not> os_swapping s" "startup env doc s = (r, s')"
  shows "\<not> os_swapping s' \<and>
    (\<forall>k. os_active s' = Some k \<longrightarrow> k \<in> {''deepseek'', ''qwen35'', ''qwen38''}) \<and>
    (r = Inr () \<or> r = Inl CancelledError \<or>
      r = Inl TypeError \<and> (\<exists>xs d. load_persisted_profile doc \<in> {JArr xs, JObj d} \<and> json_truthy (load_persisted_profile doc))) \<and>
    (fst (detect_and_adopt env s) = Inr None \<longrightarrow> os_active s' = None \<or> os_active s' = Some (restored_key doc))"
proof -
  obtain a s1 where detect: "detect_and_adopt env s = (a, s1)" by (cases "detect_and_adopt env s")
  have pre: "idle_with (\<lambda>a. a = None) s" using assms(3,4) by simp
  have keys: "dict_keys (PROFILES (e_catalog env)) = [''deepseek'', ''qwen35'', ''qwen38'']" using assms(1) by simp
  have raised: "r = Inr () \<or> r = Inl CancelledError \<or> (\<exists>e. r = Inl e \<and> startup_profile (e_catalog env) (load_persisted_profile doc) = Inl e)"
    using assms(2) docker.startup_result [OF _ assms(5)] kubernetes.startup_result [OF _ assms(5)] by blast
  have bad: "e = TypeError \<and> (\<exists>xs d. v \<in> {JArr xs, JObj d} \<and> json_truthy v)" if "startup_profile cat v = Inl e" for cat v e
    using that by (cases v) (auto simp: startup_profile_def Let_def split: if_splits)
  have left: "\<not> os_swapping s' \<and> (\<forall>k. os_active s' = Some k \<longrightarrow> k \<in> {''deepseek'', ''qwen35'', ''qwen38''}) \<and>
      (a = Inr None \<longrightarrow> os_active s' = None \<or> os_active s' = Some (restored_key doc))"
  proof (cases a)
    case (Inl e)
    then have "s' = s1" using assms(5) detect by (simp add: startup_def bind_def)
    then show ?thesis using validE [OF detect_active pre detect [unfolded Inl]] Inl by (simp add: keys)
  next
    case (Inr k)
    have idle: "idle_with (\<lambda>a. a = k \<and> (\<forall>key. k = Some key \<longrightarrow> key \<in> set (dict_keys (PROFILES (e_catalog env))))) s1"
      using validD [OF detect_active pre detect [unfolded Inr]] .
    show ?thesis
    proof (cases k)
      case (Some key)
      then have "or_empty k \<noteq> []" using idle by (auto simp: keys)
      then have "s' = s1" using assms(5) detect Inr by (simp add: startup_def bind_def ret_def)
      then show ?thesis using idle Inr Some by (simp add: keys)
    next
      case None
      have load: "seq (cleanup_orphaned_containers env)
         (case startup_profile (e_catalog env) (load_persisted_profile doc) of
            Inl e \<Rightarrow> throw e | Inr p \<Rightarrow> bind (switch_profile env p False) (\<lambda>_. ret ())) s1 = (r, s')"
        using assms(5) detect Inr None by (simp add: startup_def bind_def)
      have pre1: "idle_with (\<lambda>a. a = None) s1" using idle None by simp
      have "idle_with (\<lambda>a. a = None \<or> a = Some (restored_key doc)) s'"
      proof (cases r)
        case (Inl e)
        show ?thesis by (rule validE [OF load_active [OF assms(1)] pre1 load [unfolded Inl]])
      next
        case (Inr u)
        show ?thesis by (rule validD [OF load_active [OF assms(1)] pre1 load [unfolded Inr]])
      qed
      then show ?thesis using restored_key_known by fastforce
    qed
  qed
  show ?thesis using left raised bad detect by fastforce
qed

text \<open>A state file with a list in it, for the witness.\<close>

theorem startup_outcome_witness:
  "\<exists>s'. startup broken_gateway (Inr (JObj [(''active_profile'', JArr [JNull])])) (orch_init ()) = (Inl TypeError, s') \<and> \<not> os_swapping s'"
proof -
  have cat: "e_catalog broken_gateway = gateway_catalog ''vllm_node''"
    "e_backend broken_gateway = docker_backend default_settings empty_docker"
    "e_http_status broken_gateway = (\<lambda>url w. (Inr 503, 1, w))" "e_cfg broken_gateway = default_settings"
    "e_ssh broken_gateway = (\<lambda>argv w. (Inr (0, ''true'', []), 1, w))"
    by (simp_all add: broken_gateway_def sim_env_def)
  let ?doc = "Inr (JObj [(''active_profile'', JArr [JNull])])"
  have "fst (startup broken_gateway ?doc (orch_init ())) = Inl TypeError"
    by (simp add: startup_def detect_and_adopt_def check_vllm_health_def cleanup_orphaned_containers_def stop_spark_serve_def
        exec_shell_script_def exec_in_workload_def run_on_worker_def kill_all_ray_vllm_def find_ray_head_def docker_backend_def
        docker_exec_in_workload_def docker_list_workloads_def empty_docker_def ext_bind_def ext_ret_def
        startup_profile_def load_persisted_profile_def json_get_def cat EXEC_ENGINES_def upt_rec eff_simps Let_def)
  then obtain s' where run: "startup broken_gateway ?doc (orch_init ()) = (Inl TypeError, s')" by (metis prod.collapse)
  have init: "os_active (orch_init ()) = None" "\<not> os_swapping (orch_init ())" by (simp_all add: orch_init_def)
  from startup_outcome [OF cat(1) disjI1 [OF cat(2)] init run] run show ?thesis by blast
qed

section \<open>Status\<close>

record health_response =
  hr_ok :: bool
  hr_active_profile :: "profile_mode option"
  hr_vram :: vram_report
  hr_containers :: "(string, container_state) dict"
  hr_ray :: "ray_status option"

definition health :: "'w env \<Rightarrow> vram_report \<Rightarrow> 'w orch \<Rightarrow> health_response" where
  "health env latest s =
     (let ray = cached_ray_status s in
      \<lparr>hr_ok = (vr_healthy latest \<and> (case ray of None \<Rightarrow> True | Some r \<Rightarrow> rs_healthy r)),
       hr_active_profile = map_option vp_mode (active_vram_profile env s),
       hr_vram = latest, hr_containers = os_states s, hr_ray = ray\<rparr>)"

record swap_status_response =
  sw_swapping :: bool
  sw_elapsed_ms :: nat
  sw_remaining_ms :: int
  sw_queued_requests :: nat

definition swap_status :: "'w orch \<Rightarrow> 'r request_buffer \<Rightarrow> swap_status_response" where
  "swap_status s b = \<lparr>sw_swapping = os_swapping s, sw_elapsed_ms = swap_elapsed s,
     sw_remaining_ms = max 0 (5000 - int (swap_elapsed s)), sw_queued_requests = queue_size b\<rparr>"

record profile_detail =
  pf_key :: string
  pf_mode :: profile_mode
  pf_description :: string
  pf_total_vram_required_mb :: int
  pf_is_active :: bool
  pf_models :: "model_slot list"

text \<open>\<open>_build_profile_detail\<close>.\<close>

definition labels_by_model :: "vram_profile \<Rightarrow> (string, string list) dict" where
  "labels_by_model p = fold (\<lambda>(l, m) d. dict_set d (md_name m) (case dict_get d (md_name m) of None \<Rightarrow> [l] | Some ls \<Rightarrow> ls @ [l]))
     (vp_labels p) []"

definition build_profile_detail :: "'w orch \<Rightarrow> string \<Rightarrow> vram_profile \<Rightarrow> bool \<Rightarrow> profile_detail" where
  "build_profile_detail s key p is_active =
     (let labels = labels_by_model p;
          slot = (\<lambda>m. (to_slot m
             (if is_active then (case dict_get (os_states s) (md_container_name m) of Some st \<Rightarrow> st | None \<Rightarrow> STOPPED) else STOPPED))
             \<lparr>slot_label := py_join '', '' (sort (case dict_get labels (md_name m) of None \<Rightarrow> [] | Some ls \<Rightarrow> ls))\<rparr>)
      in \<lparr>pf_key = key, pf_mode = vp_mode p, pf_description = vp_description p,
          pf_total_vram_required_mb = vp_total_vram_required_mb p, pf_is_active = is_active,
          pf_models = map slot (all_models_of p)\<rparr>)"

definition profile_status :: "'w env \<Rightarrow> vram_report \<Rightarrow> 'w orch \<Rightarrow> profile_mode \<times> model_slot list \<times> vram_report" where
  "profile_status env latest s = (case active_vram_profile env s of
       Some p \<Rightarrow> (vp_mode p, pf_models (build_profile_detail s (or_empty (os_active s)) p True), latest)
     | None \<Rightarrow> (FOCUS, [], latest))"

definition list_profiles :: "'w env \<Rightarrow> 'w orch \<Rightarrow> string option \<times> profile_detail list" where
  "list_profiles env s = (os_active s,
     map (\<lambda>(key, p). build_profile_detail s key p (Some key = os_active s)) (PROFILES (e_catalog env)))"

definition active_profile_endpoint :: "'w env \<Rightarrow> 'w orch \<Rightarrow> exn + profile_detail" where
  "active_profile_endpoint env s =
     (if or_empty (os_active s) = [] then Inl (HTTPException 404 ''No active profile found'')
      else (case dict_get (PROFILES (e_catalog env)) (or_empty (os_active s)) of
          None \<Rightarrow> Inl (HTTPException 404 (''Active profile '' @ sq (or_empty (os_active s)) @ '' not in registry''))
        | Some p \<Rightarrow> Inr (build_profile_detail s (or_empty (os_active s)) p True)))"

section \<open>Administration\<close>

definition set_profile :: "'w env \<Rightarrow> (string list \<Rightarrow> string) \<Rightarrow> string \<Rightarrow> bool \<Rightarrow> ('w orch, profile_mode) eff" where
  "set_profile env show_keys name force =
     (case dict_get (PROFILES (e_catalog env)) name of
        None \<Rightarrow> throw (HTTPException 400
          (''Profile '' @ sq name @ '' not valid. Options: '' @ show_keys (dict_keys (PROFILES (e_catalog env)))))
      | Some p \<Rightarrow> bind (gets os_swapping) (\<lambda>swapping.
          if swapping then throw (HTTPException 409 ''A swap is already in progress'')
          else bind (switch_profile env p force) (\<lambda>ok.
            if ok then ret (vp_mode p) else throw (HTTPException 500 ''Swap failed''))))"

definition stop_container_endpoint :: "'w env \<Rightarrow> string \<Rightarrow> ('w orch, string \<times> string) eff" where
  "stop_container_endpoint env name = seq (stop_container env name) (ret (''stopped'', name))"

definition remove_container_endpoint :: "'w env \<Rightarrow> string \<Rightarrow> ('w orch, string \<times> string) eff" where
  "remove_container_endpoint env name = seq (remove_container env name) (ret (''removed'', name))"

section \<open>The model listing\<close>

record model_entry =
  me_id :: string
  me_engine :: string
  me_vram_mb :: int
  me_quantization :: string
  me_alias_for :: "string option"

definition model_entry_of :: "string \<Rightarrow> model_definition \<Rightarrow> string option \<Rightarrow> model_entry" where
  "model_entry_of i m alias = \<lparr>me_id = i, me_engine = md_engine m, me_vram_mb = md_vram_required_mb m,
     me_quantization = md_quantization m, me_alias_for = alias\<rparr>"

definition list_models :: "'w env \<Rightarrow> 'w orch \<Rightarrow> model_entry list" where
  "list_models env s =
     map (\<lambda>m. model_entry_of (md_name m) m None) (ALL_MODELS (e_catalog env)) @
     (case active_vram_profile env s of None \<Rightarrow> []
      | Some p \<Rightarrow> map (\<lambda>(l, m). model_entry_of l m (Some (md_name m))) (vp_labels p))"

text \<open>C40: what the listing offers can be asked for.  A request whose model is the id of an entry is
  routed to the model the entry names: the one of that name, or the one the alias stands for, and
  an alias is served by the active profile, without a swap.\<close>

theorem listed_models_route:
  assumes "e_catalog env = gateway_catalog c" "e \<in> set (list_models env s)" "req_model r = me_id e"
  shows "\<exists>d. route (e_catalog env) r (active_vram_profile env s) = Inr d \<and>
    md_name (rd_target_model d) = (case me_alias_for e of None \<Rightarrow> me_id e | Some n \<Rightarrow> n) \<and>
    (me_alias_for e \<noteq> None \<longrightarrow> active_vram_profile env s = Some (rd_profile d))"
proof -
  let ?act = "active_vram_profile env s"
  have act: "a \<in> set (map snd (PROFILES (gateway_catalog c)))" if "?act = Some a" for a
    using that assms(1) by (auto simp: active_vram_profile_def split: option.splits if_splits)
  have "e \<in> (\<lambda>m. model_entry_of (md_name m) m None) ` set (ALL_MODELS (gateway_catalog c)) \<or>
      (\<exists>p. ?act = Some p \<and> (\<exists>(l, m) \<in> set (vp_labels p). e = model_entry_of l m (Some (md_name m))))"
    using assms(2) unfolding list_models_def assms(1) set_append set_map by (cases "?act") auto
  then consider
      (model) m where "m \<in> set (ALL_MODELS (gateway_catalog c))" "e = model_entry_of (md_name m) m None"
    | (label) p l m where "?act = Some p" "(l, m) \<in> set (vp_labels p)" "e = model_entry_of l m (Some (md_name m))"
    by blast
  then show ?thesis
  proof cases
    case model
    have "py_strip (md_name m) = md_name m \<and> py_lower (md_name m) = md_name m" using model(1) by (auto simp: str_eval)
    then have "py_lower (py_strip (req_model r)) = md_name m" using model(2) assms(3) by (simp add: model_entry_of_def)
    from route_catalog_model [OF model(1) _ this, of ?act] act model(2) show ?thesis
      by (auto simp: assms(1) model_entry_of_def)
  next
    case label
    have p: "p \<in> {PROFILE_DEEPSEEK c, PROFILE_QWEN35 c, PROFILE_QWEN38 c}" using act [OF label(1)] by auto
    have m: "dict_get (vp_labels p) l = Some m" using p label(2) by (auto simp: profile_defs)
    have l: "py_lower (py_strip l) = l \<and> l \<noteq> [] \<and> l \<noteq> ''auto''" using p label(2) by (auto simp: profile_defs str_eval)
    have "route (gateway_catalog c) r ?act =
        Inr \<lparr>rd_media_type = TEXT, rd_profile = p, rd_target_model = m, rd_requires_swap = False\<rparr>"
      by (rule route_by_label [where l = l]) (use l m label assms(3) in \<open>simp_all add: model_entry_of_def\<close>)
    then show ?thesis using label by (simp add: assms(1) model_entry_of_def)
  qed
qed

theorem listed_models_route_witness:
  "\<exists>d. route (gateway_catalog ''vllm_node'') (auto_request\<lparr>req_model := ''code''\<rparr>) (Some (PROFILE_DEEPSEEK ''vllm_node'')) = Inr d \<and>
     md_name (rd_target_model d) = ''deepseek-v4-flash''"
proof -
  let ?e = "model_entry_of ''code'' (DEEPSEEK_V4_FLASH ''vllm_node'') (Some ''deepseek-v4-flash'')"
  have act: "active_vram_profile lone_gateway serving_deepseek = Some (PROFILE_DEEPSEEK ''vllm_node'')"
    by (simp add: active_vram_profile_def serving_deepseek_def)
  have "?e \<in> set (list_models lone_gateway serving_deepseek)"
    unfolding list_models_def act by (simp add: profile_defs)
  from listed_models_route [OF _ this, of "''vllm_node''" "auto_request\<lparr>req_model := ''code''\<rparr>"]
  show ?thesis by (auto simp: act model_entry_of_def)
qed

text \<open>The labels shown for a model are exactly those of its name.\<close>

lemma labels_by_model_get:
  "dict_get (labels_by_model p) n =
     (let ls = map fst (filter (\<lambda>(l, m). md_name m = n) (vp_labels p)) in if ls = [] then None else Some ls)"
proof -
  have "dict_get (fold (\<lambda>(l, m) d. dict_set d (md_name m) (case dict_get d (md_name m) of None \<Rightarrow> [l] | Some ls \<Rightarrow> ls @ [l])) xs d) n =
      (let ls = map fst (filter (\<lambda>(l, m). md_name m = n) xs) in
       case dict_get d n of None \<Rightarrow> if ls = [] then None else Some ls | Some ls' \<Rightarrow> Some (ls' @ ls))"
    for xs :: "(string \<times> model_definition) list" and d
  proof (induction xs arbitrary: d)
    case (Cons x xs)
    obtain l m where "x = (l, m)" by (cases x)
    then show ?case by (cases "md_name m = n") (simp_all add: Cons.IH Let_def split: option.split)
  qed (simp split: option.split)
  then show ?thesis by (simp add: labels_by_model_def)
qed

section \<open>The lease of a chat request\<close>

text \<open>\<open>admitted\<close> turns the exceptions of \<open>acquire\<close> into answers; \<open>until_disconnect\<close> gives the result of
  the work if it is done, and 499 if the client left first.\<close>

definition admission_error :: "exn \<Rightarrow> exn" where
  "admission_error e = (if e = QueueFull then HTTPException 503 ''Inference queue is full''
     else if e = TimeoutError then HTTPException 503 ''Inference queue wait timed out'' else e)"

definition until_disconnect :: "bool \<Rightarrow> exn + 'a \<Rightarrow> exn + 'a" where
  "until_disconnect work_done r = (if work_done then r else Inl (HTTPException 499 ''Client disconnected''))"

text \<open>The end of \<open>chat_completions\<close>: the lease goes with a streaming response, otherwise the \<open>finally\<close>
  clause releases it; a response releases its lease when it has been sent, however that ends.\<close>

definition finish_chat :: "nat option \<Rightarrow> exn + response \<Rightarrow> admission \<Rightarrow> nat option \<times> admission" where
  "finish_chat lease r q = (case lease of None \<Rightarrow> (None, q)
     | Some l \<Rightarrow> (case r of Inr (EventStream _ _) \<Rightarrow> (Some l, q) | _ \<Rightarrow> (None, lease_release l q)))"

definition finish_stream :: "nat option \<Rightarrow> admission \<Rightarrow> admission" where
  "finish_stream lease q = (case lease of None \<Rightarrow> q | Some l \<Rightarrow> lease_release l q)"

lemma lease_returned:
  assumes "l < length (leases q)" "finish_chat (Some l) (until_disconnect work_done r) q = (kept, q1)"
  shows "leases (finish_stream kept q1) ! l \<and> (kept \<noteq> None \<longrightarrow> (\<exists>url p. r = Inr (EventStream url p)) \<and> work_done)"
  using assms lease_released [OF assms(1)]
  by (auto simp: finish_chat_def finish_stream_def until_disconnect_def split: sum.splits response.splits if_splits)

section \<open>The access log\<close>

text \<open>\<open>access_log\<close>: the context installed for the request, the log lines with their level and status,
  and what is passed on; \<open>r\<close> is the result of the inner application.  Identification happens
  outside the \<open>try\<close>.\<close>

definition QUIET_PATHS :: "string list" where
  "QUIET_PATHS = [''/health'', ''/status/vram'', ''/status/swap'', ''/status/profile'']"

datatype log_level = DEBUG | INFO | WARNING | ERROR_LEVEL

definition access_log ::
    "(string \<Rightarrow> string) \<Rightarrow> string \<Rightarrow> (string, string) dict \<Rightarrow> string \<Rightarrow> (string \<Rightarrow> string option) \<Rightarrow> string option \<Rightarrow>
     string \<Rightarrow> exn + nat \<Rightarrow> request_ctx option \<times> (log_level \<times> nat option) list \<times> (exn + nat \<times> string)" where
  "access_log sha8 agent_header keys rid h peer path r =
     (let ip = client_ip h peer in
      case identify sha8 agent_header keys h ip of
        Inl e \<Rightarrow> (None, [], Inl e)
      | Inr label \<Rightarrow> (Some (new_request_context rid label ip),
          (case r of
             Inl e \<Rightarrow> (if e = CancelledError then [(WARNING, None)] else [(ERROR_LEVEL, Some 500)], Inl e)
           | Inr status \<Rightarrow> ([(if path \<in> set QUIET_PATHS then DEBUG else INFO, Some status)], Inr (status, rid)))))"

lemma access_log_once:
  "access_log sha8 agent_header keys rid h peer path r = (ctx, ls, res) \<Longrightarrow> ctx \<noteq> None \<Longrightarrow> length ls = 1"
  by (auto simp: access_log_def Let_def split: sum.splits if_splits)

lemma access_log_missing:
  "access_log sha8 ''x-agent-id'' [] rid ([''x-api-key'' \<mapsto> ''k'', ''user-agent'' \<mapsto> ''/1.0'']) peer path r = (None, [], Inl IndexError)"
  by (simp add: access_log_def identify_def explicit_name_def bearer_token_def product_token_def str_eval Let_def)

section \<open>Buffered requests\<close>

text \<open>\<open>_drain_buffered_requests\<close> with the requests drained: each is routed and dispatched, and its future
  settled with the result or the exception; a cancellation ends the loop.  \<open>dispatch\<close> is the
  result of the backend for a decision.  Nothing in the gateway enqueues: \<open>handle_during_swap\<close>,
  the only caller of \<open>enqueue\<close>, is itself never called.\<close>

fun drain_buffered ::
    "catalog \<Rightarrow> vram_profile option \<Rightarrow> (routing_decision \<Rightarrow> agent_request \<Rightarrow> exn + 'r) \<Rightarrow> buffered_request list \<Rightarrow>
     'r request_buffer \<Rightarrow> exn option \<times> 'r request_buffer" where
  "drain_buffered cat act dispatch [] b = (None, b)"
| "drain_buffered cat act dispatch (item # items) b =
     (case and_then (route cat (br_request item) act) (\<lambda>d. dispatch d (br_request item)) of
        Inr v \<Rightarrow> drain_buffered cat act dispatch items (resolve item v b)
      | Inl e \<Rightarrow> if e = CancelledError then (Some e, b)
          else drain_buffered cat act dispatch items
            (b\<lparr>rb_futures := settle_future (br_future item) (BExc e) (rb_futures b)\<rparr>))"

definition handle_during_swap :: "bool \<Rightarrow> exn + json \<Rightarrow> exn + response" where
  "handle_during_swap long_polling waited =
     (if \<not> long_polling then Inr (HttpError 503 (JStr ''Model swap in progress'') True)
      else (case waited of
          Inr (JObj body) \<Rightarrow> (case dict_get body ''error'' of
              Some err \<Rightarrow> backend_error err | None \<Rightarrow> Inr (Wrapped (JObj body) None))
        | Inr v \<Rightarrow> Inr (Wrapped v None)
        | Inl e \<Rightarrow> if e = BufferOverflowError then Inr (HttpError 503 (JStr ''Queue full - swap in progress'') True)
            else if e = TimeoutError then Inr (HttpError 503 (JStr ''Long polling timeout'') True)
            else Inl e))"

lemma settled_stays:
  "f < length (rb_futures b) \<Longrightarrow> rb_futures b ! f \<noteq> BPending \<Longrightarrow> drain_buffered cat act dispatch items b = (x, b') \<Longrightarrow>
   length (rb_futures b') = length (rb_futures b) \<and> rb_futures b' ! f \<noteq> BPending"
proof (induction items arbitrary: b)
  case (Cons item items)
  show ?case
  proof (cases "and_then (route cat (br_request item) act) (\<lambda>d. dispatch d (br_request item))")
    case (Inl e)
    then show ?thesis using Cons.prems Cons.IH [of "b\<lparr>rb_futures := settle_future (br_future item) (BExc e) (rb_futures b)\<rparr>"]
      by (auto simp: settle_nth split: if_splits)
  next
    case (Inr v)
    then show ?thesis using Cons.prems Cons.IH [of "resolve item v b"]
      by (auto simp: resolve_def settle_nth split: if_splits)
  qed
qed simp

text \<open>A drain that is not cancelled leaves no drained request pending.\<close>

lemma drain_buffered_settles:
  "drain_buffered cat act dispatch items b = (None, b') \<Longrightarrow> \<forall>i \<in> set items. br_future i < length (rb_futures b) \<Longrightarrow>
   \<forall>i \<in> set items. rb_futures b' ! br_future i \<noteq> BPending"
proof (induction items arbitrary: b)
  case (Cons item items)
  obtain b1 where b1: "drain_buffered cat act dispatch items b1 = (None, b')" "length (rb_futures b1) = length (rb_futures b)"
      "rb_futures b1 ! br_future item \<noteq> BPending"
  proof (cases "and_then (route cat (br_request item) act) (\<lambda>d. dispatch d (br_request item))")
    case (Inl e)
    then show ?thesis using Cons.prems
      by (intro that [of "b\<lparr>rb_futures := settle_future (br_future item) (BExc e) (rb_futures b)\<rparr>"])
         (auto simp: settle_nth split: if_splits)
  next
    case (Inr v)
    then show ?thesis using Cons.prems
      by (intro that [of "resolve item v b"]) (auto simp: resolve_def settle_nth)
  qed
  have "\<forall>i \<in> set items. rb_futures b' ! br_future i \<noteq> BPending"
    by (rule Cons.IH [OF b1(1)]) (simp add: b1(2) Cons.prems(2))
  moreover have "rb_futures b' ! br_future item \<noteq> BPending"
    by (rule settled_stays [OF _ b1(3,1), THEN conjunct2]) (simp add: b1(2) Cons.prems(2))
  ultimately show ?case by simp
qed simp

end
