(* ===== verification/ThermalGuard.thy ===== *)
theory ThermalGuard
  imports Prelude
begin

text \<open>
  \<open>ops/thermal_guard.py\<close>: the governor that lowers the clock ceiling of the GPU when it gets hot and
  raises it again when it has been cold for a while.  One iteration of the loop is \<open>guard_step\<close>;
  a run is the list of its iterations, each with the monotonic clock and the reading.  The result
  of a subprocess is a parameter.  A temperature is a decimal number; exponents, infinities and
  \<open>nan\<close>, which \<open>float()\<close> also accepts and \<open>nvidia-smi\<close> does not print, are not modelled.
\<close>

record guard_cfg =
  WARN_C :: rat
  DANGER_C :: rat
  COOL_C :: rat
  STEPS :: "int list"
  MIN_CLOCK :: int
  RECOVER_S :: rat

definition default_guard :: guard_cfg where
  "default_guard = \<lparr>WARN_C = 80, DANGER_C = 83, COOL_C = 72, STEPS = [3003, 2400, 2100, 1900, 1700, 1500],
     MIN_CLOCK = 210, RECOVER_S = 120\<rparr>"

section \<open>Subprocesses\<close>

text \<open>\<open>None\<close> is a timeout or an \<open>OSError\<close>.\<close>

record completed =
  cp_returncode :: int
  cp_stdout :: string
  cp_stderr :: string

definition parse_decimal :: "string \<Rightarrow> rat option" where
  "parse_decimal s =
     (let (sign, body) = (case s of c # cs \<Rightarrow> if c = CHR ''-'' then (- 1, cs) else if c = CHR ''+'' then (1, cs) else (1, s)
                          | [] \<Rightarrow> (1, []));
          whole = takeWhile (\<lambda>c. c \<noteq> CHR ''.'') body;
          frac = drop 1 (dropWhile (\<lambda>c. c \<noteq> CHR ''.'') body)
      in if list_all is_digit (whole @ frac) \<and> whole @ frac \<noteq> []
         then Some (sign * of_nat (fold (\<lambda>c a. 10 * a + digit_val c) (whole @ frac) 0) / 10 ^ length frac)
         else None)"

text \<open>\<open>gpu_temp\<close>: \<open>float(out.stdout.strip().splitlines()[0])\<close>, for line feeds.\<close>

definition gpu_temp :: "completed option \<Rightarrow> rat option" where
  "gpu_temp out = (case out of None \<Rightarrow> None
     | Some p \<Rightarrow> if cp_returncode p \<noteq> 0 \<or> py_strip (cp_stdout p) = [] then None
         else parse_decimal (py_strip (hd (split_char (CHR 0x0A) (py_strip (cp_stdout p))))))"

text \<open>\<open>apply_cap\<close>: the command, and whether it worked.\<close>

definition cap_command :: "guard_cfg \<Rightarrow> int \<Rightarrow> string list" where
  "cap_command cfg mhz = (if mhz \<ge> hd (STEPS cfg) then [''nvidia-smi'', ''-rgc'']
     else [''nvidia-smi'', ''-lgc'', show_int (MIN_CLOCK cfg) @ '','' @ show_int mhz])"

definition apply_cap :: "completed option \<Rightarrow> bool" where
  "apply_cap out = (case out of None \<Rightarrow> False | Some p \<Rightarrow> cp_returncode p = 0)"

section \<open>The loop\<close>

record governor =
  gv_idx :: nat
  gv_cool_since :: "rat option"

text \<open>What an iteration does to the ceiling.\<close>

datatype move = Stay | Lower | Raise

definition last_step :: "guard_cfg \<Rightarrow> nat" where
  "last_step cfg = length (STEPS cfg) - 1"

definition guard_init :: governor where
  "guard_init = \<lparr>gv_idx = 0, gv_cool_since = None\<rparr>"

definition guard_step :: "guard_cfg \<Rightarrow> rat \<Rightarrow> rat option \<Rightarrow> governor \<Rightarrow> move \<times> governor" where
  "guard_step cfg now reading gv = (case reading of
       None \<Rightarrow> (Stay, gv)
     | Some t \<Rightarrow>
         if t \<ge> DANGER_C cfg \<and> gv_idx gv < last_step cfg
         then (Lower, \<lparr>gv_idx = min (gv_idx gv + 2) (last_step cfg), gv_cool_since = None\<rparr>)
         else if t \<ge> WARN_C cfg \<and> gv_idx gv < last_step cfg
         then (Lower, \<lparr>gv_idx = gv_idx gv + 1, gv_cool_since = None\<rparr>)
         else if t \<le> COOL_C cfg \<and> gv_idx gv > 0
         then (case gv_cool_since gv of
             None \<Rightarrow> (Stay, gv\<lparr>gv_cool_since := Some now\<rparr>)
           | Some c \<Rightarrow> if now - c \<ge> RECOVER_S cfg then (Raise, \<lparr>gv_idx = gv_idx gv - 1, gv_cool_since = None\<rparr>)
                       else (Stay, gv))
         else (Stay, gv\<lparr>gv_cool_since := None\<rparr>))"

fun guard_run :: "guard_cfg \<Rightarrow> (rat \<times> rat option) list \<Rightarrow> governor \<Rightarrow> (rat \<times> move) list \<times> governor" where
  "guard_run cfg [] gv = ([], gv)"
| "guard_run cfg ((now, reading) # rs) gv =
     (case guard_step cfg now reading gv of (m, gv') \<Rightarrow>
        (case guard_run cfg rs gv' of (ms, gv'') \<Rightarrow> ((now, m) # ms, gv'')))"

text \<open>The commands a run issues: the first ceiling at the start, then one for each move.\<close>

fun guard_caps :: "guard_cfg \<Rightarrow> (rat \<times> rat option) list \<Rightarrow> governor \<Rightarrow> int list" where
  "guard_caps cfg [] gv = []"
| "guard_caps cfg ((now, reading) # rs) gv =
     (case guard_step cfg now reading gv of (m, gv') \<Rightarrow>
        (if m = Stay then [] else [STEPS cfg ! gv_idx gv']) @ guard_caps cfg rs gv')"

definition guard_main :: "guard_cfg \<Rightarrow> (rat \<times> rat option) list \<Rightarrow> string list list" where
  "guard_main cfg rs = map (cap_command cfg) (STEPS cfg ! 0 # guard_caps cfg rs guard_init)"

section \<open>Invariants\<close>

lemma guard_step_idx: "gv_idx gv \<le> last_step cfg \<Longrightarrow> gv_idx (snd (guard_step cfg now r gv)) \<le> last_step cfg"
  by (auto simp: guard_step_def split: option.splits)

lemma guard_run_idx: "gv_idx gv \<le> last_step cfg \<Longrightarrow> gv_idx (snd (guard_run cfg rs gv)) \<le> last_step cfg"
proof (induction cfg rs gv rule: guard_run.induct)
  case (2 cfg now reading rs gv)
  then show ?case
    using guard_step_idx [of gv cfg now reading] by (auto split: prod.splits)
qed simp

text \<open>The ceiling in force is the one of the current step.\<close>

lemma guard_caps_last:
  "last (STEPS cfg ! gv_idx gv # guard_caps cfg rs gv) = STEPS cfg ! gv_idx (snd (guard_run cfg rs gv))"
proof (induction cfg rs gv rule: guard_run.induct)
  case (2 cfg now reading rs gv)
  obtain m gv' where step: "guard_step cfg now reading gv = (m, gv')" by (cases "guard_step cfg now reading gv")
  have "m = Stay \<Longrightarrow> gv_idx gv' = gv_idx gv"
    using step by (auto simp: guard_step_def split: option.splits if_splits)
  then show ?case using 2 [OF step [symmetric]] step by (auto split: prod.splits if_splits)
qed simp

section \<open>Hysteresis\<close>

definition raises :: "(rat \<times> move) list \<Rightarrow> rat list" where
  "raises ms = map fst (filter (\<lambda>p. snd p = Raise) ms)"

lemma raises_simps [simp]: "raises [] = []" "raises ((now, m) # ms) = (if m = Raise then [now] else []) @ raises ms"
  by (simp_all add: raises_def)

text \<open>Whatever is raised later was preceded by \<open>RECOVER_S\<close> of cold readings, counted from the start
  of the cold spell the state remembers, or from a later one.\<close>

lemma raises_after:
  assumes "sorted (lo # map fst rs)" "\<And>c. gv_cool_since gv = Some c \<Longrightarrow> lo \<le> c"
  shows "(\<forall>x \<in> set (raises (fst (guard_run cfg rs gv))). lo + RECOVER_S cfg \<le> x) \<and>
    sorted_wrt (\<lambda>a b. a + RECOVER_S cfg \<le> b) (raises (fst (guard_run cfg rs gv)))"
  using assms
proof (induction cfg rs gv arbitrary: lo rule: guard_run.induct)
  case (1 cfg gv)
  then show ?case by simp
next
  case (2 cfg now reading rs gv)
  obtain m gv' where step: "guard_step cfg now reading gv = (m, gv')" by (cases "guard_step cfg now reading gv")
  have sorted: "lo \<le> now" "sorted (now # map fst rs)" "sorted (lo # map fst rs)" using 2(2) by auto
  show ?case
  proof (cases "m = Raise")
    case True
    then obtain c where c: "gv_cool_since gv = Some c" "RECOVER_S cfg \<le> now - c" "gv_cool_since gv' = None"
      using step by (auto simp: guard_step_def split: option.splits if_splits)
    have "lo \<le> c" using 2(3) c(1) by blast
    then have now: "lo + RECOVER_S cfg \<le> now" using c(2) by simp
    have rest: "(\<forall>x \<in> set (raises (fst (guard_run cfg rs gv'))). now + RECOVER_S cfg \<le> x) \<and>
        sorted_wrt (\<lambda>a b. a + RECOVER_S cfg \<le> b) (raises (fst (guard_run cfg rs gv')))"
      using 2(1) [OF step [symmetric] sorted(2)] c(3) by simp
    have "\<forall>x \<in> set (raises (fst (guard_run cfg rs gv'))). lo + RECOVER_S cfg \<le> x"
      using rest sorted(1) by force
    then show ?thesis using rest now step True by (auto split: prod.splits)
  next
    case False
    have "lo \<le> c" if "gv_cool_since gv' = Some c" for c
      using that step False sorted(1) 2(3) by (auto simp: guard_step_def split: option.splits if_splits)
    then have "(\<forall>x \<in> set (raises (fst (guard_run cfg rs gv'))). lo + RECOVER_S cfg \<le> x) \<and>
        sorted_wrt (\<lambda>a b. a + RECOVER_S cfg \<le> b) (raises (fst (guard_run cfg rs gv')))"
      using 2(1) [OF step [symmetric] sorted(3)] by blast
    then show ?thesis using step False by (auto split: prod.splits)
  qed
qed

text \<open>C35: the governor does not oscillate.  On a clock that does not run backwards the ceiling is never
  raised within \<open>RECOVER_S\<close> of the start or of the raise before, whatever the readings are.\<close>

theorem guard_no_oscillation:
  assumes "sorted (start # map fst rs)"
  shows "sorted_wrt (\<lambda>a b. a + RECOVER_S cfg \<le> b) (start # raises (fst (guard_run cfg rs guard_init)))"
  using raises_after [OF assms, of guard_init cfg] by (simp add: guard_init_def)

theorem guard_no_oscillation_witness:
  "raises (fst (guard_run default_guard [(0, Some 81), (2, Some 70), (60, Some 71), (122, Some 70), (124, Some 70)] guard_init)) = [122] \<and>
   sorted_wrt (\<lambda>a b. a + RECOVER_S default_guard \<le> b) [0, 122]"
proof -
  let ?rs = "[(0, Some 81), (2, Some 70), (60, Some 71), (122, Some 70), (124, Some 70)] :: (rat \<times> rat option) list"
  have run: "raises (fst (guard_run default_guard ?rs guard_init)) = [122]"
    by (simp add: guard_step_def default_guard_def guard_init_def last_step_def)
  have "sorted (0 # map fst ?rs)" by simp
  from guard_no_oscillation [OF this, of default_guard] run show ?thesis by simp
qed

section \<open>Response\<close>

lemma step_hot:
  assumes "gv_idx gv \<le> last_step cfg" "hot \<in> {WARN_C cfg, DANGER_C cfg}" "COOL_C cfg < hot" "hot \<le> t"
  shows "min (gv_idx gv + (if hot = DANGER_C cfg then 2 else 1)) (last_step cfg) \<le> gv_idx (snd (guard_step cfg now (Some t) gv))"
  using assms by (auto simp: guard_step_def split: option.splits)

text \<open>C34: the governor reacts at once.  After \<open>k\<close> successive readings at or above the warning
  temperature, whatever failed readings come between them, the ceiling is at least \<open>k\<close> steps lower
  or at the lowest; if they are all at or above the danger temperature, \<open>2 * k\<close> steps.\<close>

theorem guard_response:
  assumes "gv_idx gv \<le> last_step cfg" "hot \<in> {WARN_C cfg, DANGER_C cfg}" "COOL_C cfg < hot"
    and "\<forall>t \<in> set (List.map_filter snd rs). hot \<le> t"
  shows "min (gv_idx gv + (if hot = DANGER_C cfg then 2 else 1) * length (List.map_filter snd rs)) (last_step cfg)
    \<le> gv_idx (snd (guard_run cfg rs gv))"
  using assms(1,4)
proof (induction rs arbitrary: gv)
  case Nil
  then show ?case by (simp add: List.map_filter_def)
next
  case (Cons x rs)
  obtain now reading where x: "x = (now, reading)" by (cases x)
  obtain m gv' where step: "guard_step cfg now reading gv = (m, gv')" by (cases "guard_step cfg now reading gv")
  have run: "snd (guard_run cfg (x # rs) gv) = snd (guard_run cfg rs gv')" by (simp add: x step split: prod.split)
  have idx: "gv_idx gv' \<le> last_step cfg" using guard_step_idx [OF Cons.prems(1), of now reading] step by simp
  show ?case
  proof (cases reading)
    case None
    then have "gv' = gv" using step by (simp add: guard_step_def)
    then show ?thesis using Cons.IH [OF idx] Cons.prems(2) run by (simp add: x None)
  next
    case (Some t)
    let ?k = "if hot = DANGER_C cfg then 2 else 1 :: nat"
    have t: "hot \<le> t" "\<forall>t \<in> set (List.map_filter snd rs). hot \<le> t" using Cons.prems(2) by (simp_all add: x Some)
    have "min (gv_idx gv + ?k) (last_step cfg) \<le> gv_idx gv'"
      using step_hot [OF Cons.prems(1) assms(2,3) t(1), of now] step Some by simp
    moreover have "min (gv_idx gv' + ?k * length (List.map_filter snd rs)) (last_step cfg) \<le> gv_idx (snd (guard_run cfg rs gv'))"
      by (rule Cons.IH [OF idx t(2)])
    ultimately show ?thesis unfolding run by (simp add: x Some)
  qed
qed

theorem guard_response_witness:
  "5 \<le> gv_idx (snd (guard_run default_guard [(0, Some 84), (2, None), (4, Some 86), (6, Some 83)] guard_init))"
proof -
  have 1: "gv_idx guard_init \<le> last_step default_guard" by (simp add: guard_init_def)
  have 2: "83 \<in> {WARN_C default_guard, DANGER_C default_guard}" "COOL_C default_guard < 83" by (simp_all add: default_guard_def)
  have "\<forall>t \<in> set (List.map_filter snd [(0 :: rat, Some 84), (2, None), (4, Some 86), (6, Some (83 :: rat))]). 83 \<le> t" by simp
  from guard_response [OF 1 2 this] show ?thesis by (simp add: guard_init_def default_guard_def last_step_def)
qed

end
