(* ===== verification/PatchGemma.thy ===== *)
theory PatchGemma
  imports Prelude
begin

text \<open>
  \<open>ray-cluster/patch_gemma4.py\<close>: the script that adds a model to an installed package by editing its
  files.  The file system is a map from paths to texts; a step of the script returns the exception
  it ends with, if any, and the file system.  What is printed is left out, and of an error only the
  label is kept.
\<close>

type_synonym files = "string \<Rightarrow> string option"
type_synonym step = "files \<Rightarrow> exn option \<times> files"

abbreviation nl :: string where "nl \<equiv> [CHR 0x0A]"

text \<open>\<open>s.replace(old, new, 1)\<close> and \<open>s.replace(old, new)\<close>.\<close>

definition replace_first :: "string \<Rightarrow> string \<Rightarrow> string \<Rightarrow> string" where
  "replace_first old new s = (case split_once old s of None \<Rightarrow> s | Some (a, b) \<Rightarrow> a @ new @ b)"

function replace_all :: "string \<Rightarrow> string \<Rightarrow> string \<Rightarrow> string" where
  "replace_all old new s =
     (if old = [] then new @ concat (map (\<lambda>c. c # new) s)
      else case split_once old s of None \<Rightarrow> s | Some (a, b) \<Rightarrow> a @ new @ replace_all old new b)"
  by pat_completeness auto
termination
proof (relation "measure (\<lambda>(old, new, s). length s)")
  fix old new s a b :: string and x
  assume "old \<noteq> []" "split_once old s = Some x" "(a, b) = x"
  then have "s = a @ old @ b" using split_once_Some by metis
  then show "((old, new, b), old, new, s) \<in> measure (\<lambda>(old, new, s). length s)" using \<open>old \<noteq> []\<close> by simp
qed simp

declare replace_all.simps [simp del]

section \<open>The steps\<close>

text \<open>Reading a file that does not exist raises.\<close>

definition with_file :: "string \<Rightarrow> (string \<Rightarrow> step) \<Rightarrow> step" where
  "with_file path f fs = (case fs path of None \<Rightarrow> (Some (OSError ''FileNotFoundError''), fs) | Some content \<Rightarrow> f content fs)"

definition patch_after :: "string \<Rightarrow> string \<Rightarrow> string \<Rightarrow> string \<Rightarrow> string \<Rightarrow> step" where
  "patch_after path marker insertion unique_check label = with_file path (\<lambda>content fs.
     if str_in unique_check content then (None, fs)
     else if \<not> str_in marker content then (Some (RuntimeError label), fs)
     else (None, fs(path \<mapsto> replace_first marker (marker @ insertion) content)))"

definition patch_before :: "string \<Rightarrow> string \<Rightarrow> string \<Rightarrow> string \<Rightarrow> string \<Rightarrow> step" where
  "patch_before path marker insertion unique_check label = with_file path (\<lambda>content fs.
     if str_in unique_check content then (None, fs)
     else if \<not> str_in marker content then (Some (RuntimeError label), fs)
     else (None, fs(path \<mapsto> replace_first marker (insertion @ marker) content)))"

definition registry_path :: "string \<Rightarrow> string" where
  "registry_path vllm = vllm @ ''/model_executor/models/registry.py''"

definition rotary_path :: "string \<Rightarrow> string" where
  "rotary_path vllm = vllm @ ''/model_executor/layers/rotary_embedding/__init__.py''"

definition tools_path :: "string \<Rightarrow> string" where
  "tools_path vllm = vllm @ ''/tool_parsers/__init__.py''"

definition tool_parser_path :: "string \<Rightarrow> string" where
  "tool_parser_path vllm = vllm @ ''/tool_parsers/gemma4_tool_parser.py''"

definition reasoning_path :: "string \<Rightarrow> string" where
  "reasoning_path vllm = vllm @ ''/reasoning/__init__.py''"

definition src_path :: string where
  "src_path = ''/tmp/vllm_src/vllm/transformers_utils/model_arch_config_convertor.py''"

definition dest_path :: "string \<Rightarrow> string" where
  "dest_path vllm = vllm @ ''/transformers_utils/model_arch_config_convertor.py''"

definition patch_registry :: "string \<Rightarrow> step" where
  "patch_registry vllm = patch_after (registry_path vllm)
     ''\"Gemma3ForCausalLM\": (\"gemma3\", \"Gemma3ForCausalLM\"),''
     (nl @ ''    \"Gemma4ForCausalLM\": (\"gemma4\", \"Gemma4ForCausalLM\"),'')
     ''\"Gemma4ForCausalLM\"'' ''registry.py (_MODELS)''"

definition patch_multimodal :: "string \<Rightarrow> step" where
  "patch_multimodal vllm = patch_after (registry_path vllm)
     ''\"Gemma3ForConditionalGeneration\": (\"gemma3_mm\", \"Gemma3ForConditionalGeneration\"),  # noqa: E501''
     (nl @ ''    \"Gemma4ForConditionalGeneration\": (\"gemma4_mm\", \"Gemma4ForConditionalGeneration\"),  # noqa: E501'')
     ''\"Gemma4ForConditionalGeneration\"'' ''registry.py (_MULTIMODAL_MODELS)''"

definition patch_rotary :: "string \<Rightarrow> step" where
  "patch_rotary vllm = patch_after (rotary_path vllm) ''from .base import RotaryEmbedding''
     (nl @ ''from .gemma4_rope import Gemma4RotaryEmbedding'') ''gemma4_rope'' ''rotary_embedding/__init__.py''"

definition patch_rope :: "string \<Rightarrow> step" where
  "patch_rope vllm = patch_before (rotary_path vllm)
     (''    else:'' @ nl @ ''        raise ValueError(f\"Unknown RoPE scaling type {scaling_type}\")'')
     (''    elif scaling_type == \"proportional\":'' @ nl @
      ''        rotary_emb = Gemma4RotaryEmbedding('' @ nl @
      ''            head_size,'' @ nl @
      ''            rotary_dim,'' @ nl @
      ''            max_position,'' @ nl @
      ''            base,'' @ nl @
      ''            is_neox_style,'' @ nl @
      ''            dtype,'' @ nl @
      ''        )'' @ nl)
     ''\"proportional\"'' ''rotary_embedding/__init__.py (get_rope proportional)''"

definition patch_tools :: "string \<Rightarrow> step" where
  "patch_tools vllm = patch_before (tools_path vllm) ''\"hermes\": (''
     (''\"gemma4\": ('' @ nl @ ''        \"gemma4_tool_parser\",'' @ nl @ ''        \"Gemma4ToolParser\",'' @ nl @ ''    ),'' @ nl @ ''    '')
     ''\"gemma4\"'' ''tool_parsers/__init__.py''"

definition patch_reasoning :: "string \<Rightarrow> step" where
  "patch_reasoning vllm = patch_before (reasoning_path vllm) ''\"deepseek_r1\": (''
     (''\"gemma4\": ('' @ nl @ ''        \"gemma4_reasoning_parser\",'' @ nl @ ''        \"Gemma4ReasoningParser\",'' @ nl @ ''    ),'' @ nl @ ''    '')
     ''\"gemma4\"'' ''reasoning/__init__.py''"

text \<open>The tool parser: two replacements that do nothing where their text is not found.\<close>

definition TP_TAG :: string where "TP_TAG = ''# patched-for-017''"

definition TP_IMPORT :: string where
  "TP_IMPORT = ''from vllm.tool_parsers.abstract_tool_parser import Tool, ToolParser''"

definition TP_INIT :: string where
  "TP_INIT = ''def __init__(self, tokenizer: TokenizerLike, tools: list[Tool] | None = None):'' @ nl @
     ''        super().__init__(tokenizer, tools)''"

definition compat_tool_parser :: "string \<Rightarrow> string" where
  "compat_tool_parser content =
     (if str_in TP_TAG content then content
      else replace_all TP_INIT (''def __init__(self, tokenizer: TokenizerLike, **kwargs):'' @ nl @ ''        super().__init__(tokenizer)'')
        (replace_all TP_IMPORT ''from vllm.tool_parsers.abstract_tool_parser import ToolParser  # patched-for-017'' content))"

definition patch_tool_parser :: "string \<Rightarrow> step" where
  "patch_tool_parser vllm = with_file (tool_parser_path vllm) (\<lambda>content fs.
     (None, fs(tool_parser_path vllm \<mapsto> compat_tool_parser content)))"

text \<open>The class of the newer source: from its first line to the next line at the top level that is
  neither blank nor a comment nor a class.\<close>

definition CLASS_NAME :: string where "CLASS_NAME = ''Gemma4ModelArchConfigConvertor''"

definition ends_class :: "string \<Rightarrow> bool" where
  "ends_class l = (py_strip l \<noteq> [] \<and> \<not> is_space (hd l) \<and> \<not> prefix ''#'' (py_strip l) \<and> \<not> prefix ''class '' (py_strip l))"

definition extract_class :: "string list \<Rightarrow> exn + string" where
  "extract_class src_lines = (case dropWhile (\<lambda>l. \<not> str_in (''class '' @ CLASS_NAME) l) src_lines of
       [] \<Rightarrow> Inl (OtherError ''StopIteration'')
     | l # ls \<Rightarrow> Inr (rstrip (py_join nl (l # takeWhile (\<lambda>l. \<not> ends_class l) ls))))"

definition rstrip_nl :: "string \<Rightarrow> string" where
  "rstrip_nl s = rev (dropWhile (\<lambda>c. c = CHR 0x0A) (rev s))"

definition CONVERTOR_ENTRY :: string where
  "CONVERTOR_ENTRY = ''\"gemma3n\": Gemma3nModelArchConfigConvertor,''"

definition NEW_ENTRIES :: string where
  "NEW_ENTRIES = CONVERTOR_ENTRY @ nl @ ''    \"gemma4\": Gemma4ModelArchConfigConvertor,'' @ nl @
     ''    \"gemma4_text\": Gemma4ModelArchConfigConvertor,''"

definition add_convertor :: "string \<Rightarrow> string \<Rightarrow> string" where
  "add_convertor gemma4_class dest_content =
     replace_all CONVERTOR_ENTRY NEW_ENTRIES (rstrip_nl dest_content @ nl @ nl @ gemma4_class @ nl)"

definition patch_convertor :: "string \<Rightarrow> step" where
  "patch_convertor vllm = with_file src_path (\<lambda>src. with_file (dest_path vllm) (\<lambda>dest_content fs.
     if str_in CLASS_NAME dest_content then (None, fs)
     else case extract_class (split_char (CHR 0x0A) src) of
         Inl e \<Rightarrow> (Some e, fs)
       | Inr gemma4_class \<Rightarrow> (None, fs(dest_path vllm \<mapsto> add_convertor gemma4_class dest_content))))"

text \<open>The script stops at the first exception; what was written stays.\<close>

fun run_steps :: "step list \<Rightarrow> step" where
  "run_steps [] fs = (None, fs)"
| "run_steps (s # ss) fs = (case s fs of (None, fs') \<Rightarrow> run_steps ss fs' | (Some e, fs') \<Rightarrow> (Some e, fs'))"

definition patch_steps :: "string \<Rightarrow> step list" where
  "patch_steps vllm = [patch_registry vllm, patch_multimodal vllm, patch_rotary vllm, patch_rope vllm, patch_tools vllm,
     patch_tool_parser vllm, patch_reasoning vllm, patch_convertor vllm]"

definition patch_gemma4 :: "string \<Rightarrow> step" where
  "patch_gemma4 vllm = run_steps (patch_steps vllm)"

section \<open>Occurrences around an insertion\<close>

lemma sublist_left: "sublist t (p @ q) \<Longrightarrow> t \<noteq> [] \<Longrightarrow> last t \<notin> set q \<Longrightarrow> sublist t p"
proof -
  assume t: "sublist t (p @ q)" "t \<noteq> []" "last t \<notin> set q"
  have "\<not> sublist t q" using t(2,3) by (auto simp: sublist_def)
  moreover have "ys = []" if "t = xs @ ys" "prefix ys q" for xs ys
  proof (rule ccontr)
    assume "ys \<noteq> []"
    then have "last t \<in> set ys" using that(1) by simp
    then show False using that(2) t(3) set_mono_prefix by blast
  qed
  ultimately show ?thesis using t(1) unfolding sublist_append
    by (metis append_Nil2 suffix_imp_sublist)
qed

lemma sublist_right: "sublist t (p @ q) \<Longrightarrow> t \<noteq> [] \<Longrightarrow> hd t \<notin> set p \<Longrightarrow> sublist t q"
  using sublist_left [of "rev t" "rev q" "rev p"] by (simp add: hd_rev last_rev flip: rev_append)

lemma sublist_around: "sublist t (p @ x # q) \<Longrightarrow> x \<notin> set t \<Longrightarrow> sublist t p \<or> sublist t q"
proof -
  assume t: "sublist t (p @ x # q)" "x \<notin> set t"
  then obtain a b where ab: "p @ x # q = a @ t @ b" unfolding sublist_def by blast
  show ?thesis
  proof (cases "length a + length t \<le> length p")
    case True
    then have "p = a @ t @ take (length p - (length a + length t)) b"
      using arg_cong [OF ab, of "take (length p)"] by simp
    then show ?thesis by (metis sublist_def)
  next
    case False
    show ?thesis
    proof (cases "length a \<le> length p")
      case True
      then have inside: "length p - length a < length t" using False by linarith
      then have "(a @ t @ b) ! length p = t ! (length p - length a)" using True by (simp add: nth_append)
      then have "x = t ! (length p - length a)" using ab by (metis nth_append_length)
      then show ?thesis using t(2) nth_mem [OF inside] by simp
    next
      case False
      then have "q = drop (Suc (length p)) a @ t @ b" using arg_cong [OF ab, of "drop (Suc (length p))"] by simp
      then show ?thesis by (metis sublist_def)
    qed
  qed
qed

lemma insert_keeps:
  assumes "sublist t (p @ x # q)" "x \<notin> set t"
  shows "sublist t (p @ x # i @ q)" "sublist t (p @ i @ x # q)"
  using sublist_around [OF assms] by (auto simp: sublist_append sublist_Cons_right)

lemma replace_first_at:
  assumes "str_in old s"
  obtains a b where "s = a @ old @ b" "replace_first old new s = a @ new @ b"
proof -
  obtain a b where ab: "split_once old s = Some (a, b)"
    using assms split_once_sublist [of old s] unfolding str_in_def by fastforce
  then show ?thesis using that split_once_Some [OF ab] by (simp add: replace_first_def)
qed

section \<open>What every step promises\<close>

text \<open>A step edits one file, which it recognises as edited afterwards, and reads some others.\<close>

locale text_patch =
  fixes run :: step and target :: string and needs :: "string list" and fits patched :: "string \<Rightarrow> bool"
  assumes skip: "fs target = Some c \<Longrightarrow> patched c \<Longrightarrow> list_all (\<lambda>p. fs p \<noteq> None) needs \<Longrightarrow> run fs = (None, fs)"
    and reads: "run fs = (None, fs') \<Longrightarrow> list_all (\<lambda>p. fs p \<noteq> None) (target # needs)"
    and marks: "run fs = (None, fs') \<Longrightarrow> fs target = Some c \<Longrightarrow> fits c \<Longrightarrow> \<exists>c'. fs' target = Some c' \<and> patched c'"
    and frame: "run fs = (e, fs') \<Longrightarrow> fs' = fs \<or> (\<exists>c'. fs' = fs(target \<mapsto> c'))"
begin

lemma other: "run fs = (e, fs') \<Longrightarrow> p \<noteq> target \<Longrightarrow> fs' p = fs p"
  using frame by fastforce

lemma exists: "run fs = (e, fs') \<Longrightarrow> fs p \<noteq> None \<Longrightarrow> fs' p \<noteq> None"
  using frame by fastforce

text \<open>A second run finds nothing to do, if others kept the file and removed none.\<close>

lemma again:
  assumes "run fs = (None, fs')" "fs target = Some c" "fits c"
    and "g target = fs' target" "list_all (\<lambda>p. fs' p \<noteq> None \<longrightarrow> g p \<noteq> None) needs"
  shows "run g = (None, g)"
proof -
  obtain c' where "g target = Some c'" "patched c'" using marks [OF assms(1-3)] assms(4) by auto
  moreover have "list_all (\<lambda>p. g p \<noteq> None) needs"
    using reads [OF assms(1)] exists [OF assms(1)] assms(5) by (simp add: list_all_iff)
  ultimately show ?thesis by (rule skip)
qed

end

lemma patch_after_text:
  assumes "str_in check insertion"
  shows "text_patch (patch_after path marker insertion check label) path [] (\<lambda>_. True) (str_in check)"
proof
  fix fs fs' c
  assume run: "patch_after path marker insertion check label fs = (None, fs')" and c: "fs path = Some c"
  show "\<exists>c'. fs' path = Some c' \<and> str_in check c'"
  proof (cases "str_in check c")
    case True
    then show ?thesis using run c by (auto simp: patch_after_def with_file_def)
  next
    case False
    then have m: "str_in marker c" using run c by (auto simp: patch_after_def with_file_def split: if_splits)
    then obtain a b where "replace_first marker (marker @ insertion) c = a @ (marker @ insertion) @ b"
      using replace_first_at by metis
    moreover have "fs' path = Some (replace_first marker (marker @ insertion) c)"
      using run c False by (auto simp: patch_after_def with_file_def split: if_splits)
    ultimately show ?thesis using assms by (simp add: str_in_def sublist_append)
  qed
qed (auto simp: patch_after_def with_file_def split: option.splits if_splits)

lemma patch_before_text:
  assumes "str_in check insertion"
  shows "text_patch (patch_before path marker insertion check label) path [] (\<lambda>_. True) (str_in check)"
proof
  fix fs fs' c
  assume run: "patch_before path marker insertion check label fs = (None, fs')" and c: "fs path = Some c"
  show "\<exists>c'. fs' path = Some c' \<and> str_in check c'"
  proof (cases "str_in check c")
    case True
    then show ?thesis using run c by (auto simp: patch_before_def with_file_def)
  next
    case False
    then have m: "str_in marker c" using run c by (auto simp: patch_before_def with_file_def split: if_splits)
    then obtain a b where "replace_first marker (insertion @ marker) c = a @ (insertion @ marker) @ b"
      using replace_first_at by metis
    moreover have "fs' path = Some (replace_first marker (insertion @ marker) c)"
      using run c False by (auto simp: patch_before_def with_file_def split: if_splits)
    ultimately show ?thesis using assms by (simp add: str_in_def sublist_append)
  qed
qed (auto simp: patch_before_def with_file_def split: option.splits if_splits)

lemma str_in_infix: "str_in t (a @ t @ b)"
  by (simp add: str_in_def)

interpretation registry: text_patch "patch_registry vllm" "registry_path vllm" "[]" "\<lambda>_. True" "str_in ''\"Gemma4ForCausalLM\"''" for vllm
  unfolding patch_registry_def by (rule patch_after_text) (simp add: str_in_def sublist_Cons_right)

interpretation multimodal: text_patch "patch_multimodal vllm" "registry_path vllm" "[]" "\<lambda>_. True"
  "str_in ''\"Gemma4ForConditionalGeneration\"''" for vllm
  unfolding patch_multimodal_def by (rule patch_after_text) (simp add: str_in_def sublist_Cons_right)

interpretation rotary: text_patch "patch_rotary vllm" "rotary_path vllm" "[]" "\<lambda>_. True" "str_in ''gemma4_rope''" for vllm
  unfolding patch_rotary_def by (rule patch_after_text) (simp add: str_in_def sublist_Cons_right)

interpretation rope: text_patch "patch_rope vllm" "rotary_path vllm" "[]" "\<lambda>_. True" "str_in ''\"proportional\"''" for vllm
  unfolding patch_rope_def by (rule patch_before_text) (simp add: str_in_def sublist_Cons_right)

interpretation tools: text_patch "patch_tools vllm" "tools_path vllm" "[]" "\<lambda>_. True" "str_in ''\"gemma4\"''" for vllm
  unfolding patch_tools_def by (rule patch_before_text) (simp add: str_in_def sublist_Cons_right)

interpretation reasoning: text_patch "patch_reasoning vllm" "reasoning_path vllm" "[]" "\<lambda>_. True" "str_in ''\"gemma4\"''" for vllm
  unfolding patch_reasoning_def by (rule patch_before_text) (simp add: str_in_def sublist_Cons_right)

section \<open>Replacing every occurrence\<close>

lemma replace_all_None: "old \<noteq> [] \<Longrightarrow> \<not> sublist old s \<Longrightarrow> replace_all old new s = s"
  by (subst replace_all.simps) (simp add: split_once_None)

lemma replace_all_adds:
  assumes "old \<noteq> []" "sublist old s"
  shows "sublist new (replace_all old new s)"
proof -
  obtain a b where "split_once old s = Some (a, b)" using split_once_sublist [of old s] assms(2) by fastforce
  then show ?thesis using assms(1) by (subst replace_all.simps) (simp add: sublist_append)
qed

text \<open>A text that overlaps no occurrence survives: its first character is not in the tail of the old
  text and its last one not in the head, and some character of the old text is none of its.\<close>

lemma replace_all_keeps:
  assumes "old = h @ x # t" "x \<notin> set w" "w \<noteq> []" "last w \<notin> set h" "hd w \<notin> set t"
  shows "sublist w s \<Longrightarrow> sublist w (replace_all old new s)"
proof (induction s rule: measure_induct_rule [of length])
  case (less s)
  show ?case
  proof (cases "split_once old s")
    case None
    then have "replace_all old new s = s" using assms(1) by (subst replace_all.simps) simp
    then show ?thesis using less.prems by simp
  next
    case (Some ab)
    obtain a b where ab: "split_once old s = Some (a, b)" using Some by (cases ab) simp
    have s: "s = a @ old @ b" by (rule split_once_Some [OF ab])
    have new: "replace_all old new s = a @ new @ replace_all old new b"
      using assms(1) ab by (subst replace_all.simps) simp
    have "sublist w ((a @ h) @ x # (t @ b))" using less.prems s assms(1) by simp
    then consider "sublist w (a @ h)" | "sublist w (t @ b)" using sublist_around assms(2) by metis
    then show ?thesis
    proof cases
      case 1
      then have "sublist w a" using sublist_left assms(3,4) by metis
      then show ?thesis using new by (simp add: sublist_append)
    next
      case 2
      then have "sublist w b" using sublist_right assms(3,5) by metis
      moreover have "length b < length s" using s assms(1) by simp
      ultimately have "sublist w (replace_all old new b)" by (intro less.IH)
      then show ?thesis using new by (simp add: sublist_append)
    qed
  qed
qed

lemma tool_parser_marks:
  assumes "str_in TP_TAG c \<or> str_in TP_IMPORT c"
  shows "str_in TP_TAG (compat_tool_parser c)"
proof (cases "str_in TP_TAG c")
  case False
  let ?new = "''from vllm.tool_parsers.abstract_tool_parser import ToolParser  # patched-for-017''"
  have "sublist ?new (replace_all TP_IMPORT ?new c)"
    using assms False by (intro replace_all_adds) (simp_all add: str_in_def TP_IMPORT_def)
  moreover have "sublist TP_TAG ?new" by (simp add: TP_TAG_def sublist_Cons_right)
  ultimately have "sublist TP_TAG (replace_all TP_IMPORT ?new c)" by (meson sublist_order.order_trans)
  then have "sublist TP_TAG (replace_all TP_INIT new (replace_all TP_IMPORT ?new c))" for new
    by (rule replace_all_keeps [where h = "''def ''" and x = "CHR ''_''" and t = "drop 5 TP_INIT", rotated -1]) (simp_all add: TP_TAG_def TP_INIT_def)
  then show ?thesis using False by (simp add: compat_tool_parser_def str_in_def)
qed (simp add: compat_tool_parser_def)

lemma compat_skip: "str_in TP_TAG c \<Longrightarrow> compat_tool_parser c = c"
  by (simp add: compat_tool_parser_def)

interpretation tool_parser: text_patch "patch_tool_parser vllm" "tool_parser_path vllm" "[]"
  "\<lambda>c. str_in TP_TAG c \<or> str_in TP_IMPORT c" "str_in TP_TAG" for vllm
  by unfold_locales
    (auto simp: patch_tool_parser_def with_file_def compat_skip tool_parser_marks fun_upd_idem split: option.splits)

lemma sublist_rstrip: "sublist w s \<Longrightarrow> w \<noteq> [] \<Longrightarrow> \<not> is_space (last w) \<Longrightarrow> sublist w (rstrip s)"
proof -
  assume w: "sublist w s" "w \<noteq> []" "\<not> is_space (last w)"
  have "s = rstrip s @ rev (takeWhile is_space (rev s))"
    unfolding rstrip_def by (metis rev_append rev_rev_ident takeWhile_dropWhile_id)
  moreover have "last w \<notin> set (rev (takeWhile is_space (rev s)))" using w(3) by (auto dest: set_takeWhileD)
  ultimately show ?thesis using sublist_left w(1,2) by metis
qed

lemma sublist_py_join: "l \<in> set ls \<Longrightarrow> sublist l (py_join sep ls)"
  by (induction sep ls rule: py_join.induct) (auto simp: sublist_append)

lemma extract_class_named:
  assumes "extract_class ls = Inr cls"
  shows "sublist (''class '' @ CLASS_NAME) cls"
proof -
  let ?w = "''class '' @ CLASS_NAME"
  obtain l rest where l: "dropWhile (\<lambda>l. \<not> str_in ?w l) ls = l # rest"
    "cls = rstrip (py_join nl (l # takeWhile (\<lambda>l. \<not> ends_class l) rest))"
    using assms by (auto simp: extract_class_def split: list.splits)
  have "sublist ?w l" using l(1) by (metis hd_dropWhile list.distinct(1) list.sel(1) str_in_def)
  then have "sublist ?w (py_join nl (l # takeWhile (\<lambda>l. \<not> ends_class l) rest))"
    using sublist_py_join [of l] by (meson list.set_intros(1) sublist_order.order_trans)
  then show ?thesis unfolding l(2) by (rule sublist_rstrip) (simp_all add: CLASS_NAME_def is_space_def)
qed

lemma add_convertor_marks:
  assumes "sublist (''class '' @ CLASS_NAME) cls"
  shows "str_in CLASS_NAME (add_convertor cls c)"
proof -
  let ?s = "rstrip_nl c @ nl @ nl @ cls @ nl"
  have "sublist CLASS_NAME (''class '' @ CLASS_NAME)" by (simp only: sublist_append_leftI)
  then have "sublist CLASS_NAME cls" using assms by (rule sublist_order.order_trans)
  moreover have "sublist cls ?s"
    unfolding sublist_def by (intro exI [of _ "rstrip_nl c @ nl @ nl"] exI [of _ nl]) simp
  ultimately have s: "sublist CLASS_NAME ?s" by (rule sublist_order.order_trans)
  show ?thesis
  proof (cases "sublist CONVERTOR_ENTRY ?s")
    case True
    then have "sublist NEW_ENTRIES (add_convertor cls c)"
      unfolding add_convertor_def by (rule replace_all_adds [rotated]) (simp add: CONVERTOR_ENTRY_def)
    moreover have "sublist CLASS_NAME NEW_ENTRIES"
      by (simp add: CLASS_NAME_def NEW_ENTRIES_def CONVERTOR_ENTRY_def sublist_Cons_right)
    ultimately show ?thesis unfolding str_in_def by (meson sublist_order.order_trans)
  next
    case False
    then show ?thesis using s by (simp add: add_convertor_def str_in_def replace_all_None CONVERTOR_ENTRY_def)
  qed
qed

interpretation convertor: text_patch "patch_convertor vllm" "dest_path vllm" "[src_path]" "\<lambda>_. True" "str_in CLASS_NAME" for vllm
  by unfold_locales
    (auto simp: patch_convertor_def with_file_def split: option.splits if_splits sum.splits
      intro: add_convertor_marks [OF extract_class_named])

section \<open>Running the script again\<close>

lemmas path_defs = registry_path_def rotary_path_def tools_path_def tool_parser_path_def reasoning_path_def dest_path_def

lemma paths_differ:
  "registry_path vllm \<noteq> rotary_path vllm" "registry_path vllm \<noteq> tools_path vllm" "registry_path vllm \<noteq> tool_parser_path vllm"
  "registry_path vllm \<noteq> reasoning_path vllm" "registry_path vllm \<noteq> dest_path vllm" "rotary_path vllm \<noteq> tools_path vllm"
  "rotary_path vllm \<noteq> tool_parser_path vllm" "rotary_path vllm \<noteq> reasoning_path vllm" "rotary_path vllm \<noteq> dest_path vllm"
  "tools_path vllm \<noteq> tool_parser_path vllm" "tools_path vllm \<noteq> reasoning_path vllm" "tools_path vllm \<noteq> dest_path vllm"
  "tool_parser_path vllm \<noteq> reasoning_path vllm" "tool_parser_path vllm \<noteq> dest_path vllm" "reasoning_path vllm \<noteq> dest_path vllm"
  by (simp_all add: path_defs)

text \<open>The second edit of a file keeps what the first one left there.\<close>

lemma after_keeps:
  assumes "patch_after path (m @ [x]) insertion check label fs = (None, fs')" "fs path = Some c" "str_in w c" "x \<notin> set w"
  shows "\<exists>c'. fs' path = Some c' \<and> str_in w c'"
proof (cases "str_in check c")
  case True
  then show ?thesis using assms by (auto simp: patch_after_def with_file_def)
next
  case False
  then have m: "str_in (m @ [x]) c" "fs' path = Some (replace_first (m @ [x]) ((m @ [x]) @ insertion) c)"
    using assms(1,2) by (auto simp: patch_after_def with_file_def split: if_splits)
  obtain a b where c: "c = a @ (m @ [x]) @ b" "replace_first (m @ [x]) ((m @ [x]) @ insertion) c = a @ ((m @ [x]) @ insertion) @ b"
    using replace_first_at [OF m(1)] by metis
  have "sublist w ((a @ m) @ x # b)" using assms(3) c(1) by (simp add: str_in_def)
  from insert_keeps(1) [OF this assms(4), of insertion] show ?thesis using m(2) c(2) by (simp add: str_in_def)
qed

lemma before_keeps:
  assumes "patch_before path (x # m) insertion check label fs = (None, fs')" "fs path = Some c" "str_in w c" "x \<notin> set w"
  shows "\<exists>c'. fs' path = Some c' \<and> str_in w c'"
proof (cases "str_in check c")
  case True
  then show ?thesis using assms by (auto simp: patch_before_def with_file_def)
next
  case False
  then have m: "str_in (x # m) c" "fs' path = Some (replace_first (x # m) (insertion @ x # m) c)"
    using assms(1,2) by (auto simp: patch_before_def with_file_def split: if_splits)
  obtain a b where c: "c = a @ (x # m) @ b" "replace_first (x # m) (insertion @ x # m) c = a @ (insertion @ x # m) @ b"
    using replace_first_at [OF m(1)] by metis
  have "sublist w (a @ x # m @ b)" using assms(3) c(1) by (simp add: str_in_def)
  from insert_keeps(2) [OF this assms(4), of insertion] show ?thesis using m(2) c(2) by (simp add: str_in_def)
qed

lemma run_steps_Cons:
  "run_steps (s # ss) fs = (None, fs') \<longleftrightarrow> (\<exists>f. s fs = (None, f) \<and> run_steps ss f = (None, fs'))"
  by (auto split: prod.splits option.splits)

text \<open>The other step on each of the two files edited twice.\<close>

lemma multimodal_keeps:
  assumes "patch_multimodal vllm fs = (None, fs')" "fs (registry_path vllm) = Some c" "str_in ''\"Gemma4ForCausalLM\"'' c"
  shows "\<exists>c'. fs' (registry_path vllm) = Some c' \<and> str_in ''\"Gemma4ForCausalLM\"'' c'"
proof -
  have "''\"Gemma3ForConditionalGeneration\": (\"gemma3_mm\", \"Gemma3ForConditionalGeneration\"),  # noqa: E501'' =
      ''\"Gemma3ForConditionalGeneration\": (\"gemma3_mm\", \"Gemma3ForConditionalGeneration\"),  # noqa: E50'' @ [CHR ''1'']" by simp
  from assms(1) [unfolded patch_multimodal_def this] assms(2,3) show ?thesis by (rule after_keeps) simp
qed

lemma rope_keeps:
  assumes "patch_rope vllm fs = (None, fs')" "fs (rotary_path vllm) = Some c" "str_in ''gemma4_rope'' c"
  shows "\<exists>c'. fs' (rotary_path vllm) = Some c' \<and> str_in ''gemma4_rope'' c'"
proof -
  have "''    else:'' @ nl @ m = CHR '' '' # ''   else:'' @ nl @ m" for m by simp
  from assms(1) [unfolded patch_rope_def this] assms(2,3) show ?thesis by (rule before_keeps) simp
qed

text \<open>C33: the script may be run again.  If a run ends without an exception, and the copied tool parser
  is one it can recognise, a second run finds every edit in place and changes nothing.\<close>

theorem patch_idempotent:
  assumes run: "patch_gemma4 vllm fs = (None, fs')"
    and tool: "fs (tool_parser_path vllm) = Some tp" "str_in TP_TAG tp \<or> str_in TP_IMPORT tp"
  shows "patch_gemma4 vllm fs' = (None, fs')"
proof -
  obtain f1 f2 f3 f4 f5 f6 f7 where steps: "patch_registry vllm fs = (None, f1)" "patch_multimodal vllm f1 = (None, f2)"
    "patch_rotary vllm f2 = (None, f3)" "patch_rope vllm f3 = (None, f4)" "patch_tools vllm f4 = (None, f5)"
    "patch_tool_parser vllm f5 = (None, f6)" "patch_reasoning vllm f6 = (None, f7)" "patch_convertor vllm f7 = (None, fs')"
    using run by (auto simp: patch_gemma4_def patch_steps_def run_steps_Cons simp del: run_steps.simps(2))
  note other = registry.other [OF steps(1)] multimodal.other [OF steps(2)] rotary.other [OF steps(3)] rope.other [OF steps(4)]
    tools.other [OF steps(5)] tool_parser.other [OF steps(6)] reasoning.other [OF steps(7)] convertor.other [OF steps(8)]
  note differ = paths_differ paths_differ [symmetric]
  have skips: "patch_multimodal vllm fs' = (None, fs')" "patch_rope vllm fs' = (None, fs')" "patch_tools vllm fs' = (None, fs')"
    "patch_reasoning vllm fs' = (None, fs')" "patch_convertor vllm fs' = (None, fs')"
    using multimodal.again [OF steps(2)] rope.again [OF steps(4)] tools.again [OF steps(5)] reasoning.again [OF steps(7)]
      convertor.again [OF steps(8)] multimodal.reads [OF steps(2)] rope.reads [OF steps(4)] tools.reads [OF steps(5)]
      reasoning.reads [OF steps(7)] convertor.reads [OF steps(8)]
    by (auto simp: other differ)
  have "f5 (tool_parser_path vllm) = Some tp" using tool(1) by (simp add: other differ)
  then have parser: "patch_tool_parser vllm fs' = (None, fs')"
    using tool_parser.again [OF steps(6), of tp fs'] tool(2) by (simp add: other differ)
  obtain c where "f1 (registry_path vllm) = Some c" "str_in ''\"Gemma4ForCausalLM\"'' c"
    using registry.marks [OF steps(1)] registry.reads [OF steps(1)] by auto
  from multimodal_keeps [OF steps(2) this] have first: "patch_registry vllm fs' = (None, fs')"
    using registry.skip [of fs' vllm] by (auto simp: other differ)
  obtain d where "f3 (rotary_path vllm) = Some d" "str_in ''gemma4_rope'' d"
    using rotary.marks [OF steps(3)] rotary.reads [OF steps(3)] by auto
  from rope_keeps [OF steps(4) this] have third: "patch_rotary vllm fs' = (None, fs')"
    using rotary.skip [of fs' vllm] by (auto simp: other differ)
  show ?thesis by (simp add: patch_gemma4_def patch_steps_def first skips third parser)
qed

text \<open>An installation a part of which has been patched already.\<close>

definition sample_files :: files where
  "sample_files = map_of
     [(''/v/model_executor/models/registry.py'',
       ''\"Gemma3ForCausalLM\": (\"gemma3\", \"Gemma3ForCausalLM\"),'' @ nl @ ''\"Gemma4ForConditionalGeneration\"''),
      (''/v/model_executor/layers/rotary_embedding/__init__.py'', ''gemma4_rope \"proportional\"''),
      (''/v/tool_parsers/__init__.py'', ''\"hermes\": (''),
      (''/v/tool_parsers/gemma4_tool_parser.py'', TP_IMPORT),
      (''/v/reasoning/__init__.py'', ''\"deepseek_r1\": (''),
      (src_path, ''class Gemma4ModelArchConfigConvertor:'' @ nl @ ''    pass'' @ nl @ ''X = {}''),
      (''/v/transformers_utils/model_arch_config_convertor.py'', ''D = {'' @ nl @ CONVERTOR_ENTRY @ nl @ ''}'')]"

theorem patch_idempotent_witness:
  "\<exists>fs'. patch_gemma4 ''/v'' sample_files = (None, fs') \<and> patch_gemma4 ''/v'' fs' = (None, fs') \<and> fs' \<noteq> sample_files"
proof -
  have "\<exists>fs'. patch_gemma4 ''/v'' sample_files = (None, fs') \<and> fs' ''/v/tool_parsers/__init__.py'' \<noteq> sample_files ''/v/tool_parsers/__init__.py''"
    by (simp add: patch_gemma4_def patch_steps_def patch_registry_def patch_multimodal_def patch_rotary_def patch_rope_def
        patch_tools_def patch_tool_parser_def patch_reasoning_def patch_convertor_def patch_after_def patch_before_def with_file_def
        path_defs src_path_def sample_files_def str_in_def sublist_Cons_right replace_first_def TP_IMPORT_def
        CLASS_NAME_def CONVERTOR_ENTRY_def extract_class_def)
  then obtain fs' where run: "patch_gemma4 ''/v'' sample_files = (None, fs')"
    "fs' ''/v/tool_parsers/__init__.py'' \<noteq> sample_files ''/v/tool_parsers/__init__.py''" by blast
  have "sample_files (tool_parser_path ''/v'') = Some TP_IMPORT" by (simp add: sample_files_def path_defs src_path_def)
  from patch_idempotent [OF run(1) this] run show ?thesis by auto
qed

section \<open>Where the new class goes\<close>

lemma prefix_before:
  assumes "x \<notin> set old"
  shows "prefix old (a @ x # b) \<longleftrightarrow> prefix old a"
proof -
  have "us = []" if "old = a @ us" "prefix us (x # b)" for us
    using that assms by (cases us) auto
  then show ?thesis unfolding prefix_append by auto
qed

lemma split_once_append:
  assumes "x \<notin> set old" "old \<noteq> []"
  shows "split_once old (a @ x # b) = (case split_once old a of Some (p, q) \<Rightarrow> Some (p, q @ x # b)
    | None \<Rightarrow> map_option (\<lambda>(p, q). (a @ x # p, q)) (split_once old b))"
proof (induction a)
  case Nil
  then show ?case using prefix_before [OF assms(1), of "[]" b] assms(2) by simp
next
  case (Cons c a)
  show ?case
  proof (cases "prefix old (c # a)")
    case True
    then show ?thesis using prefix_before [OF assms(1), of "c # a" b] prefix_length_le [OF True]
      drop_append [of "length old" "c # a" "x # b"] by simp
  next
    case False
    then show ?thesis using prefix_before [OF assms(1), of "c # a" b] Cons.IH
      by (simp add: option.map_comp comp_def split_def split: option.splits)
  qed
qed

lemma replace_all_append:
  assumes "x \<notin> set old" "old \<noteq> []"
  shows "replace_all old new (a @ x # b) = replace_all old new a @ x # replace_all old new b"
proof (induction a rule: measure_induct_rule [of length])
  case (less a)
  show ?case
  proof (cases "split_once old a")
    case None
    then show ?thesis using assms split_once_append [OF assms, of a b]
      by (subst (1 2 3) replace_all.simps) (auto split: option.splits)
  next
    case (Some pq)
    obtain p q where pq: "split_once old a = Some (p, q)" using Some by (cases pq) simp
    have "length q < length a" using split_once_Some [OF pq] assms(2) by simp
    from less.IH [OF this] show ?thesis using assms(2) pq split_once_append [OF assms, of a b]
      by (subst (1 2) replace_all.simps) simp
  qed
qed

lemma rstrip_nl_sublist: "sublist w s \<Longrightarrow> w \<noteq> [] \<Longrightarrow> last w \<noteq> CHR 0x0A \<Longrightarrow> sublist w (rstrip_nl s)"
proof -
  assume w: "sublist w s" "w \<noteq> []" "last w \<noteq> CHR 0x0A"
  have "s = rstrip_nl s @ rev (takeWhile (\<lambda>c. c = CHR 0x0A) (rev s))"
    unfolding rstrip_nl_def by (metis rev_append rev_rev_ident takeWhile_dropWhile_id)
  moreover have "last w \<notin> set (rev (takeWhile (\<lambda>c. c = CHR 0x0A) (rev s)))" using w(3) by (auto dest: set_takeWhileD)
  ultimately show ?thesis using sublist_left w(1,2) by metis
qed

text \<open>The class is appended to the end of the file, below the dictionary: the two entries that name
  it are inserted into the old text, which is followed by the class.  The comment says it goes
  before the dictionary; a module that evaluates the entries when it is loaded does not know the
  name yet.\<close>

theorem convertor_class_last:
  assumes "fs src_path = Some src" "fs (dest_path vllm) = Some d" "\<not> str_in CLASS_NAME d"
    and "extract_class (split_char (CHR 0x0A) src) = Inr cls" "\<not> str_in CONVERTOR_ENTRY cls"
  shows "patch_convertor vllm fs =
      (None, fs(dest_path vllm \<mapsto> replace_all CONVERTOR_ENTRY NEW_ENTRIES (rstrip_nl d) @ nl @ nl @ cls @ nl)) \<and>
    (str_in CONVERTOR_ENTRY d \<longrightarrow> str_in NEW_ENTRIES (replace_all CONVERTOR_ENTRY NEW_ENTRIES (rstrip_nl d))) \<and>
    str_in (''class '' @ CLASS_NAME) cls"
proof -
  have e: "CHR 0x0A \<notin> set CONVERTOR_ENTRY" "CONVERTOR_ENTRY \<noteq> []" "last CONVERTOR_ENTRY \<noteq> CHR 0x0A"
    by (simp_all add: CONVERTOR_ENTRY_def)
  have none: "replace_all CONVERTOR_ENTRY new [] = []" "replace_all CONVERTOR_ENTRY new cls = cls" for new
    using assms(5) e(2) by (simp_all add: replace_all_None str_in_def)
  have "add_convertor cls d = replace_all CONVERTOR_ENTRY NEW_ENTRIES (rstrip_nl d) @ nl @ nl @ cls @ nl"
    using replace_all_append [OF e(1,2), of NEW_ENTRIES "rstrip_nl d"] replace_all_append [OF e(1,2), of NEW_ENTRIES "[]"]
      replace_all_append [OF e(1,2), of NEW_ENTRIES cls "[]"] by (simp add: add_convertor_def none)
  moreover have "str_in CONVERTOR_ENTRY d \<Longrightarrow> str_in NEW_ENTRIES (replace_all CONVERTOR_ENTRY NEW_ENTRIES (rstrip_nl d))"
    using rstrip_nl_sublist e(2,3) replace_all_adds unfolding str_in_def by blast
  ultimately show ?thesis using assms(1-4) extract_class_named [OF assms(4)]
    by (simp add: patch_convertor_def with_file_def str_in_def)
qed

theorem convertor_class_last_witness:
  "\<exists>cls. patch_convertor ''/v'' sample_files = (None, sample_files(dest_path ''/v'' \<mapsto>
      replace_all CONVERTOR_ENTRY NEW_ENTRIES (''D = {'' @ nl @ CONVERTOR_ENTRY @ nl @ ''}'') @ nl @ nl @ cls @ nl))"
proof -
  define src where "src = ''class Gemma4ModelArchConfigConvertor:'' @ nl @ ''    pass'' @ nl @ ''X = {}''"
  define d where "d = ''D = {'' @ nl @ CONVERTOR_ENTRY @ nl @ ''}''"
  have files: "sample_files src_path = Some src" "sample_files (dest_path ''/v'') = Some d" "\<not> str_in CLASS_NAME d"
    by (simp_all add: sample_files_def src_path_def path_defs src_def d_def str_in_def CLASS_NAME_def CONVERTOR_ENTRY_def sublist_Cons_right)
  have cls: "extract_class (split_char (CHR 0x0A) src) = Inr (''class Gemma4ModelArchConfigConvertor:'' @ nl @ ''    pass'')"
    by (simp add: src_def extract_class_def str_in_def CLASS_NAME_def sublist_Cons_right ends_class_def py_strip_def lstrip_def rstrip_def is_space_def)
  have entry: "\<not> str_in CONVERTOR_ENTRY (''class Gemma4ModelArchConfigConvertor:'' @ nl @ ''    pass'')"
    by (simp add: str_in_def CONVERTOR_ENTRY_def sublist_Cons_right)
  have "rstrip_nl d = d" by (simp add: rstrip_nl_def d_def)
  then have "patch_convertor ''/v'' sample_files = (None, sample_files(dest_path ''/v'' \<mapsto>
      replace_all CONVERTOR_ENTRY NEW_ENTRIES d @ nl @ nl @ (''class Gemma4ModelArchConfigConvertor:'' @ nl @ ''    pass'') @ nl))"
    using convertor_class_last [OF files cls entry] by simp
  then show ?thesis unfolding d_def by blast
qed

end
