(* ===== verification/ForensicsLog.thy ===== *)
theory ForensicsLog
  imports Prelude "HOL-Library.Multiset"
begin

text \<open>
  The sample logs: the \<open>Writer\<close> of \<open>ops/node_forensics.py\<close>, its check of the previous session, and the
  reader of \<open>ops/crash_report.py\<close>.  The directory is a map from days to files, days counted in
  order as the ISO dates in the file names sort; a file is the list of its lines, each of which is
  on the disk when the next one is written.
\<close>

type_synonym day = nat
type_synonym logs = "(day, string list) dict"

abbreviation comma :: char where "comma \<equiv> CHR '',''"

section \<open>Writing\<close>

record writer =
  wr_header :: "string list"
  wr_day :: day
  wr_open :: bool
  wr_session :: "string option"

definition writer_init :: "string list \<Rightarrow> writer" where
  "writer_init header = \<lparr>wr_header = header, wr_day = 0, wr_open = False, wr_session = None\<rparr>"

definition file_lines :: "logs \<Rightarrow> day \<Rightarrow> string list" where
  "file_lines logs d = (case dict_get logs d of None \<Rightarrow> [] | Some ls \<Rightarrow> ls)"

definition append_line :: "day \<Rightarrow> string \<Rightarrow> logs \<Rightarrow> logs" where
  "append_line d line logs = dict_set logs d (file_lines logs d @ [line])"

definition header_line :: "string list \<Rightarrow> string" where
  "header_line header = py_join [comma] header"

definition header_matches :: "string list \<Rightarrow> string list \<Rightarrow> bool" where
  "header_matches header lines = (find (prefix ''ts,'') (rev lines) = Some (header_line header))"

definition prune :: "nat \<Rightarrow> day \<Rightarrow> logs \<Rightarrow> logs" where
  "prune retention today logs = filter (\<lambda>(d, _). \<not> d + retention < today) logs"

text \<open>\<open>_roll\<close>: \<open>ts\<close> is the time that the closing line carries.  A file is fresh if it is missing or empty.\<close>

definition roll :: "nat \<Rightarrow> day \<Rightarrow> string \<Rightarrow> writer \<times> logs \<Rightarrow> writer \<times> logs" where
  "roll retention today ts st = (case st of (w, logs) \<Rightarrow>
     let logs = (if wr_open w then append_line (wr_day w) (''#ROLLOVER ts='' @ ts) logs else logs);
         fresh = (file_lines logs today = []);
         logs = (if fresh \<or> \<not> header_matches (wr_header w) (file_lines logs today)
                 then append_line today (header_line (wr_header w)) logs else logs);
         logs = prune retention today logs;
         logs = (case wr_session w of None \<Rightarrow> logs | Some l \<Rightarrow> append_line today (l @ '' resumed=1'') logs)
     in (w\<lparr>wr_open := True, wr_day := today\<rparr>, logs))"

definition writer_write :: "nat \<Rightarrow> day \<times> string \<Rightarrow> string \<Rightarrow> writer \<times> logs \<Rightarrow> writer \<times> logs" where
  "writer_write retention now text st = (case now of (today, ts) \<Rightarrow>
     (case (if \<not> wr_open (fst st) \<or> today \<noteq> wr_day (fst st) then roll retention today ts st else st) of
        (w, logs) \<Rightarrow> (w, append_line (wr_day w) text logs)))"

definition start_session :: "nat \<Rightarrow> day \<times> string \<Rightarrow> string \<Rightarrow> writer \<times> logs \<Rightarrow> writer \<times> logs" where
  "start_session retention now line st = (case writer_write retention now line st of (w, logs) \<Rightarrow> (w\<lparr>wr_session := Some line\<rparr>, logs))"

definition close :: "writer \<times> logs \<Rightarrow> writer \<times> logs" where
  "close st = (case st of (w, logs) \<Rightarrow> (w\<lparr>wr_open := False\<rparr>, logs))"

text \<open>A run of the sampler: the opening line, the rows, and the closing line if it is stopped.\<close>

definition write_rows :: "nat \<Rightarrow> ((day \<times> string) \<times> string list) list \<Rightarrow> writer \<times> logs \<Rightarrow> writer \<times> logs" where
  "write_rows retention rows st = fold (\<lambda>(now, row). writer_write retention now (py_join [comma] row)) rows st"

definition sampler_run :: "nat \<Rightarrow> string list \<Rightarrow> (day \<times> string) \<Rightarrow> string \<Rightarrow> ((day \<times> string) \<times> string list) list \<Rightarrow>
    (day \<times> string) option \<Rightarrow> logs \<Rightarrow> logs" where
  "sampler_run retention header now boot rows stop logs =
     (let st = write_rows retention rows (start_session retention now boot (writer_init header, logs))
      in snd (case stop of None \<Rightarrow> st | Some t \<Rightarrow> close (writer_write retention t (''#CLEAN_STOP ts='' @ snd t) st)))"

section \<open>Reading\<close>

text \<open>A segment is a header with the rows below it.\<close>

record session =
  se_start :: string
  se_segments :: "(string list option \<times> string list list) list"
  se_clean :: bool
  se_stop :: "string option"
  se_file :: day
  se_rolled :: bool
  se_implicit :: bool
  se_skipped :: nat

definition new_session :: "day \<Rightarrow> string \<Rightarrow> string list option \<Rightarrow> bool \<Rightarrow> session" where
  "new_session file start header implicit =
     \<lparr>se_start = start, se_segments = [(header, [])], se_clean = False, se_stop = None, se_file = file,
      se_rolled = False, se_implicit = implicit, se_skipped = 0\<rparr>"

definition on_last :: "('a \<Rightarrow> 'a) \<Rightarrow> 'a list \<Rightarrow> 'a list" where
  "on_last f xs = (if xs = [] then [] else butlast xs @ [f (last xs)])"

text \<open>A row of the wrong width is counted and dropped.\<close>

definition add_fields :: "string list \<Rightarrow> session \<Rightarrow> session" where
  "add_fields row s =
     (let seg_header = fst (last (se_segments s)) in
      if (case seg_header of None \<Rightarrow> True | Some h \<Rightarrow> length row = length h)
      then s\<lparr>se_segments := on_last (\<lambda>(h, rows). (h, rows @ [row])) (se_segments s)\<rparr>
      else s\<lparr>se_skipped := se_skipped s + 1\<rparr>)"

text \<open>The state is the current header and the sessions; the current session is the last one.\<close>

type_synonym loading = "string list option \<times> session list"

definition load_line :: "day \<Rightarrow> string \<Rightarrow> loading \<Rightarrow> loading" where
  "load_line file line st = (case st of (header, ss) \<Rightarrow>
     if line = [] then st
     else if prefix ''ts,'' line then
       (let h = Some (split_char comma line) in (h, on_last (\<lambda>s. s\<lparr>se_segments := se_segments s @ [(h, [])]\<rparr>) ss))
     else if prefix ''#BOOT_START'' line then (header, ss @ [new_session file line header False])
     else if prefix ''#CLEAN_STOP'' line then (header, on_last (\<lambda>s. s\<lparr>se_clean := True, se_stop := Some line\<rparr>) ss)
     else if prefix ''#ROLLOVER'' line then (header, on_last (\<lambda>s. s\<lparr>se_rolled := True\<rparr>) ss)
     else (let ss = (if ss = [] then [new_session file ''#CONTINUACION (sin marcador)'' header True] else ss)
           in (header, on_last (add_fields (split_char comma line)) ss)))"

definition load_lines :: "day \<Rightarrow> string list \<Rightarrow> loading" where
  "load_lines file lines = fold (load_line file) lines (None, [])"

definition load_sessions :: "day \<Rightarrow> string list \<Rightarrow> session list" where
  "load_sessions file lines = snd (load_lines file lines)"

text \<open>A continued session is glued to the one before.\<close>

definition continues :: "session \<Rightarrow> bool" where
  "continues s = (se_implicit s \<or> str_in ''resumed=1'' (se_start s))"

definition join_session :: "session \<Rightarrow> session list \<Rightarrow> session list" where
  "join_session s out = (if out \<noteq> [] \<and> continues s
     then on_last (\<lambda>p. p\<lparr>se_segments := se_segments p @ se_segments s, se_clean := se_clean s, se_file := se_file s\<rparr>) out
     else out @ [s])"

definition all_sessions :: "logs \<Rightarrow> session list" where
  "all_sessions logs = fold join_session (concat (map (\<lambda>(d, ls). load_sessions d ls) (sort_key fst logs))) []"

section \<open>The check at the start of a session\<close>

definition verdict_line :: "string \<Rightarrow> string option \<times> string option \<times> string option \<Rightarrow> string option \<times> string option \<times> string option" where
  "verdict_line line st = (case st of (start, stop, sample) \<Rightarrow>
     if prefix ''#BOOT_START'' line then (Some (py_strip line), None, sample)
     else if prefix ''#CLEAN_STOP'' line then (start, Some (py_strip line), sample)
     else if \<not> prefix ''#'' line \<and> \<not> prefix ''ts,'' line then (start, stop, Some (py_strip line))
     else st)"

fun verdict_files :: "(day \<times> string list) list \<Rightarrow> (day \<times> string \<times> string option) option" where
  "verdict_files [] = None"
| "verdict_files ((d, ls) # fs) =
     (case fold verdict_line ls (None, None, None) of
        (None, _, _) \<Rightarrow> verdict_files fs
      | (Some start, None, sample) \<Rightarrow> Some (d, start, sample)
      | (Some start, Some _, _) \<Rightarrow> None)"

definition previous_session_verdict :: "logs \<Rightarrow> (day \<times> string \<times> string option) option" where
  "previous_session_verdict logs = verdict_files (rev (sort_key fst logs))"

section \<open>What a session amounts to\<close>

text \<open>Its opening line, whether it was closed, and its rows, each with the header it is read under.\<close>

definition rows_of :: "(string list option \<times> string list list) list \<Rightarrow> (string list option \<times> string list) list" where
  "rows_of segs = concat (map (\<lambda>(h, rows). map (Pair h) rows) segs)"

type_synonym summary = "string \<times> bool \<times> (string list option \<times> string list) list"

definition summary :: "session \<Rightarrow> summary" where
  "summary s = (se_start s, se_clean s, rows_of (se_segments s))"

definition summaries :: "logs \<Rightarrow> summary list" where
  "summaries logs = map summary (all_sessions logs)"

lemma on_last_simps [simp]:
  "on_last f [] = []" "on_last f [x] = [f x]" "on_last f (xs @ [x]) = xs @ [f x]" "on_last f (xs @ [x, y]) = xs @ [x, f y]"
  "on_last f xs = [] \<longleftrightarrow> xs = []"
  by (simp_all add: on_last_def butlast_append)

lemma on_last_id: "(\<And>x. f x = x) \<Longrightarrow> on_last f xs = xs"
  by (simp add: on_last_def)

lemma rows_of_simps [simp]:
  "rows_of [] = []" "rows_of (segs @ segs') = rows_of segs @ rows_of segs'" "rows_of [(h, rows)] = map (Pair h) rows"
  by (simp_all add: rows_of_def)

lemma rows_of_add:
  "segs \<noteq> [] \<Longrightarrow> rows_of (on_last (\<lambda>(h, rows). (h, rows @ [row])) segs) = rows_of segs @ [(fst (last segs), row)]"
  by (cases segs rule: rev_cases) auto

text \<open>A change of the last session that keeps its opening is a change of the joined session.\<close>

lemma join_session_effect:
  assumes "se_start s' = se_start s" "se_implicit s' = se_implicit s" "rows_of (se_segments s') = rows_of (se_segments s) @ r"
    and "se_clean s' = c (se_clean s)"
  shows "map summary (join_session s' out) = on_last (\<lambda>(a, b, rs). (a, c b, rs @ r)) (map summary (join_session s out))"
  using assms by (cases out rule: rev_cases) (simp_all add: join_session_def continues_def summary_def)

lemma fold_join_effect:
  assumes "ss \<noteq> []" "se_start (f (last ss)) = se_start (last ss)" "se_implicit (f (last ss)) = se_implicit (last ss)"
    and "rows_of (se_segments (f (last ss))) = rows_of (se_segments (last ss)) @ r" "se_clean (f (last ss)) = c (se_clean (last ss))"
  shows "map summary (fold join_session (on_last f ss) out) =
    on_last (\<lambda>(a, b, rs). (a, c b, rs @ r)) (map summary (fold join_session ss out))"
  using assms by (cases ss rule: rev_cases) (simp_all add: join_session_effect [where c = c and r = r])

section \<open>The current header\<close>

definition loading_ok :: "loading \<Rightarrow> bool" where
  "loading_ok st = (case st of (h, ss) \<Rightarrow> ss \<noteq> [] \<longrightarrow> se_segments (last ss) \<noteq> [] \<and> fst (last (se_segments (last ss))) = h)"

lemma load_line_ok: "loading_ok st \<Longrightarrow> loading_ok (load_line file line st)"
proof -
  assume ok: "loading_ok st"
  obtain h ss where st: "st = (h, ss)" by (cases st)
  have seg: "fst (last (on_last (\<lambda>(h, rows). (h, rows @ [row])) segs)) = fst (last segs)"
    for row and segs :: "(string list option \<times> string list list) list"
    by (cases segs rule: rev_cases) (auto simp: on_last_def)
  show ?thesis using ok
    by (cases ss rule: rev_cases)
      (auto simp: st loading_ok_def load_line_def new_session_def Let_def add_fields_def seg)
qed

lemma load_lines_ok: "loading_ok (load_lines file lines)"
proof (induction lines rule: rev_induct)
  case Nil
  show ?case by (simp add: load_lines_def loading_ok_def)
next
  case (snoc l ls)
  then show ?case using load_line_ok by (simp add: load_lines_def)
qed

lemma load_lines_snoc: "load_lines file (ls @ [l]) = load_line file l (load_lines file ls)"
  by (simp add: load_lines_def)

lemma load_header: "fst (load_lines file ls) = map_option (split_char comma) (find (prefix ''ts,'') (rev ls))"
proof (induction ls rule: rev_induct)
  case Nil
  show ?case by (simp add: load_lines_def)
next
  case (snoc l ls)
  then show ?case by (auto simp: load_lines_snoc load_line_def Let_def split: prod.splits)
qed

section \<open>The last file\<close>

definition day_bound :: "logs \<Rightarrow> day \<Rightarrow> bool" where
  "day_bound logs d = (distinct (dict_keys logs) \<and> (\<forall>e \<in> set (dict_keys logs). e \<le> d))"

lemma sort_last:
  assumes "distinct (dict_keys logs)" "\<forall>e \<in> set (dict_keys logs). e \<le> d" "dict_get logs d = Some v"
  shows "sort_key fst logs = sort_key fst (dict_pop logs d) @ [(d, v)]"
proof (rule sort_key_inj_key_eq)
  have split: "mset logs = mset (dict_pop logs d) + {#(d, v)#}"
    using assms(1,3)
  proof (induction logs)
    case (Cons p logs)
    show ?case
    proof (cases "fst p = d")
      case True
      then have "d \<notin> set (dict_keys logs)" "snd p = v" using Cons.prems by (cases p; auto)+
      then show ?thesis using True by (cases p) simp
    next
      case False
      then show ?thesis using Cons by (cases p) auto
    qed
  qed simp
  then show "mset logs = mset (sort_key fst (dict_pop logs d) @ [(d, v)])" by simp
  show "inj_on fst (set logs)" using assms(1) by (simp add: distinct_map)
  show "sorted (map fst (sort_key fst (dict_pop logs d) @ [(d, v)]))"
    using assms(2) by (auto simp: sorted_append AList.delete_eq)
qed

lemma all_sessions_last:
  assumes "day_bound logs d"
  shows "all_sessions logs = fold join_session (load_sessions d (file_lines logs d)) (all_sessions (dict_pop logs d))"
proof (cases "dict_get logs d")
  case None
  then have "d \<notin> set (dict_keys logs)" by (simp add: dict_get_None_iff)
  then have "dict_pop logs d = logs" by simp
  then show ?thesis using None by (simp add: file_lines_def load_sessions_def load_lines_def)
next
  case (Some v)
  have "sort_key fst logs = sort_key fst (dict_pop logs d) @ [(d, v)]"
    using assms Some unfolding day_bound_def by (intro sort_last) blast+
  then show ?thesis using Some by (simp add: all_sessions_def file_lines_def)
qed

text \<open>One more line in the last file.\<close>

lemma day_bound_append: "day_bound logs d \<Longrightarrow> day_bound (append_line d l logs) d"
  by (auto simp: day_bound_def append_line_def dict_keys_set)

lemma file_lines_append: "file_lines (append_line d l logs) e = (if e = d then file_lines logs d @ [l] else file_lines logs e)"
  by (simp add: file_lines_def append_line_def)

lemma all_sessions_append:
  assumes "day_bound logs d"
  shows "all_sessions (append_line d l logs) =
    fold join_session (snd (load_line d l (load_lines d (file_lines logs d)))) (all_sessions (dict_pop logs d))"
proof -
  have "dict_pop (append_line d l logs) d = dict_pop logs d" by (simp add: append_line_def delete_update_same)
  then show ?thesis using all_sessions_last [OF day_bound_append [OF assms], of l]
    by (simp add: file_lines_append load_sessions_def load_lines_snoc)
qed

text \<open>What each kind of line does to the summaries.\<close>

lemma summaries_effect:
  assumes "day_bound logs d" "snd (load_line d l (load_lines d (file_lines logs d))) = on_last f (snd (load_lines d (file_lines logs d)))"
    and "\<And>s. s = last (snd (load_lines d (file_lines logs d))) \<Longrightarrow> snd (load_lines d (file_lines logs d)) \<noteq> [] \<Longrightarrow>
      se_start (f s) = se_start s \<and> se_implicit (f s) = se_implicit s \<and>
      rows_of (se_segments (f s)) = rows_of (se_segments s) @ r \<and> se_clean (f s) = c (se_clean s)"
    and "snd (load_lines d (file_lines logs d)) = [] \<Longrightarrow> r = [] \<and> c = (\<lambda>b. b)"
  shows "summaries (append_line d l logs) = on_last (\<lambda>(a, b, rs). (a, c b, rs @ r)) (summaries logs)"
proof -
  define ss where "ss = snd (load_lines d (file_lines logs d))"
  have new: "all_sessions (append_line d l logs) = fold join_session (on_last f ss) (all_sessions (dict_pop logs d))"
    using all_sessions_append [OF assms(1)] assms(2) by (simp add: ss_def)
  have old: "all_sessions logs = fold join_session ss (all_sessions (dict_pop logs d))"
    using all_sessions_last [OF assms(1)] by (simp add: ss_def load_sessions_def)
  show ?thesis
  proof (cases "ss = []")
    case True
    then show ?thesis using new old assms(4) ss_def by (simp add: summaries_def on_last_id split_beta)
  next
    case False
    have f: "se_start (f (last ss)) = se_start (last ss) \<and> se_implicit (f (last ss)) = se_implicit (last ss) \<and>
      rows_of (se_segments (f (last ss))) = rows_of (se_segments (last ss)) @ r \<and> se_clean (f (last ss)) = c (se_clean (last ss))"
      using assms(3) [of "last ss"] False ss_def by simp
    then show ?thesis using fold_join_effect [where f = f and c = c and r = r, OF False] new old
      by (simp add: summaries_def)
  qed
qed

definition header_text :: "string list \<Rightarrow> bool" where
  "header_text header = (header \<noteq> [] \<and> prefix ''ts,'' (header_line header) \<and> (\<forall>f \<in> set header. comma \<notin> set f))"

lemma split_header: "header_text header \<Longrightarrow> split_char comma (header_line header) = header"
  by (simp add: header_text_def header_line_def split_join)

lemma header_effect:
  assumes "day_bound logs d" "header_text header"
  shows "summaries (append_line d (header_line header) logs) = summaries logs"
    "fst (load_lines d (file_lines (append_line d (header_line header) logs) d)) = Some header"
    "snd (load_lines d (file_lines (append_line d (header_line header) logs) d)) = [] \<longleftrightarrow> snd (load_lines d (file_lines logs d)) = []"
proof -
  have h: "prefix ''ts,'' (header_line header)" "header_line header \<noteq> []"
    using assms(2) by (auto simp: header_text_def)
  have l: "load_line d (header_line header) st =
      (Some header, on_last (\<lambda>s. s\<lparr>se_segments := se_segments s @ [(Some header, [])]\<rparr>) (snd st))" for st
    using h split_header [OF assms(2)] by (cases st) (simp add: load_line_def Let_def)
  show "summaries (append_line d (header_line header) logs) = summaries logs"
    using summaries_effect [OF assms(1), of "header_line header" _ "[]" "\<lambda>b. b"] l
    by (simp add: on_last_id split_beta)
  show "fst (load_lines d (file_lines (append_line d (header_line header) logs) d)) = Some header"
    "snd (load_lines d (file_lines (append_line d (header_line header) logs) d)) = [] \<longleftrightarrow> snd (load_lines d (file_lines logs d)) = []"
    using l by (simp_all add: file_lines_append load_lines_snoc)
qed

text \<open>A row as the sampler writes it: one field for each column, the first one a timestamp.\<close>

definition good_row :: "string list \<Rightarrow> string list \<Rightarrow> bool" where
  "good_row header row = (length row = length header \<and> (\<forall>f \<in> set row. comma \<notin> set f) \<and>
     (case row of (c # _) # _ \<Rightarrow> is_digit c | _ \<Rightarrow> False))"

lemma good_row_line:
  assumes "good_row header row"
  shows "\<exists>c cs. py_join [comma] row = c # cs \<and> is_digit c" "split_char comma (py_join [comma] row) = row"
proof -
  show "\<exists>c cs. py_join [comma] row = c # cs \<and> is_digit c"
    using assms by (cases row rule: remdups_adj.cases) (auto simp: good_row_def split: list.splits)
  show "split_char comma (py_join [comma] row) = row"
    using assms by (intro split_join) (auto simp: good_row_def split: list.splits)
qed

lemma load_row:
  assumes "good_row header row" "ss \<noteq> []" "fst (last (se_segments (last ss))) = Some header"
  shows "load_line d (py_join [comma] row) (h, ss) =
    (h, on_last (\<lambda>s. s\<lparr>se_segments := on_last (\<lambda>(h, rows). (h, rows @ [row])) (se_segments s)\<rparr>) ss)"
proof -
  obtain c cs where line: "py_join [comma] row = c # cs" "is_digit c" using good_row_line(1) [OF assms(1)] by blast
  have "c \<noteq> CHR ''#''" "c \<noteq> CHR ''t''" using line(2) by (auto simp: is_digit_def)
  moreover have "length row = length header" using assms(1) by (simp add: good_row_def)
  ultimately show ?thesis using assms(2,3) good_row_line(2) [OF assms(1)]
    by (cases ss rule: rev_cases) (simp_all add: load_line_def line add_fields_def Let_def)
qed

lemma row_effect:
  assumes "day_bound logs d" "good_row header row" "load_lines d (file_lines logs d) = (Some header, ss)" "ss \<noteq> []"
  shows "summaries (append_line d (py_join [comma] row) logs) =
      on_last (\<lambda>(a, b, rs). (a, b, rs @ [(Some header, row)])) (summaries logs)"
    "\<exists>ss'. load_lines d (file_lines (append_line d (py_join [comma] row) logs) d) = (Some header, ss') \<and> ss' \<noteq> []"
proof -
  have seg: "se_segments (last ss) \<noteq> []" "fst (last (se_segments (last ss))) = Some header"
    using load_lines_ok [of d "file_lines logs d"] assms(3,4) by (simp_all add: loading_ok_def)
  note load = load_row [OF assms(2,4) seg(2), of d]
  show "summaries (append_line d (py_join [comma] row) logs) =
      on_last (\<lambda>(a, b, rs). (a, b, rs @ [(Some header, row)])) (summaries logs)"
    by (rule summaries_effect [OF assms(1), where c = "\<lambda>b. b"
          and f = "\<lambda>s. s\<lparr>se_segments := on_last (\<lambda>(h, rows). (h, rows @ [row])) (se_segments s)\<rparr>"])
      (simp_all add: assms(3,4) load rows_of_add seg)
  show "\<exists>ss'. load_lines d (file_lines (append_line d (py_join [comma] row) logs) d) = (Some header, ss') \<and> ss' \<noteq> []"
    using load assms(3,4) by (simp add: file_lines_append load_lines_snoc)
qed

lemma rollover_effect:
  assumes "day_bound logs d"
  shows "summaries (append_line d (''#ROLLOVER ts='' @ ts) logs) = summaries logs"
proof -
  have "load_line d (''#ROLLOVER ts='' @ ts) st = (fst st, on_last (\<lambda>s. s\<lparr>se_rolled := True\<rparr>) (snd st))" for st
    by (cases st) (simp add: load_line_def)
  then show ?thesis using summaries_effect [OF assms, of "''#ROLLOVER ts='' @ ts" _ "[]" "\<lambda>b. b"]
    by (simp add: on_last_id split_beta)
qed

lemma clean_effect:
  assumes "day_bound logs d" "snd (load_lines d (file_lines logs d)) \<noteq> []"
  shows "summaries (append_line d (''#CLEAN_STOP ts='' @ ts) logs) = on_last (\<lambda>(a, b, rs). (a, True, rs)) (summaries logs)"
proof -
  have "load_line d (''#CLEAN_STOP ts='' @ ts) st =
      (fst st, on_last (\<lambda>s. s\<lparr>se_clean := True, se_stop := Some (''#CLEAN_STOP ts='' @ ts)\<rparr>) (snd st))" for st
    by (cases st) (simp add: load_line_def)
  then show ?thesis using summaries_effect [OF assms(1), of "''#CLEAN_STOP ts='' @ ts" _ "[]" "\<lambda>b. True"] assms(2) by simp
qed

lemma boot_effect:
  assumes "day_bound logs d" "prefix ''#BOOT_START'' line"
  shows "summaries (append_line d line logs) =
      (if summaries logs \<noteq> [] \<and> str_in ''resumed=1'' line then on_last (\<lambda>(a, b, rs). (a, False, rs)) (summaries logs)
       else summaries logs @ [(line, False, [])])"
    "\<exists>ss. load_lines d (file_lines (append_line d line logs) d) = (fst (load_lines d (file_lines logs d)), ss) \<and> ss \<noteq> []"
proof -
  obtain h ss where st: "load_lines d (file_lines logs d) = (h, ss)" by (cases "load_lines d (file_lines logs d)")
  have "line \<noteq> []" "\<not> prefix ''ts,'' line" using assms(2) by (auto simp: prefix_def)
  then have load: "load_line d line (h, ss) = (h, ss @ [new_session d line h False])"
    using assms(2) by (simp add: load_line_def)
  have "all_sessions (append_line d line logs) = join_session (new_session d line h False) (all_sessions logs)"
    using all_sessions_append [OF assms(1), of line] all_sessions_last [OF assms(1)] st load
    by (simp add: load_sessions_def)
  then show "summaries (append_line d line logs) =
      (if summaries logs \<noteq> [] \<and> str_in ''resumed=1'' line then on_last (\<lambda>(a, b, rs). (a, False, rs)) (summaries logs)
       else summaries logs @ [(line, False, [])])"
    by (cases "all_sessions logs" rule: rev_cases)
      (auto simp: summaries_def join_session_def continues_def new_session_def summary_def)
  show "\<exists>ss. load_lines d (file_lines (append_line d line logs) d) = (fst (load_lines d (file_lines logs d)), ss) \<and> ss \<noteq> []"
    using st load by (simp add: file_lines_append load_lines_snoc)
qed

section \<open>The verdict on the last file\<close>

definition verdict_of :: "string list \<Rightarrow> string option \<times> string option \<times> string option" where
  "verdict_of ls = fold verdict_line ls (None, None, None)"

text \<open>The last session of the file has been opened, and not closed.\<close>

definition verdict_open :: "string list \<Rightarrow> bool" where
  "verdict_open ls = (fst (verdict_of ls) \<noteq> None \<and> fst (snd (verdict_of ls)) = None)"

lemma verdict_snoc: "verdict_of (ls @ [l]) = verdict_line l (verdict_of ls)"
  by (simp add: verdict_of_def)

lemma verdict_open_boot: "prefix ''#BOOT_START'' l \<Longrightarrow> verdict_open (ls @ [l])"
  by (simp add: verdict_open_def verdict_snoc verdict_line_def split_beta)

lemma verdict_open_row: "good_row header row \<Longrightarrow> verdict_open ls \<Longrightarrow> verdict_open (ls @ [py_join [comma] row])"
proof -
  assume row: "good_row header row" and start: "verdict_open ls"
  obtain c cs where line: "py_join [comma] row = c # cs" "is_digit c" using good_row_line(1) [OF row] by blast
  have "c \<noteq> CHR ''#''" "c \<noteq> CHR ''t''" using line(2) by (auto simp: is_digit_def)
  then show ?thesis using start by (simp add: verdict_open_def verdict_snoc verdict_line_def split_beta line)
qed

lemma verdict_closed: "verdict_open ls \<Longrightarrow> fst (verdict_of (ls @ [''#CLEAN_STOP ts='' @ ts])) \<noteq> None \<and>
    fst (snd (verdict_of (ls @ [''#CLEAN_STOP ts='' @ ts]))) \<noteq> None"
  by (simp add: verdict_open_def verdict_snoc verdict_line_def split_beta)

text \<open>The newest file decides as soon as a session begins in it.\<close>

lemma verdict_last_file:
  assumes "day_bound logs d" "fst (verdict_of (file_lines logs d)) \<noteq> None"
  shows "previous_session_verdict logs = None \<longleftrightarrow> fst (snd (verdict_of (file_lines logs d))) \<noteq> None"
proof (cases "dict_get logs d")
  case None
  then show ?thesis using assms(2) by (simp add: file_lines_def verdict_of_def)
next
  case (Some ls)
  have "sort_key fst logs = sort_key fst (dict_pop logs d) @ [(d, ls)]"
    using assms(1) Some unfolding day_bound_def by (intro sort_last) blast+
  then show ?thesis using assms(2) Some
    by (auto simp: previous_session_verdict_def file_lines_def verdict_of_def split: prod.splits option.splits)
qed

section \<open>A session under way\<close>

text \<open>The writer is in the last file, whose last session is the one it writes, below its header.\<close>

definition under_way :: "string list \<Rightarrow> string \<Rightarrow> writer \<times> logs \<Rightarrow> bool" where
  "under_way header boot st = (case st of (w, logs) \<Rightarrow>
     wr_open w \<and> wr_header w = header \<and> wr_session w = Some boot \<and> day_bound logs (wr_day w) \<and>
     (\<exists>ss. load_lines (wr_day w) (file_lines logs (wr_day w)) = (Some header, ss) \<and> ss \<noteq> []) \<and>
     (\<exists>pre rs. summaries logs = pre @ [(boot, False, rs)]) \<and> verdict_open (file_lines logs (wr_day w)))"

lemma prune_none: "\<forall>d \<in> set (dict_keys logs). today \<le> d + retention \<Longrightarrow> prune retention today logs = logs"
  by (auto simp: prune_def filter_id_conv)

lemma keys_append: "fst ` set (append_line d l logs) = insert d (fst ` set logs)"
proof -
  have "set (dict_keys (append_line d l logs)) = insert d (set (dict_keys logs))"
    by (auto simp: append_line_def dict_keys_set)
  then show ?thesis by simp
qed

text \<open>Rolling over changes nothing that is read.\<close>

lemma roll_effect:
  assumes "under_way header boot (w, logs)" "header_text header" "prefix ''#BOOT_START'' boot"
    and "wr_day w < today" "\<forall>d \<in> set (dict_keys logs). today \<le> d + retention"
    and roll: "roll retention today ts (w, logs) = (w', logs')"
  shows "under_way header boot (w', logs')" "wr_day w' = today" "summaries logs' = summaries logs"
    "set (dict_keys logs') = insert (wr_day w) (insert today (set (dict_keys logs)))"
proof -
  define l1 where "l1 = append_line (wr_day w) (''#ROLLOVER ts='' @ ts) logs"
  define l2 where "l2 = append_line today (header_line header) l1"
  define l3 where "l3 = append_line today (boot @ '' resumed=1'') l2"
  have w: "wr_open w" "wr_header w = header" "wr_session w = Some boot" "day_bound logs (wr_day w)"
    using assms(1) by (simp_all add: under_way_def)
  obtain pre rs where sums: "summaries logs = pre @ [(boot, False, rs)]" using assms(1) by (auto simp: under_way_def)
  have "today \<notin> set (dict_keys l1)" using w(4) assms(4) by (auto simp: l1_def keys_append day_bound_def)
  then have fresh: "file_lines l1 today = []" by (simp add: file_lines_def dict_get_None_iff [THEN iffD2])
  have "file_lines logs (wr_day w) \<noteq> []" using assms(1) by (auto simp: under_way_def load_lines_def)
  then have "wr_day w \<in> fst ` set logs"
    using dict_get_None_iff [of logs "wr_day w"] by (cases "dict_get logs (wr_day w)") (simp_all add: file_lines_def)
  then have "prune retention today l2 = l2"
    using assms(5) by (intro prune_none) (auto simp: l2_def l1_def keys_append)
  moreover have "roll retention today ts (w, logs) =
      (w\<lparr>wr_open := True, wr_day := today\<rparr>, append_line today (boot @ '' resumed=1'') (prune retention today l2))"
    using fresh by (simp add: roll_def w l1_def l2_def Let_def)
  ultimately have eq: "w' = w\<lparr>wr_open := True, wr_day := today\<rparr>" "logs' = l3"
    using roll by (simp_all add: l3_def)
  have b1: "day_bound l1 (wr_day w)" unfolding l1_def by (rule day_bound_append [OF w(4)])
  then have b1': "day_bound l1 today" using assms(4) by (auto simp: day_bound_def)
  note head = header_effect [OF b1' assms(2), folded l2_def]
  have b2: "day_bound l2 today" unfolding l2_def by (rule day_bound_append [OF b1'])
  have boot: "prefix ''#BOOT_START'' (boot @ '' resumed=1'')" using assms(3) prefix_prefix by blast
  note resume = boot_effect [OF b2 boot, folded l3_def]
  have s2: "summaries l2 = summaries logs" using head(1) rollover_effect [OF w(4), of ts] by (simp add: l1_def)
  have "str_in ''resumed=1'' (boot @ '' resumed=1'')"
    using str_in_def sublist_append_leftI [of "''resumed=1''" "boot @ '' ''"] by simp
  then show s3: "summaries logs' = summaries logs" using resume(1) s2 sums eq(2) by simp
  show "wr_day w' = today" using eq(1) by simp
  show "set (dict_keys logs') = insert (wr_day w) (insert today (set (dict_keys logs)))"
    by (auto simp: eq(2) l3_def l2_def l1_def keys_append)
  show "under_way header boot (w', logs')"
    using resume(2) head(2) s3 sums eq day_bound_append [OF b2] w verdict_open_boot [OF boot]
    by (simp add: under_way_def l3_def file_lines_append)
qed

lemma write_effect:
  assumes "under_way header boot (w, logs)" "header_text header" "prefix ''#BOOT_START'' boot"
    and "wr_day w \<le> today" "\<forall>d \<in> set (dict_keys logs). today \<le> d + retention"
    and "writer_write retention (today, ts) text (w, logs) = (w', logs')"
  shows "\<exists>w1 logs1. under_way header boot (w1, logs1) \<and> summaries logs1 = summaries logs \<and> wr_day w1 = today \<and>
    set (dict_keys logs1) \<subseteq> insert (wr_day w) (insert today (set (dict_keys logs))) \<and> w' = w1 \<and> logs' = append_line today text logs1"
proof (cases "today = wr_day w")
  case True
  then have "w' = w" "logs' = append_line today text logs" using assms(1,6) by (auto simp: writer_write_def under_way_def)
  then show ?thesis using assms(1) True by blast
next
  case False
  obtain w1 logs1 where roll: "roll retention today ts (w, logs) = (w1, logs1)" by (cases "roll retention today ts (w, logs)")
  note r = roll_effect [OF assms(1-3) _ assms(5) roll]
  have less: "wr_day w < today" using False assms(4) by simp
  have "w' = w1" "logs' = append_line today text logs1"
    using assms(1,6) False roll r(2) [OF less] by (auto simp: writer_write_def under_way_def)
  then show ?thesis using r [OF less] by blast
qed

lemma write_row_effect:
  assumes "under_way header boot (w, logs)" "header_text header" "prefix ''#BOOT_START'' boot" "good_row header row"
    and "wr_day w \<le> today" "\<forall>d \<in> set (dict_keys logs). today \<le> d + retention"
    and "writer_write retention (today, ts) (py_join [comma] row) (w, logs) = (w', logs')"
  shows "under_way header boot (w', logs')" "wr_day w' = today"
    "summaries logs' = on_last (\<lambda>(a, b, rs). (a, b, rs @ [(Some header, row)])) (summaries logs)"
    "set (dict_keys logs') \<subseteq> insert (wr_day w) (insert today (set (dict_keys logs)))"
proof -
  obtain logs1 where w1: "under_way header boot (w', logs1)" "summaries logs1 = summaries logs" "wr_day w' = today"
    "set (dict_keys logs1) \<subseteq> insert (wr_day w) (insert today (set (dict_keys logs)))"
    "logs' = append_line today (py_join [comma] row) logs1"
    using write_effect [OF assms(1-3) assms(5-7)] by blast
  obtain ss where ss: "day_bound logs1 today" "load_lines today (file_lines logs1 today) = (Some header, ss)" "ss \<noteq> []"
    using w1(1,3) by (auto simp: under_way_def)
  note row = row_effect [OF ss(1) assms(4) ss(2,3), folded w1(5)]
  show "wr_day w' = today" by (rule w1(3))
  show s: "summaries logs' = on_last (\<lambda>(a, b, rs). (a, b, rs @ [(Some header, row)])) (summaries logs)"
    using row(1) w1(2) by simp
  show "set (dict_keys logs') \<subseteq> insert (wr_day w) (insert today (set (dict_keys logs)))"
    using w1(4) by (simp add: w1(5) keys_append)
  obtain pre rs where "summaries logs = pre @ [(boot, False, rs)]" using assms(1) by (auto simp: under_way_def)
  then have "summaries logs' = pre @ [(boot, False, rs @ [(Some header, row)])]" using s by simp
  then show "under_way header boot (w', logs')"
    using w1(1,3) row(2) day_bound_append [OF ss(1)] verdict_open_row [OF assms(4)]
    by (auto simp: under_way_def w1(5) file_lines_append)
qed

text \<open>The clock of a run does not run backwards, and no file of it has to go.\<close>

definition in_order :: "nat \<Rightarrow> day set \<Rightarrow> day list \<Rightarrow> bool" where
  "in_order retention days ds = (sorted ds \<and> ds \<noteq> [] \<and> (\<forall>d \<in> days. d \<le> hd ds) \<and> (\<forall>d \<in> insert (hd ds) days. last ds \<le> d + retention))"

lemma write_rows_effect:
  assumes "under_way header boot (w, logs)" "header_text header" "prefix ''#BOOT_START'' boot"
    and "sorted (wr_day w # map (fst \<circ> fst) rows)" "list_all (good_row header \<circ> snd) rows"
    and "\<forall>e \<in> insert (wr_day w) (set (dict_keys logs)). limit \<le> e + retention"
    and "last (wr_day w # map (fst \<circ> fst) rows) \<le> limit"
  shows "\<exists>w' logs'. write_rows retention rows (w, logs) = (w', logs') \<and> under_way header boot (w', logs') \<and>
    wr_day w' = last (wr_day w # map (fst \<circ> fst) rows) \<and>
    summaries logs' = on_last (\<lambda>(a, b, rs). (a, b, rs @ map (\<lambda>r. (Some header, snd r)) rows)) (summaries logs) \<and>
    (\<forall>e \<in> set (dict_keys logs'). limit \<le> e + retention)"
  using assms(1,4-7)
proof (induction rows arbitrary: w logs)
  case Nil
  then show ?case by (auto simp: write_rows_def on_last_id)
next
  case (Cons x rows)
  obtain today ts row where x: "x = ((today, ts), row)" by (metis surj_pair)
  let ?last = "last (today # map (fst \<circ> fst) rows)"
  have "?last \<in> set (today # map (fst \<circ> fst) rows)" by (rule last_in_set) simp
  moreover have last: "?last \<le> limit" using Cons.prems(5) by (simp add: x comp_def)
  ultimately have le: "wr_day w \<le> today" "today \<le> limit" using Cons.prems(2) by (auto simp: x)
  have far: "\<forall>e \<in> insert (wr_day w) (set (dict_keys logs)). limit \<le> e + retention" using Cons.prems(4) by (simp add: x comp_def)
  obtain w1 logs1 where one: "writer_write retention (today, ts) (py_join [comma] row) (w, logs) = (w1, logs1)"
    by (cases "writer_write retention (today, ts) (py_join [comma] row) (w, logs)")
  have "\<forall>e \<in> set (dict_keys logs). today \<le> e + retention" using far le(2) by fastforce
  note w1 = write_row_effect [OF Cons.prems(1) assms(2,3) _ le(1) this one]
  have row: "good_row header row" using Cons.prems(3) by (simp add: x)
  have far1: "\<forall>e \<in> insert (wr_day w1) (set (dict_keys logs1)). limit \<le> e + retention"
  proof
    fix e
    assume "e \<in> insert (wr_day w1) (set (dict_keys logs1))"
    then have "e = today \<or> e \<in> insert (wr_day w) (set (dict_keys logs))" using w1(2,4) [OF row] by auto
    then show "limit \<le> e + retention"
    proof
      assume "e = today"
      moreover have "limit \<le> wr_day w + retention" using far by simp
      ultimately show ?thesis using le(1) by linarith
    qed (use far in blast)
  qed
  have "sorted (wr_day w1 # map (fst \<circ> fst) rows)" "list_all (good_row header \<circ> snd) rows"
    using Cons.prems(2,3) w1(2) [OF row] by (simp_all add: x comp_def)
  from Cons.IH [OF w1(1) [OF row] this far1] last
  obtain w' logs' where rest: "write_rows retention rows (w1, logs1) = (w', logs')" "under_way header boot (w', logs')"
    "wr_day w' = ?last"
    "summaries logs' = on_last (\<lambda>(a, b, rs). (a, b, rs @ map (\<lambda>r. (Some header, snd r)) rows)) (summaries logs1)"
    "\<forall>e \<in> set (dict_keys logs'). limit \<le> e + retention"
    unfolding w1(2) [OF row] by blast
  have "write_rows retention (x # rows) (w, logs) = (w', logs')"
    using rest(1) by (simp add: write_rows_def x one)
  moreover have "summaries logs' = on_last (\<lambda>(a, b, rs). (a, b, rs @ map (\<lambda>r. (Some header, snd r)) (x # rows))) (summaries logs)"
    using rest(4) w1(3) [OF row] by (cases "summaries logs" rule: rev_cases) (auto simp: x)
  ultimately show ?case using rest(2,3,5) by (auto simp: x comp_def)
qed

lemma sorted_le_last: "sorted xs \<Longrightarrow> x \<in> set xs \<Longrightarrow> x \<le> last (xs :: nat list)"
  by (induction xs) auto

lemma header_matches_load:
  assumes "header_matches header ls" "header_text header"
  shows "fst (load_lines d ls) = Some header"
  using assms by (simp add: load_header header_matches_def split_header)

text \<open>The opening line, under the header of the session whether that was there or not.\<close>

lemma start_effect:
  assumes "header_text header" "prefix ''#BOOT_START'' boot" "\<not> str_in ''resumed=1'' boot"
    and "day_bound logs today" "\<forall>d \<in> set (dict_keys logs). today \<le> d + retention"
    and start: "start_session retention (today, ts) boot (writer_init header, logs) = (w, logs')"
  shows "under_way header boot (w, logs')" "wr_day w = today" "summaries logs' = summaries logs @ [(boot, False, [])]"
    "fst ` set logs' = insert today (fst ` set logs)"
proof -
  define l1 where "l1 = (if file_lines logs today = [] \<or> \<not> header_matches header (file_lines logs today)
    then append_line today (header_line header) logs else logs)"
  have keys: "insert today (fst ` set l1) = insert today (fst ` set logs)" by (simp add: l1_def keys_append)
  have "today \<le> e + retention" if "e \<in> fst ` set l1" for e
  proof -
    have "e = today \<or> e \<in> fst ` set logs" using that by (simp add: l1_def keys_append split: if_splits)
    then show ?thesis using assms(5) by auto
  qed
  then have "prune retention today l1 = l1" by (intro prune_none) simp
  then have eq: "w = \<lparr>wr_header = header, wr_day = today, wr_open = True, wr_session = Some boot\<rparr>" "logs' = append_line today boot l1"
    using start by (auto simp: start_session_def writer_write_def writer_init_def roll_def Let_def l1_def split: if_splits)
  have b1: "day_bound l1 today" using assms(4) day_bound_append by (simp add: l1_def)
  have head: "summaries l1 = summaries logs" "fst (load_lines today (file_lines l1 today)) = Some header"
    using header_effect(1,2) [OF assms(4,1)] header_matches_load [OF _ assms(1)] by (auto simp: l1_def)
  note boot = boot_effect [OF b1 assms(2), folded eq(2)]
  show s: "summaries logs' = summaries logs @ [(boot, False, [])]" using boot(1) head(1) assms(3) by simp
  show "wr_day w = today" by (simp add: eq)
  show "fst ` set logs' = insert today (fst ` set logs)" using keys by (simp add: eq keys_append)
  show "under_way header boot (w, logs')"
    using boot(2) head(2) s day_bound_append [OF b1] verdict_open_boot [OF assms(2)]
    by (auto simp: under_way_def eq file_lines_append)
qed

text \<open>A whole run.\<close>

lemma sampler_run_effect:
  assumes "header_text header" "prefix ''#BOOT_START'' boot" "\<not> str_in ''resumed=1'' boot" "list_all (good_row header \<circ> snd) rows"
    and "distinct (dict_keys logs)"
    and "in_order retention (set (dict_keys logs)) (fst now # map (fst \<circ> fst) rows @ (case stop of None \<Rightarrow> [] | Some t \<Rightarrow> [fst t]))"
  shows "summaries (sampler_run retention header now boot rows stop logs) =
    summaries logs @ [(boot, stop \<noteq> None, map (\<lambda>r. (Some header, snd r)) rows)] \<and>
    (previous_session_verdict (sampler_run retention header now boot rows stop logs) = None \<longleftrightarrow> stop \<noteq> None)"
proof -
  obtain today ts where now: "now = (today, ts)" by (cases now)
  define more where "more = (case stop of None \<Rightarrow> [] | Some t \<Rightarrow> [fst t :: day])"
  let ?days = "today # map (fst \<circ> fst) rows @ more" and ?last = "last (today # map (fst \<circ> fst) rows)"
  have order: "sorted ?days" "\<forall>d \<in> set (dict_keys logs). d \<le> today" "\<forall>d \<in> insert today (set (dict_keys logs)). last ?days \<le> d + retention"
    using assms(6) by (simp_all add: in_order_def now more_def)
  have "?last \<in> set (today # map (fst \<circ> fst) rows)" by (rule last_in_set) simp
  then have "?last \<in> set ?days" by (metis UnI1 append_Cons set_append)
  then have mono: "today \<le> last ?days" "?last \<le> last ?days" using sorted_le_last [OF order(1)] by (meson list.set_intros(1))+
  have sorted: "sorted (today # map (fst \<circ> fst) rows)" using order(1) by (auto simp: sorted_append)
  have bound: "day_bound logs today" using assms(5) order(2) by (simp add: day_bound_def)
  have kept: "\<forall>d \<in> set (dict_keys logs). today \<le> d + retention" using order(3) mono(1) by (meson insertI2 order.trans)
  obtain w l1 where start: "start_session retention (today, ts) boot (writer_init header, logs) = (w, l1)"
    by (cases "start_session retention (today, ts) boot (writer_init header, logs)")
  note s = start_effect [OF assms(1-3) bound kept start]
  have far: "\<forall>e \<in> insert (wr_day w) (set (dict_keys l1)). last ?days \<le> e + retention"
    using order(3) s(2,4) by simp
  obtain w' l2 where rows: "write_rows retention rows (w, l1) = (w', l2)" "under_way header boot (w', l2)" "wr_day w' = ?last"
    "summaries l2 = on_last (\<lambda>(a, b, rs). (a, b, rs @ map (\<lambda>r. (Some header, snd r)) rows)) (summaries l1)"
    "\<forall>e \<in> set (dict_keys l2). last ?days \<le> e + retention"
    using write_rows_effect [OF s(1) assms(1,2) _ assms(4) far] mono(2) sorted unfolding s(2) by blast
  have sums: "summaries l2 = summaries logs @ [(boot, False, map (\<lambda>r. (Some header, snd r)) rows)]"
    using rows(4) s(3) by simp
  show ?thesis
  proof (cases stop)
    case None
    have "previous_session_verdict l2 \<noteq> None"
      using rows(2) verdict_last_file [of l2 "wr_day w'"] by (auto simp: under_way_def verdict_open_def)
    then show ?thesis using sums start rows(1) None by (simp add: sampler_run_def now Let_def)
  next
    case (Some t)
    obtain d ts' where t: "t = (d, ts')" by (cases t)
    obtain w3 l3 where last: "writer_write retention (d, ts') (''#CLEAN_STOP ts='' @ ts') (w', l2) = (w3, l3)"
      by (cases "writer_write retention (d, ts') (''#CLEAN_STOP ts='' @ ts') (w', l2)")
    have "wr_day w' \<le> d" "last ?days = d" using order(1) rows(3) last_in_set [of "today # map (fst \<circ> fst) rows"]
      by (auto simp: more_def Some t sorted_append)
    then obtain l where l: "under_way header boot (w3, l)" "summaries l = summaries l2" "wr_day w3 = d"
      "l3 = append_line d (''#CLEAN_STOP ts='' @ ts') l"
      using write_effect [OF rows(2) assms(1,2) _ _ last] rows(5) by blast
    have "day_bound l d" "snd (load_lines d (file_lines l d)) \<noteq> []" using l(1,3) by (auto simp: under_way_def)
    from clean_effect [OF this, of ts'] have "summaries l3 = summaries logs @ [(boot, True, map (\<lambda>r. (Some header, snd r)) rows)]"
      using l(2,4) sums by simp
    moreover have "previous_session_verdict l3 = None"
    proof -
      have "verdict_open (file_lines l d)" using l(1,3) by (simp add: under_way_def)
      from verdict_closed [OF this, of ts'] show ?thesis
        using verdict_last_file [OF day_bound_append [OF \<open>day_bound l d\<close>, of "''#CLEAN_STOP ts='' @ ts'"]]
        by (simp add: l(4) file_lines_append)
    qed
    ultimately show ?thesis using start rows(1) last by (simp add: sampler_run_def now Let_def Some t close_def)
  qed
qed

text \<open>C18: what the sampler writes is what the report reads.  For any logs before, any rows of the width of
  the header and any number of midnights between them, the sessions read afterwards are those read
  before and one more: with the sampler's opening line, exactly its rows in order, each under the
  sampler's header, and closed exactly if the sampler was stopped.\<close>

theorem forensics_roundtrip:
  assumes "header_text header" "prefix ''#BOOT_START'' boot" "\<not> str_in ''resumed=1'' boot" "list_all (good_row header \<circ> snd) rows"
    and "distinct (dict_keys logs)"
    and "in_order retention (set (dict_keys logs)) (fst now # map (fst \<circ> fst) rows @ (case stop of None \<Rightarrow> [] | Some t \<Rightarrow> [fst t]))"
  shows "summaries (sampler_run retention header now boot rows stop logs) =
    summaries logs @ [(boot, stop \<noteq> None, map (\<lambda>r. (Some header, snd r)) rows)]"
  using sampler_run_effect [OF assms] by blast

definition example_logs :: logs where
  "example_logs = [(5, [''ts,gpu_c'', ''#BOOT_START pid=1'', ''1,40''])]"

definition example_rows :: "((day \<times> string) \<times> string list) list" where
  "example_rows = [((5, ''2''), [''2'', ''50'', ''9'']), ((7, ''3''), [''3'', ''60'', ''''])]"

lemma example_run:
  "header_text [''ts'', ''gpu_c'', ''gpu_w'']" "prefix ''#BOOT_START'' ''#BOOT_START pid=2''"
  "\<not> str_in ''resumed=1'' ''#BOOT_START pid=2''"
  "list_all (good_row [''ts'', ''gpu_c'', ''gpu_w''] \<circ> snd) example_rows"
  "distinct (dict_keys example_logs)"
  "in_order 21 (set (dict_keys example_logs)) (fst (5, ''2'') # map (fst \<circ> fst) example_rows
     @ (case Some (8, ''4'') of None \<Rightarrow> [] | Some t \<Rightarrow> [fst t]))"
  by (simp_all add: header_text_def header_line_def good_row_def is_digit_def example_logs_def example_rows_def in_order_def
      str_in_def sublist_Cons_right)

theorem forensics_roundtrip_witness:
  "summaries (sampler_run 21 [''ts'', ''gpu_c'', ''gpu_w''] (5, ''2'') ''#BOOT_START pid=2'' example_rows (Some (8, ''4'')) example_logs) =
   [(''#BOOT_START pid=1'', False, [(Some [''ts'', ''gpu_c''], [''1'', ''40''])]),
    (''#BOOT_START pid=2'', True, [(Some [''ts'', ''gpu_c'', ''gpu_w''], [''2'', ''50'', ''9'']), (Some [''ts'', ''gpu_c'', ''gpu_w''], [''3'', ''60'', ''''])])]"
proof -
  have "summaries example_logs = [(''#BOOT_START pid=1'', False, [(Some [''ts'', ''gpu_c''], [''1'', ''40''])])]"
    by (simp add: summaries_def all_sessions_def example_logs_def load_sessions_def load_lines_def load_line_def new_session_def Let_def
        add_fields_def join_session_def summary_def on_last_def)
  then show ?thesis using forensics_roundtrip [OF example_run] by (simp add: example_rows_def)
qed

text \<open>C30: the two programs agree.  After a run, the sampler that starts next finds the previous session
  unclosed exactly if the report counts the last session as unclosed, wherever midnight fell.\<close>

theorem verdict_agrees:
  assumes "header_text header" "prefix ''#BOOT_START'' boot" "\<not> str_in ''resumed=1'' boot" "list_all (good_row header \<circ> snd) rows"
    and "distinct (dict_keys logs)"
    and "in_order retention (set (dict_keys logs)) (fst now # map (fst \<circ> fst) rows @ (case stop of None \<Rightarrow> [] | Some t \<Rightarrow> [fst t]))"
  shows "previous_session_verdict (sampler_run retention header now boot rows stop logs) \<noteq> None \<longleftrightarrow>
    \<not> se_clean (last (all_sessions (sampler_run retention header now boot rows stop logs)))"
proof -
  let ?logs = "sampler_run retention header now boot rows stop logs"
  note run = sampler_run_effect [OF assms]
  then obtain xs x where "all_sessions ?logs = xs @ [x]"
    by (cases "all_sessions ?logs" rule: rev_cases) (simp_all add: summaries_def)
  then show ?thesis using run by (simp add: summaries_def summary_def)
qed

theorem verdict_agrees_witness:
  "previous_session_verdict (sampler_run 21 [''ts'', ''gpu_c'', ''gpu_w''] (5, ''2'') ''#BOOT_START pid=2'' example_rows (Some (8, ''4'')) example_logs) \<noteq> None \<longleftrightarrow>
   \<not> se_clean (last (all_sessions (sampler_run 21 [''ts'', ''gpu_c'', ''gpu_w''] (5, ''2'') ''#BOOT_START pid=2'' example_rows (Some (8, ''4'')) example_logs)))"
  by (rule verdict_agrees [OF example_run])

end
