(* ===== verification/NodeSensors.thy ===== *)
theory NodeSensors
  imports ForensicsLog ThermalGuard VramMonitor
begin

text \<open>
  The samples of \<open>ops/node_forensics.py\<close>: what is read from \<open>/proc\<close>, \<open>/sys\<close> and the two programs it
  runs, and the row that is made of it.  The files are a parameter, one state of them for each
  sample.  Numbers are exact: a formatted number is the rational one rounded to the digits asked
  for, where Python rounds the nearest double.
\<close>

section \<open>Files and processes\<close>

text \<open>\<open>None\<close> is an \<open>OSError\<close>.\<close>

record sysfs =
  fs_text :: "string \<Rightarrow> string option"
  fs_list :: "string \<Rightarrow> string list option"
  fs_exists :: "string \<Rightarrow> bool"
  fs_realpath :: "string \<Rightarrow> string"

datatype proc = ProcTimeout | ProcError | ProcDone completed

definition read_text :: "sysfs \<Rightarrow> string \<Rightarrow> string option" where
  "read_text fs path = map_option py_strip (fs_text fs path)"

definition read_int :: "sysfs \<Rightarrow> string \<Rightarrow> rat \<Rightarrow> rat option" where
  "read_int fs path scale = (case read_text fs path of None \<Rightarrow> None
     | Some raw \<Rightarrow> (case py_int raw of Inl _ \<Rightarrow> None | Inr n \<Rightarrow> Some (of_int n / scale)))"

definition text_lines :: "string \<Rightarrow> string list" where
  "text_lines s = split_char (CHR 0x0A) s"

text \<open>The first line in the sense of \<open>splitlines\<close>.\<close>

definition line_break :: "char \<Rightarrow> bool" where
  "line_break c = (code c \<in> {10, 11, 12, 13, 28, 29, 30, 133})"

definition first_line :: "string \<Rightarrow> string" where
  "first_line s = takeWhile (\<lambda>c. \<not> line_break c) s"

definition read_aer :: "sysfs \<Rightarrow> string \<Rightarrow> (string, int) dict" where
  "read_aer fs path = (case fs_text fs path of None \<Rightarrow> []
     | Some s \<Rightarrow> fold (\<lambda>line out. case split_ws line of
           [k, v] \<Rightarrow> (case py_int v of Inl _ \<Rightarrow> out | Inr n \<Rightarrow> dict_set out k n)
         | _ \<Rightarrow> out) (text_lines s) [])"

section \<open>Numbers as text\<close>

definition half_even :: "rat \<Rightarrow> int" where
  "half_even q = (let f = \<lfloor>q\<rfloor>; r = q - of_int f in
     if r < 1 / 2 \<or> (r = 1 / 2 \<and> even f) then f else f + 1)"

definition pad_zeros :: "nat \<Rightarrow> string \<Rightarrow> string" where
  "pad_zeros n s = replicate (n - length s) (CHR ''0'') @ s"

definition show_fixed :: "nat \<Rightarrow> rat \<Rightarrow> string" where
  "show_fixed digits x =
     (let n = nat (half_even (\<bar>x\<bar> * 10 ^ digits)) in
      (if x < 0 then ''-'' else []) @ show_nat (n div 10 ^ digits) @
      (if digits = 0 then [] else ''.'' @ pad_zeros digits (show_nat (n mod 10 ^ digits))))"

definition fmt :: "rat option \<Rightarrow> nat \<Rightarrow> string" where
  "fmt value digits = (case value of None \<Rightarrow> [] | Some x \<Rightarrow> show_fixed digits x)"

section \<open>Which sensors there are\<close>

fun map_error :: "('a \<Rightarrow> 'e + 'b) \<Rightarrow> 'a list \<Rightarrow> 'e + 'b list" where
  "map_error f [] = Inr []"
| "map_error f (x # xs) = and_then (f x) (\<lambda>y. and_then (map_error f xs) (\<lambda>ys. Inr (y # ys)))"

text \<open>A zone whose number is no number raises out of \<open>sorted\<close>.\<close>

definition discover_thermal_zones :: "sysfs \<Rightarrow> exn + (string \<times> string) list" where
  "discover_thermal_zones fs = (case fs_list fs ''/sys/class/thermal'' of None \<Rightarrow> Inr []
     | Some entries \<Rightarrow>
         and_then (map_error (\<lambda>n. and_then (py_int (drop 12 n)) (\<lambda>k. Inr (k, n))) (filter (prefix ''thermal_zone'') entries))
           (\<lambda>names. Inr (map (\<lambda>(_, n). (''tz'' @ drop 12 n @ ''_c'', ''/sys/class/thermal/'' @ n @ ''/temp'')) (sort_key fst names))))"

definition count_char :: "char \<Rightarrow> string \<Rightarrow> nat" where
  "count_char c s = length (filter (\<lambda>x. x = c) s)"

definition pci_part :: "string \<Rightarrow> bool" where
  "pci_part p = (length p = 12 \<and> count_char (CHR '':'') p = 2 \<and> count_char (CHR ''.'') p = 1)"

definition hwmon_tag :: "string \<Rightarrow> string option \<Rightarrow> string" where
  "hwmon_tag chip pci = (case pci of None \<Rightarrow> chip
     | Some p \<Rightarrow> chip @ ''_'' @ map (\<lambda>c. if c = CHR '':'' \<or> c = CHR ''.'' then CHR ''_'' else c) p)"

definition hwmon_entry :: "sysfs \<Rightarrow> string \<Rightarrow> (string \<times> string) list" where
  "hwmon_entry fs entry =
     (let hpath = ''/sys/class/hwmon/'' @ entry;
          chip = (case read_text fs (hpath @ ''/name'') of None \<Rightarrow> entry | Some t \<Rightarrow> if t = [] then entry else t)
      in if chip = ''acpitz'' then []
         else let pci = find pci_part (rev (split_char (CHR ''/'') (fs_realpath fs (hpath @ ''/device''))))
         in case fs_list fs hpath of None \<Rightarrow> []
            | Some names \<Rightarrow>
                let inputs = sort (filter (\<lambda>n. prefix ''temp'' n \<and> suffix ''_input'' n) names) in
                concat (map (\<lambda>(idx, inp).
                  let tag = hwmon_tag chip pci; sfx = (if length inputs = 1 then [] else ''_'' @ show_nat idx);
                      highest = hpath @ ''/'' @ take (length inp - 6) inp @ ''_highest''
                  in (tag @ sfx @ ''_c'', hpath @ ''/'' @ inp) #
                     (if fs_exists fs highest then [(tag @ sfx @ ''_peak_c'', highest)] else []))
                  (enumerate 0 inputs)))"

definition discover_hwmon :: "sysfs \<Rightarrow> (string \<times> string) list" where
  "discover_hwmon fs = (case fs_list fs ''/sys/class/hwmon'' of None \<Rightarrow> []
     | Some entries \<Rightarrow> concat (map (hwmon_entry fs) (sort entries)))"

definition discover_aer_devices :: "sysfs \<Rightarrow> string list" where
  "discover_aer_devices fs = (case fs_list fs ''/sys/bus/pci/devices'' of None \<Rightarrow> []
     | Some entries \<Rightarrow> filter (\<lambda>n. fs_exists fs (''/sys/bus/pci/devices/'' @ n @ ''/aer_dev_correctable'')) (sort entries))"

section \<open>The readings\<close>

definition gpu_sample :: "proc \<Rightarrow> string list" where
  "gpu_sample out = (case out of ProcTimeout \<Rightarrow> replicate 5 ''TIMEOUT'' | ProcError \<Rightarrow> replicate 5 []
     | ProcDone p \<Rightarrow>
         if cp_returncode p \<noteq> 0 then replicate 5 ''ERR''
         else if py_strip (cp_stdout p) = [] then replicate 5 []
         else let vals = map py_strip (split_char comma (first_line (py_strip (cp_stdout p))));
                  vals = map (\<lambda>v. if v = ''[N/A]'' \<or> v = ''[Not Supported]'' then [] else v) vals
              in take 5 (vals @ replicate (5 - length vals) []))"

text \<open>\<open>PowerSampler\<close>: the extremes since the last sample.\<close>

record power_sampler =
  ps_lo :: "rat option"
  ps_hi :: "rat option"

definition power_init :: power_sampler where
  "power_init = \<lparr>ps_lo = None, ps_hi = None\<rparr>"

definition power_line :: "string \<Rightarrow> power_sampler \<Rightarrow> power_sampler" where
  "power_line line ps = (case parse_decimal (py_strip line) of None \<Rightarrow> ps
     | Some v \<Rightarrow>
         \<lparr>ps_lo = (case ps_lo ps of None \<Rightarrow> Some v | Some lo \<Rightarrow> if v < lo then Some v else Some lo),
          ps_hi = (case ps_hi ps of None \<Rightarrow> Some v | Some hi \<Rightarrow> if v > hi then Some v else Some hi)\<rparr>)"

definition power_take :: "power_sampler \<Rightarrow> (string \<times> string) \<times> power_sampler" where
  "power_take ps = ((fmt (ps_lo ps) 2, fmt (ps_hi ps) 2), power_init)"

text \<open>\<open>str.isdigit\<close> on Latin-1 accepts the superscripts too.\<close>

definition isdigit_char :: "char \<Rightarrow> bool" where
  "isdigit_char c = (is_digit c \<or> code c \<in> {178, 179, 185})"

definition cpuidle_state :: "sysfs \<Rightarrow> string \<Rightarrow> string \<Rightarrow> (string, int) dict \<Rightarrow> (string, int) dict" where
  "cpuidle_state fs idle st totals =
     (if \<not> prefix ''state'' st then totals
      else case read_int fs (idle @ ''/'' @ st @ ''/usage'') 1 of None \<Rightarrow> totals
        | Some v \<Rightarrow> dict_set totals st ((case dict_get totals st of None \<Rightarrow> 0 | Some n \<Rightarrow> n) + \<lfloor>v\<rfloor>))"

definition read_cpuidle :: "sysfs \<Rightarrow> (string, int) dict" where
  "read_cpuidle fs = (case fs_list fs ''/sys/devices/system/cpu'' of None \<Rightarrow> []
     | Some names \<Rightarrow> fold (\<lambda>cpu totals.
         let idle = ''/sys/devices/system/cpu/'' @ cpu @ ''/cpuidle''
         in case fs_list fs idle of None \<Rightarrow> totals | Some states \<Rightarrow> fold (cpuidle_state fs idle) states totals)
         (filter (\<lambda>c. prefix ''cpu'' c \<and> drop 3 c \<noteq> [] \<and> list_all isdigit_char (drop 3 c)) names) [])"

definition deep_idle_disabled :: "sysfs \<Rightarrow> string" where
  "deep_idle_disabled fs =
     (let flags = List.map_filter (\<lambda>idx. read_text fs (''/sys/devices/system/cpu/cpu0/cpuidle/state'' @ show_nat idx @ ''/disable'')) [2, 3]
      in if flags = [] then [] else if list_all (\<lambda>f. py_strip f = ''1'') flags then ''1'' else ''0'')"

definition ping_peer :: "proc \<Rightarrow> string" where
  "ping_peer out = (case out of
       ProcDone p \<Rightarrow>
         if cp_returncode p \<noteq> 0 then ''LOST''
         else (case find (prefix ''time='') (split_ws (cp_stdout p)) of None \<Rightarrow> [] | Some token \<Rightarrow> drop 5 token)
     | _ \<Rightarrow> [])"

text \<open>\<open>CpuMeter\<close>: the idle and the total ticks of the last reading.  Fewer than four counters raise.\<close>

type_synonym cpu_meter = "(int \<times> int) option"

definition cpu_read :: "sysfs \<Rightarrow> cpu_meter \<Rightarrow> exn + string \<times> cpu_meter" where
  "cpu_read fs prev = (case read_text fs ''/proc/stat'' of None \<Rightarrow> Inr ([], prev)
     | Some line \<Rightarrow>
         if line = [] then Inr ([], prev)
         else (case map_error py_int (drop 1 (split_ws (first_line line))) of Inl _ \<Rightarrow> Inr ([], prev)
           | Inr vals \<Rightarrow>
               if length vals < 4 then Inl IndexError
               else let idle = vals ! 3 + (if length vals > 4 then vals ! 4 else 0); ticks = sum_list vals
                    in (case prev of None \<Rightarrow> Inr ([], Some (idle, ticks))
                       | Some (idle0, total0) \<Rightarrow>
                           if ticks - total0 \<le> 0 then Inr ([], Some (idle, ticks))
                           else Inr (show_fixed 1 (100 * (1 - of_int (idle - idle0) / of_int (ticks - total0))), Some (idle, ticks)))))"

definition uptime_s :: "sysfs \<Rightarrow> string" where
  "uptime_s fs = (case read_text fs ''/proc/uptime'' of None \<Rightarrow> []
     | Some raw \<Rightarrow> (case split_ws raw of [] \<Rightarrow> []
         | w # _ \<Rightarrow> (case parse_decimal w of None \<Rightarrow> [] | Some x \<Rightarrow> show_fixed 0 x)))"

definition load1 :: "sysfs \<Rightarrow> string" where
  "load1 fs = (case read_text fs ''/proc/loadavg'' of None \<Rightarrow> []
     | Some raw \<Rightarrow> (case split_ws raw of [] \<Rightarrow> [] | w # _ \<Rightarrow> w))"

text \<open>Without a \<open>MemAvailable\<close> line the subtraction raises.\<close>

definition mem_used_pct :: "sysfs \<Rightarrow> exn + string" where
  "mem_used_pct fs = (case fs_text fs ''/proc/meminfo'' of None \<Rightarrow> Inr []
     | Some s \<Rightarrow> (case meminfo_loop (text_lines s) None None of
         Inl e \<Rightarrow> if e = ValueError then Inr [] else Inl e
       | Inr (mtotal, avail) \<Rightarrow>
           (case mtotal of None \<Rightarrow> Inr []
            | Some t \<Rightarrow> if t = 0 then Inr []
                else (case avail of None \<Rightarrow> Inl TypeError
                  | Some a \<Rightarrow> Inr (show_fixed 1 (100 * of_int (t - a) / of_int t))))))"

section \<open>The row\<close>

record layout =
  ly_zones :: "(string \<times> string) list"
  ly_hwmon :: "(string \<times> string) list"
  ly_aer :: "string list"
  ly_idle :: "string list"

definition discover :: "sysfs \<Rightarrow> exn + layout" where
  "discover fs = and_then (discover_thermal_zones fs) (\<lambda>zones.
     Inr \<lparr>ly_zones = zones, ly_hwmon = discover_hwmon fs, ly_aer = discover_aer_devices fs,
          ly_idle = sort (dict_keys (read_cpuidle fs))\<rparr>)"

definition WATCHED_AER_FIELDS :: "string list" where
  "WATCHED_AER_FIELDS = [''RxErr'', ''BadTLP'', ''BadDLLP'', ''Timeout'', ''TOTAL_ERR_COR'']"

definition node_header :: "layout \<Rightarrow> string list" where
  "node_header ly =
     [''ts'', ''epoch'', ''uptime_s'', ''load1'', ''cpu_pct'', ''mem_used_pct''] @
     map fst (ly_zones ly) @ map fst (ly_hwmon ly) @
     [''gpu_c'', ''gpu_w'', ''gpu_util'', ''gpu_sm_mhz'', ''gpu_throttle''] @ [''gpu_w_min'', ''gpu_w_max''] @
     map (\<lambda>k. k @ ''_entries'') (ly_idle ly) @ [''deep_idle_off''] @
     [''aer_cor_all'', ''aer_nonfatal_all'', ''aer_fatal_all''] @
     map (\<lambda>f. ''rp_'' @ py_lower f) WATCHED_AER_FIELDS @ [''peer_link'', ''peer_ping_ms'']"

abbreviation pci_device :: "string \<Rightarrow> string \<Rightarrow> string" where
  "pci_device dev f \<equiv> ''/sys/bus/pci/devices/'' @ dev @ ''/'' @ f"

definition total_errors :: "(string, int) dict \<Rightarrow> int" where
  "total_errors d = sum_list (map snd (filter (\<lambda>(k, _). prefix ''TOTAL_ERR'' k) d))"

definition aer_totals :: "sysfs \<Rightarrow> string list \<Rightarrow> int \<times> int \<times> int" where
  "aer_totals fs devs = fold (\<lambda>dev (cor, nonfatal, fatal).
     (cor + (case dict_get (read_aer fs (pci_device dev ''aer_dev_correctable'')) ''TOTAL_ERR_COR'' of None \<Rightarrow> 0 | Some n \<Rightarrow> n),
      nonfatal + total_errors (read_aer fs (pci_device dev ''aer_dev_nonfatal'')),
      fatal + total_errors (read_aer fs (pci_device dev ''aer_dev_fatal'')))) devs (0, 0, 0)"

definition show_opt :: "int option \<Rightarrow> string" where
  "show_opt v = (case v of None \<Rightarrow> [] | Some n \<Rightarrow> show_int n)"

text \<open>What one iteration sees: the time as text, the files, the two programs, and the power readings
  that came in since the one before.\<close>

record sample =
  sa_now :: "day \<times> string"
  sa_epoch :: string
  sa_fs :: sysfs
  sa_gpu :: proc
  sa_power :: "string list"
  sa_ping :: proc

record node_cfg =
  PEER_IFACE :: string
  WATCHED_PORT :: string

definition carrier :: "node_cfg \<Rightarrow> sysfs \<Rightarrow> string" where
  "carrier cfg fs = (case read_text fs (''/sys/class/net/'' @ PEER_IFACE cfg @ ''/carrier'') of None \<Rightarrow> [] | Some t \<Rightarrow> t)"

definition sample_row :: "node_cfg \<Rightarrow> layout \<Rightarrow> sample \<Rightarrow> cpu_meter \<times> power_sampler \<Rightarrow>
    exn + string list \<times> cpu_meter \<times> power_sampler" where
  "sample_row cfg ly sa st = (case st of (cpu, pw) \<Rightarrow>
     let fs = sa_fs sa in
     and_then (cpu_read fs cpu) (\<lambda>(cpu_pct, cpu').
     and_then (mem_used_pct fs) (\<lambda>mem.
       let ((lo, hi), pw') = power_take (fold power_line (sa_power sa) pw);
           idle_now = read_cpuidle fs;
           (cor, nonfatal, fatal) = aer_totals fs (ly_aer ly);
           watched = read_aer fs (pci_device (WATCHED_PORT cfg) ''aer_dev_correctable'')
       in Inr ([snd (sa_now sa), sa_epoch sa, uptime_s fs, load1 fs, cpu_pct, mem] @
            map (\<lambda>(_, path). fmt (read_int fs path 1000) 1) (ly_zones ly) @
            map (\<lambda>(_, path). fmt (read_int fs path 1000) 1) (ly_hwmon ly) @
            gpu_sample (sa_gpu sa) @ [lo, hi] @
            map (\<lambda>k. show_opt (dict_get idle_now k)) (ly_idle ly) @ [deep_idle_disabled fs] @
            [show_int cor, show_int nonfatal, show_int fatal] @
            map (\<lambda>f. show_opt (dict_get watched f)) WATCHED_AER_FIELDS @
            [carrier cfg fs, ping_peer (sa_ping sa)], cpu', pw'))))"

text \<open>The rows up to the first iteration that raises, and whether there is one.\<close>

fun sample_rows :: "node_cfg \<Rightarrow> layout \<Rightarrow> sample list \<Rightarrow> cpu_meter \<times> power_sampler \<Rightarrow>
    ((day \<times> string) \<times> string list) list \<times> exn option" where
  "sample_rows cfg ly [] st = ([], None)"
| "sample_rows cfg ly (sa # sas) st =
     (case sample_row cfg ly sa st of
        Inl e \<Rightarrow> ([], Some e)
      | Inr (row, st') \<Rightarrow> (case sample_rows cfg ly sas st' of (rows, e) \<Rightarrow> ((sa_now sa, row) # rows, e)))"

definition boot_line :: "string \<Rightarrow> string option \<Rightarrow> string \<Rightarrow> string \<Rightarrow> string" where
  "boot_line ts boot_id interval pid =
     ''#BOOT_START ts='' @ ts @ '' boot_id='' @ (case boot_id of None \<Rightarrow> ''?'' | Some b \<Rightarrow> if b = [] then ''?'' else b) @
     '' interval='' @ interval @ ''s pid='' @ pid"

text \<open>\<open>main\<close>: an exception leaves the session open, as a power cut does.\<close>

definition node_main :: "node_cfg \<Rightarrow> nat \<Rightarrow> string \<Rightarrow> string \<Rightarrow> sysfs \<Rightarrow> (day \<times> string) \<Rightarrow> sample list \<Rightarrow> (day \<times> string) option \<Rightarrow>
    logs \<Rightarrow> logs \<times> exn option" where
  "node_main cfg retention interval pid fs now samples stop logs =
     (case discover fs of
        Inl e \<Rightarrow> (logs, Some e)
      | Inr ly \<Rightarrow>
          let boot = boot_line (snd now) (read_text fs ''/proc/sys/kernel/random/boot_id'') interval pid;
              (rows, err) = (case cpu_read fs None of Inl e \<Rightarrow> ([], Some e)
                | Inr (_, cpu) \<Rightarrow> sample_rows cfg ly samples (cpu, power_init))
          in (sampler_run retention (node_header ly) now boot rows (if err = None then stop else None) logs, err))"

section \<open>A row fits its header\<close>

lemma gpu_sample_length: "length (gpu_sample out) = 5"
  by (auto simp: gpu_sample_def Let_def split: proc.split)

lemma sample_row_width: "sample_row cfg ly sa st = Inr (row, st') \<Longrightarrow> length row = length (node_header ly)"
  by (auto simp: sample_row_def node_header_def gpu_sample_length Let_def split: prod.splits elim!: and_then_InrE)

lemma comma_show_nat: "comma \<notin> set (show_nat n)"
  using show_nat_digits [of n] by (auto simp: is_digit_def)

lemma comma_show: "comma \<notin> set (show_int i)" "comma \<notin> set (show_opt v)" "comma \<notin> set (show_fixed d x)" "comma \<notin> set (fmt q d)"
proof -
  show f: "comma \<notin> set (show_fixed d x)" for d x
    by (simp add: show_fixed_def Let_def pad_zeros_def comma_show_nat)
  show i: "comma \<notin> set (show_int i)" for i
    by (simp add: show_int_def comma_show_nat)
  show "comma \<notin> set (show_opt v)" "comma \<notin> set (fmt q d)"
    by (simp_all add: show_opt_def fmt_def i f split: option.split)
qed

lemma split_char_part: "w \<in> set (split_char c s) \<Longrightarrow> c \<notin> set w"
proof (induction s arbitrary: w)
  case (Cons x s)
  obtain v vs where v: "split_char c s = v # vs" by (cases "split_char c s") simp_all
  then show ?case using Cons by (auto split: if_splits)
qed simp

lemma set_py_strip: "set (py_strip s) \<subseteq> set s"
  by (auto simp: py_strip_def rstrip_def lstrip_def dest!: set_dropWhileD)

lemma comma_gpu_sample: "f \<in> set (gpu_sample out) \<Longrightarrow> comma \<notin> set f"
  using set_py_strip split_char_part
  by (auto simp: gpu_sample_def Let_def split: proc.splits if_splits dest!: in_set_takeD) blast+

lemma comma_readings:
  "cpu_read fs cpu = Inr (s, cpu') \<Longrightarrow> comma \<notin> set s" "mem_used_pct fs = Inr m \<Longrightarrow> comma \<notin> set m"
  "comma \<notin> set (uptime_s fs)" "comma \<notin> set (deep_idle_disabled fs)"
  by (auto simp: cpu_read_def mem_used_pct_def uptime_s_def deep_idle_disabled_def Let_def comma_show
      split: option.splits sum.splits if_splits list.splits)

text \<open>What is put into a row as it was read.\<close>

definition raw_fields :: "node_cfg \<Rightarrow> sample \<Rightarrow> string list" where
  "raw_fields cfg sa = [snd (sa_now sa), sa_epoch sa, load1 (sa_fs sa), carrier cfg (sa_fs sa), ping_peer (sa_ping sa)]"

definition good_sample :: "node_cfg \<Rightarrow> sample \<Rightarrow> bool" where
  "good_sample cfg sa = (list_all (\<lambda>f. comma \<notin> set f) (raw_fields cfg sa) \<and>
     (case snd (sa_now sa) of c # _ \<Rightarrow> is_digit c | [] \<Rightarrow> False))"

lemma good_sample_row:
  assumes row: "sample_row cfg ly sa st = Inr (row, st')" and good: "good_sample cfg sa"
  shows "good_row (node_header ly) row"
proof -
  obtain c cs where ts: "snd (sa_now sa) = c # cs" "is_digit c" using good by (auto simp: good_sample_def split: list.splits)
  have "hd row = snd (sa_now sa)" "row \<noteq> []"
    using row by (auto simp: sample_row_def Let_def split: prod.splits elim!: and_then_InrE)
  then obtain rest where "row = (c # cs) # rest" using ts(1) by (cases row) auto
  moreover have "\<forall>f \<in> set row. comma \<notin> set f"
    using row good comma_readings comma_gpu_sample
    by (auto simp: sample_row_def good_sample_def raw_fields_def Let_def comma_show power_take_def
        split: prod.splits elim!: and_then_InrE)
  ultimately show ?thesis using sample_row_width [OF row] ts(2) by (simp add: good_row_def)
qed

text \<open>C31: a row always fits its header.  Whatever sensors, devices and idle states were found at the
  start, and whatever the files and programs answer later, a row that is written has one field for
  each column, and none of them is cut by a comma if the five texts taken over unchanged hold none.\<close>

theorem sample_row_fits:
  assumes "sample_row cfg ly sa st = Inr (row, st')"
  shows "length row = length (node_header ly) \<and> (good_sample cfg sa \<longrightarrow> good_row (node_header ly) row)"
  using sample_row_width [OF assms] good_sample_row [OF assms] by blast

lemma sample_rows_spec:
  assumes "list_all (good_sample cfg) samples" "sample_rows cfg ly samples st = (rows, err)"
  shows "map fst rows = map sa_now (take (length rows) samples)" "err = None \<Longrightarrow> length rows = length samples"
    "list_all (good_row (node_header ly) \<circ> snd) rows"
proof -
  have "map fst rows = map sa_now (take (length rows) samples) \<and> (err = None \<longrightarrow> length rows = length samples) \<and>
    list_all (good_row (node_header ly) \<circ> snd) rows" using assms
  proof (induction samples arbitrary: st rows err)
    case (Cons sa samples)
    show ?case
    proof (cases "sample_row cfg ly sa st")
      case (Inl e)
      then show ?thesis using Cons.prems by auto
    next
      case (Inr r)
      obtain row st' where r: "r = (row, st')" by (cases r)
      obtain rows' where rest: "sample_rows cfg ly samples st' = (rows', err)" "rows = (sa_now sa, row) # rows'"
        using Cons.prems(2) Inr r by (auto split: prod.splits)
      have "good_row (node_header ly) row" using good_sample_row Inr r Cons.prems(1) by auto
      then show ?thesis using Cons.IH [OF _ rest(1)] Cons.prems(1) rest(2) by simp
    qed
  qed simp
  then show "map fst rows = map sa_now (take (length rows) samples)" "err = None \<Longrightarrow> length rows = length samples"
    "list_all (good_row (node_header ly) \<circ> snd) rows" by blast+
qed

text \<open>The rows of a course of samples: each is what its sample gives, with the meters the samples before
  left.\<close>

inductive measured :: "node_cfg \<Rightarrow> layout \<Rightarrow> sample list \<Rightarrow> cpu_meter \<times> power_sampler \<Rightarrow> string list list \<Rightarrow>
    cpu_meter \<times> power_sampler \<Rightarrow> bool" for cfg ly where
  measured_nil: "measured cfg ly [] st [] st"
| measured_cons: "sample_row cfg ly sa st = Inr (row, st1) \<Longrightarrow> measured cfg ly sas st1 rows st2 \<Longrightarrow>
    measured cfg ly (sa # sas) st (row # rows) st2"

inductive_simps measured_simps: "measured cfg ly [] st rows st'" "measured cfg ly (sa # sas) st rows st'"

text \<open>The next sample is the one whose exception ends the run.\<close>

definition stopped_by :: "node_cfg \<Rightarrow> layout \<Rightarrow> sample list \<Rightarrow> cpu_meter \<times> power_sampler \<Rightarrow> exn option \<Rightarrow> bool" where
  "stopped_by cfg ly rest st err = (case err of None \<Rightarrow> rest = []
     | Some e \<Rightarrow> (case rest of [] \<Rightarrow> False | sa # _ \<Rightarrow> sample_row cfg ly sa st = Inl e))"

lemma sample_rows_measured:
  "sample_rows cfg ly samples st = (rows, err) \<Longrightarrow>
   \<exists>st'. measured cfg ly (take (length rows) samples) st (map snd rows) st' \<and> stopped_by cfg ly (drop (length rows) samples) st' err"
proof (induction samples arbitrary: st rows err)
  case Nil
  then show ?case by (auto simp: measured_simps stopped_by_def)
next
  case (Cons sa samples)
  show ?case
  proof (cases "sample_row cfg ly sa st")
    case (Inl e)
    then show ?thesis using Cons.prems by (auto simp: measured_simps stopped_by_def)
  next
    case (Inr r)
    obtain row st' where r: "r = (row, st')" by (cases r)
    obtain rows' where rest: "sample_rows cfg ly samples st' = (rows', err)" "rows = (sa_now sa, row) # rows'"
      using Cons.prems Inr r by (auto split: prod.splits)
    with Cons.IH [OF rest(1)] Inr r show ?thesis by (auto intro: measured_cons)
  qed
qed

lemma in_order_append: "in_order retention days (d # ds @ ds') \<Longrightarrow> in_order retention days (d # ds)"
proof -
  assume order: "in_order retention days (d # ds @ ds')"
  have "last (d # ds) \<in> set (d # ds)" by (rule last_in_set) simp
  then have "last (d # ds) \<in> set (d # ds @ ds')" by (metis UnI1 append_Cons set_append)
  then have "last (d # ds) \<le> last (d # ds @ ds')" using order sorted_le_last unfolding in_order_def by blast
  moreover have "sorted (d # ds)" using order by (auto simp: in_order_def sorted_append)
  ultimately show ?thesis using order unfolding in_order_def by (metis list.distinct(1) list.sel(1) order.trans)
qed

text \<open>C32: the sampler and the report together.  For every machine and every course of its samples, the
  report reads back, under the header of the machine, exactly the rows of the samples taken, each measured with
  the meters the samples before it left, and counts the session as closed exactly if the sampler was
  stopped; a sample that raises ends the session like a power cut, with the rows of all samples before it.\<close>

theorem node_main_read:
  assumes found: "discover fs = Inr ly" "header_text (node_header ly)"
    and boot: "boot = boot_line (snd now) (read_text fs ''/proc/sys/kernel/random/boot_id'') interval pid" "\<not> str_in ''resumed=1'' boot"
    and samples: "list_all (good_sample cfg) samples" "distinct (dict_keys logs)"
    and order: "in_order retention (set (dict_keys logs)) (fst now # map (fst \<circ> sa_now) samples @ (case stop of None \<Rightarrow> [] | Some t \<Rightarrow> [fst t]))"
    and run: "node_main cfg retention interval pid fs now samples stop logs = (logs', err)"
  shows "\<exists>rows. summaries logs' = summaries logs @ [(boot, err = None \<and> stop \<noteq> None, map (Pair (Some (node_header ly))) rows)] \<and>
    (case cpu_read fs None of
       Inl e \<Rightarrow> rows = [] \<and> err = Some e
     | Inr (_, cpu) \<Rightarrow> \<exists>st. measured cfg ly (take (length rows) samples) (cpu, power_init) rows st \<and>
         length rows \<le> length samples \<and>
         (case err of None \<Rightarrow> length rows = length samples
          | Some e \<Rightarrow> length rows < length samples \<and> sample_row cfg ly (samples ! length rows) st = Inl e))"
proof -
  obtain rows where rows: "(case cpu_read fs None of Inl e \<Rightarrow> ([], Some e)
      | Inr (_, cpu) \<Rightarrow> sample_rows cfg ly samples (cpu, power_init)) = (rows, err)"
    and logs': "logs' = sampler_run retention (node_header ly) now boot rows (if err = None then stop else None) logs"
    using run found(1) by (auto simp: node_main_def boot(1) Let_def split: prod.splits)
  have spec: "map fst rows = map sa_now (take (length rows) samples)" "err = None \<longrightarrow> length rows = length samples"
    "list_all (good_row (node_header ly) \<circ> snd) rows"
    using rows sample_rows_spec [OF samples(1)] by (auto split: sum.splits prod.splits)
  have days: "map (fst \<circ> fst) rows = map (fst \<circ> sa_now) (take (length rows) samples)"
    using arg_cong [OF spec(1), of "map fst"] by simp
  have "length rows \<le> length samples" using arg_cong [OF spec(1), of length] by simp
  have "in_order retention (set (dict_keys logs)) (fst now # map (fst \<circ> fst) rows @
      (case (if err = None then stop else None) of None \<Rightarrow> [] | Some t \<Rightarrow> [fst t]))"
  proof (cases "err = None")
    case True
    then show ?thesis using order spec(2) days by simp
  next
    case False
    have "map (fst \<circ> sa_now) samples = map (fst \<circ> fst) rows @ map (fst \<circ> sa_now) (drop (length rows) samples)"
      unfolding days by (metis append_take_drop_id map_append)
    from order [unfolded this append_assoc] have "in_order retention (set (dict_keys logs)) (fst now # map (fst \<circ> fst) rows)"
      by (rule in_order_append)
    then show ?thesis using False by auto
  qed
  moreover have "prefix ''#BOOT_START'' boot" by (simp add: boot(1) boot_line_def)
  ultimately have "summaries logs' = summaries logs @ [(boot, (if err = None then stop else None) \<noteq> None,
      map (\<lambda>r. (Some (node_header ly), snd r)) rows)]"
    unfolding logs' using sampler_run_effect [OF found(2) _ boot(2) spec(3) samples(2)] by blast
  moreover have "case cpu_read fs None of
       Inl e \<Rightarrow> map snd rows = [] \<and> err = Some e
     | Inr (_, cpu) \<Rightarrow> \<exists>st. measured cfg ly (take (length rows) samples) (cpu, power_init) (map snd rows) st \<and>
         length rows \<le> length samples \<and>
         (case err of None \<Rightarrow> length rows = length samples
          | Some e \<Rightarrow> length rows < length samples \<and> sample_row cfg ly (samples ! length rows) st = Inl e)"
  proof (cases "cpu_read fs None")
    case (Inl e)
    then show ?thesis using rows by simp
  next
    case (Inr c)
    obtain percent cpu where c: "c = (percent, cpu)" by (cases c)
    then have "sample_rows cfg ly samples (cpu, power_init) = (rows, err)" using rows Inr by simp
    from sample_rows_measured [OF this] obtain st where
      st: "measured cfg ly (take (length rows) samples) (cpu, power_init) (map snd rows) st"
      "stopped_by cfg ly (drop (length rows) samples) st err" by blast
    have "length rows < length samples" if "drop (length rows) samples = sa # rest" for sa rest
      using that by (cases "length rows < length samples") simp_all
    with st(2) spec(2) have "case err of None \<Rightarrow> length rows = length samples
        | Some e \<Rightarrow> length rows < length samples \<and> sample_row cfg ly (samples ! length rows) st = Inl e"
      by (auto simp: stopped_by_def nth_via_drop split: option.splits list.splits)
    with st(1) \<open>length rows \<le> length samples\<close> show ?thesis unfolding Inr c sum.case prod.case by blast
  qed
  ultimately show ?thesis
    unfolding length_map [of snd rows, symmetric] by (intro exI [of _ "map snd rows"] conjI) (auto simp: comp_def)
qed

definition bare_fs :: sysfs where
  "bare_fs = \<lparr>fs_text = map_of [(''/proc/stat'', ''cpu 1 2 3 4''), (''/proc/loadavg'', ''0.5 1'')], fs_list = (\<lambda>_. None),
     fs_exists = (\<lambda>_. False), fs_realpath = (\<lambda>p. p)\<rparr>"

definition bare_layout :: layout where
  "bare_layout = \<lparr>ly_zones = [], ly_hwmon = [], ly_aer = [], ly_idle = []\<rparr>"

definition bare_sample :: "day \<times> string \<Rightarrow> sysfs \<Rightarrow> sample" where
  "bare_sample now fs = \<lparr>sa_now = now, sa_epoch = ''1'', sa_fs = fs,
     sa_gpu = ProcDone \<lparr>cp_returncode = 0, cp_stdout = ''50, [N/A], 9'', cp_stderr = []\<rparr>, sa_power = [], sa_ping = ProcTimeout\<rparr>"

lemma bare_header: "header_text (node_header bare_layout)"
proof -
  have "map py_lower WATCHED_AER_FIELDS = [''rxerr'', ''badtlp'', ''baddllp'', ''timeout'', ''total_err_cor'']"
    by (simp add: WATCHED_AER_FIELDS_def str_eval)
  then have "map (\<lambda>f. ''rp_'' @ py_lower f) WATCHED_AER_FIELDS = [''rp_rxerr'', ''rp_badtlp'', ''rp_baddllp'', ''rp_timeout'', ''rp_total_err_cor'']"
    by (simp add: WATCHED_AER_FIELDS_def)
  then show ?thesis by (simp add: header_text_def node_header_def bare_layout_def header_line_def)
qed

lemma bare_good:
  "list_all (good_sample \<lparr>PEER_IFACE = ''e'', WATCHED_PORT = ''p''\<rparr>)
     [bare_sample (3, ''1a'') bare_fs, bare_sample (4, ''2b'') (bare_fs\<lparr>fs_text := map_of [(''/proc/stat'', ''cpu 1'')]\<rparr>)]"
  by (simp add: good_sample_def raw_fields_def bare_sample_def bare_fs_def load1_def carrier_def ping_peer_def read_text_def
      is_digit_def py_strip_def lstrip_def rstrip_def is_space_def split_ws.simps)

theorem sample_row_fits_witness:
  "\<exists>row st'. sample_row \<lparr>PEER_IFACE = ''e'', WATCHED_PORT = ''p''\<rparr> bare_layout (bare_sample (3, ''1a'') bare_fs) (None, power_init) = Inr (row, st') \<and>
    length row = 24 \<and> good_row (node_header bare_layout) row"
proof -
  let ?cfg = "\<lparr>PEER_IFACE = ''e'', WATCHED_PORT = ''p''\<rparr>"
  have cpu: "cpu_read bare_fs None = Inr ([], Some (4, 10))"
    by (simp add: cpu_read_def bare_fs_def read_text_def first_line_def line_break_def py_strip_def lstrip_def rstrip_def is_space_def
        split_ws.simps py_int_def parse_nat_def is_digit_def digit_val_def Let_def)
  have mem: "mem_used_pct bare_fs = Inr []" by (simp add: mem_used_pct_def bare_fs_def)
  have "\<exists>row st'. sample_row ?cfg bare_layout (bare_sample (3, ''1a'') bare_fs) (None, power_init) = Inr (row, st')"
    by (simp add: sample_row_def bare_sample_def cpu mem power_take_def aer_totals_def bare_layout_def)
  then obtain row st' where row: "sample_row ?cfg bare_layout (bare_sample (3, ''1a'') bare_fs) (None, power_init) = Inr (row, st')"
    by blast
  from sample_row_fits [OF row] have "length row = length (node_header bare_layout)" "good_row (node_header bare_layout) row"
    using bare_good by simp_all
  moreover have "length (node_header bare_layout) = 24" by (simp add: node_header_def bare_layout_def WATCHED_AER_FIELDS_def)
  ultimately show ?thesis using row by auto
qed

text \<open>The second sample finds one counter only and raises: the session stays open with one row.\<close>

theorem node_main_read_witness:
  "\<exists>logs' row st. node_main \<lparr>PEER_IFACE = ''e'', WATCHED_PORT = ''p''\<rparr> 21 ''15.0'' ''7'' bare_fs (3, ''0'')
      [bare_sample (3, ''1a'') bare_fs, bare_sample (4, ''2b'') (bare_fs\<lparr>fs_text := map_of [(''/proc/stat'', ''cpu 1'')]\<rparr>)] (Some (5, ''9'')) [] =
      (logs', Some IndexError) \<and>
    sample_row \<lparr>PEER_IFACE = ''e'', WATCHED_PORT = ''p''\<rparr> bare_layout (bare_sample (3, ''1a'') bare_fs) (Some (4, 10), power_init) = Inr (row, st) \<and>
    summaries logs' = [(''#BOOT_START ts=0 boot_id=? interval=15.0s pid=7'', False, [(Some (node_header bare_layout), row)])]"
proof -
  let ?cfg = "\<lparr>PEER_IFACE = ''e'', WATCHED_PORT = ''p''\<rparr>"
  let ?fs2 = "bare_fs\<lparr>fs_text := map_of [(''/proc/stat'', ''cpu 1'')]\<rparr>"
  define sas where "sas = [bare_sample (3, ''1a'') bare_fs, bare_sample (4, ''2b'') ?fs2]"
  obtain logs' err where run: "node_main ?cfg 21 ''15.0'' ''7'' bare_fs (3, ''0'') sas (Some (5, ''9'')) [] = (logs', err)"
    by (metis surj_pair)
  have found: "discover bare_fs = Inr bare_layout"
    by (simp add: discover_def discover_thermal_zones_def discover_hwmon_def discover_aer_devices_def read_cpuidle_def bare_fs_def bare_layout_def)
  have boot: "''#BOOT_START ts=0 boot_id=? interval=15.0s pid=7'' =
      boot_line (snd (3 :: nat, ''0'')) (read_text bare_fs ''/proc/sys/kernel/random/boot_id'') ''15.0'' ''7''"
    by (simp add: boot_line_def read_text_def bare_fs_def)
  have resumed: "\<not> str_in ''resumed=1'' ''#BOOT_START ts=0 boot_id=? interval=15.0s pid=7''" by (simp add: str_in_def sublist_Cons_right)
  have order: "in_order 21 (set (dict_keys ([] :: logs))) (fst (3 :: nat, ''0'') # map (fst \<circ> sa_now) sas @
      (case Some (5 :: nat, ''9'') of None \<Rightarrow> [] | Some t \<Rightarrow> [fst t]))" by (simp add: in_order_def bare_sample_def sas_def)
  have cpu: "cpu_read bare_fs c = Inr ([], Some (4, 10))" if "c = None \<or> c = Some (4, 10)" for c
    using that by (auto simp: cpu_read_def bare_fs_def read_text_def first_line_def line_break_def py_strip_def lstrip_def rstrip_def is_space_def
        split_ws.simps py_int_def parse_nat_def is_digit_def digit_val_def Let_def)
  have mem: "mem_used_pct bare_fs = Inr []" by (simp add: mem_used_pct_def bare_fs_def)
  have "\<exists>row st1. sample_row ?cfg bare_layout (bare_sample (3, ''1a'') bare_fs) (Some (4, 10), power_init) = Inr (row, st1)"
    by (simp add: sample_row_def bare_sample_def cpu mem power_take_def aer_totals_def bare_layout_def)
  then obtain row st1 where first: "sample_row ?cfg bare_layout (bare_sample (3, ''1a'') bare_fs) (Some (4, 10), power_init) = Inr (row, st1)"
    by blast
  have "cpu_read ?fs2 c = Inl IndexError" for c
    by (simp add: cpu_read_def bare_fs_def read_text_def first_line_def line_break_def py_strip_def lstrip_def rstrip_def is_space_def
        split_ws.simps py_int_def parse_nat_def is_digit_def digit_val_def Let_def)
  then have second: "sample_row ?cfg bare_layout (bare_sample (4, ''2b'') ?fs2) st = Inl IndexError" for st
    by (cases st) (simp add: sample_row_def bare_sample_def)
  have good: "list_all (good_sample ?cfg) sas" unfolding sas_def by (rule bare_good)
  have len: "length sas = 2" by (simp add: sas_def)
  have keys: "distinct (dict_keys ([] :: logs))" by simp
  obtain rows st where rows: "summaries logs' = summaries [] @ [(''#BOOT_START ts=0 boot_id=? interval=15.0s pid=7'',
      err = None \<and> Some (5 :: nat, ''9'') \<noteq> None, map (Pair (Some (node_header bare_layout))) rows)]"
    and steps: "measured ?cfg bare_layout (take (length rows) sas) (Some (4, 10), power_init) rows st" "length rows \<le> 2"
      "case err of None \<Rightarrow> length rows = 2 | Some e \<Rightarrow> length rows < 2 \<and> sample_row ?cfg bare_layout (sas ! length rows) st = Inl e"
    using node_main_read [OF found bare_header boot resumed good keys order run] cpu [of None] unfolding len by auto
  consider "length rows = 0" | "length rows = 1" | "length rows = 2" using steps(2) by linarith
  then have "rows = [row] \<and> err = Some IndexError"
  proof cases
    case 1
    then show ?thesis using steps first by (auto simp: sas_def measured_simps split: option.splits)
  next
    case 2
    then show ?thesis using steps first second by (auto simp: sas_def measured_simps split: option.splits)
  next
    case 3
    then show ?thesis using steps second by (auto simp: sas_def measured_simps numeral_2_eq_2)
  qed
  then show ?thesis using run [unfolded sas_def] rows first by (auto simp: summaries_def all_sessions_def)
qed

text \<open>The power readings: the two numbers of a sample are the extremes of what was read since the last.\<close>

lemma power_fold:
  "fold power_line lines ps = (let vs = List.map_filter (\<lambda>l. parse_decimal (py_strip l)) lines in
     \<lparr>ps_lo = (if vs = [] then ps_lo ps else Some (case ps_lo ps of None \<Rightarrow> Min (set vs) | Some lo \<Rightarrow> min lo (Min (set vs)))),
      ps_hi = (if vs = [] then ps_hi ps else Some (case ps_hi ps of None \<Rightarrow> Max (set vs) | Some hi \<Rightarrow> max hi (Max (set vs))))\<rparr>)"
proof (induction lines arbitrary: ps)
  case (Cons l lines)
  show ?case
  proof (cases "parse_decimal (py_strip l)")
    case None
    then show ?thesis using Cons [of ps] by (simp add: power_line_def List.map_filter_simps)
  next
    case (Some v)
    have "finite (set (List.map_filter (\<lambda>l. parse_decimal (py_strip l)) lines))" by simp
    then show ?thesis using Some Cons
      by (auto simp: power_line_def List.map_filter_simps Let_def min_def max_def split: option.splits)
  qed
qed (simp add: List.map_filter_def)

text \<open>No transient is lost between two samples.  Whatever lines the power reader got, the two numbers of
  the next sample are the least and the greatest of those that were numbers, and the sampler starts
  afresh.\<close>

theorem power_extremes:
  "power_take (fold power_line lines power_init) =
    (let vs = List.map_filter (\<lambda>l. parse_decimal (py_strip l)) lines in
     ((if vs = [] then [] else show_fixed 2 (Min (set vs)), if vs = [] then [] else show_fixed 2 (Max (set vs))), power_init))"
  by (simp add: power_fold power_take_def power_init_def fmt_def Let_def)

end
