(* ===== verification/CrashReport.thy ===== *)
theory CrashReport
  imports NodeSensors
begin

text \<open>
  \<open>ops/crash_report.py\<close>: which sessions count as deaths, and what is printed about them.  The reading of
  the logs is in \<open>ForensicsLog\<close>.  Printed text is a list of lines; a number is printed exactly, with
  one digit, as Python prints a rounded double below \<open>10 ^ 16\<close>.
\<close>

unbundle bit_operations_syntax

section \<open>Throttle reasons\<close>

definition hex_val :: "char \<Rightarrow> int option" where
  "hex_val c = (let n = code c in
     if is_digit c then Some (int n - 48) else if 97 \<le> n \<and> n \<le> 102 then Some (int n - 87)
     else if 65 \<le> n \<and> n \<le> 70 then Some (int n - 55) else None)"

text \<open>Digits with single underscores between them.\<close>

fun hex_digits :: "int \<Rightarrow> string \<Rightarrow> int option" where
  "hex_digits acc [] = Some acc"
| "hex_digits acc (c # cs) =
     (case hex_val c of Some d \<Rightarrow> hex_digits (16 * acc + d) cs
      | None \<Rightarrow> if c = CHR ''_'' then
          (case cs of d # ds \<Rightarrow> (case hex_val d of Some v \<Rightarrow> hex_digits (16 * acc + v) ds | None \<Rightarrow> None) | [] \<Rightarrow> None)
        else None)"

definition hex_nat :: "string \<Rightarrow> int option" where
  "hex_nat s = (case s of [] \<Rightarrow> None | c # _ \<Rightarrow> if hex_val c = None then None else hex_digits 0 s)"

text \<open>\<open>int(value, 16)\<close>: a sign, a prefix and an underscore after it may come first.\<close>

definition int16 :: "string \<Rightarrow> int option" where
  "int16 s0 = (let s = py_strip s0;
     (sign, body) = (case s of c # cs \<Rightarrow> if c = CHR ''-'' then (- 1, cs) else if c = CHR ''+'' then (1, cs) else (1, s) | [] \<Rightarrow> (1, []));
     digits = (if prefix ''0x'' body \<or> prefix ''0X'' body
               then (if prefix ''_'' (drop 2 body) then drop 3 body else drop 2 body) else body)
     in map_option (\<lambda>n. sign * n) (hex_nat digits))"

definition THROTTLE_BITS :: "(int \<times> string) list" where
  "THROTTLE_BITS = [(1, ''gpu_idle''), (2, ''app_clocks''), (4, ''sw_power_cap''), (8, ''HW_SLOWDOWN''), (16, ''sync_boost''),
     (32, ''sw_thermal''), (64, ''HW_THERMAL''), (128, ''HW_POWER_BRAKE'')]"

definition SMOKING_GUNS :: int where
  "SMOKING_GUNS = 8 OR 64 OR 128"

definition throttle_names :: "int \<Rightarrow> string list" where
  "throttle_names bits = map snd (filter (\<lambda>(mask, _). bits AND mask \<noteq> 0) THROTTLE_BITS)"

definition decode_throttle :: "string \<Rightarrow> string list option" where
  "decode_throttle value = (case int16 value of None \<Rightarrow> None
     | Some bits \<Rightarrow> if bits = 0 then Some [] else Some (throttle_names bits))"

section \<open>Columns and the opening line\<close>

definition col :: "string list \<Rightarrow> string list \<Rightarrow> string \<Rightarrow> string" where
  "col header row name = (case dict_get (zip header row) name of None \<Rightarrow> [] | Some v \<Rightarrow> v)"

definition parse_start :: "string \<Rightarrow> (string, string) dict" where
  "parse_start line = fold (\<lambda>token out. case split_once ''='' token of None \<Rightarrow> out | Some (k, v) \<Rightarrow> dict_set out k v)
     (drop 1 (split_ws line)) []"

definition session_is_live :: "sysfs \<Rightarrow> session \<Rightarrow> bool" where
  "session_is_live fs s =
     (let meta = parse_start (se_start s);
          current_boot = (case read_text fs ''/proc/sys/kernel/random/boot_id'' of None \<Rightarrow> [] | Some b \<Rightarrow> b)
      in dict_get meta ''boot_id'' = Some current_boot \<and>
         (case dict_get meta ''pid'' of None \<Rightarrow> False
          | Some pid \<Rightarrow> pid \<noteq> [] \<and> list_all isdigit_char pid \<and> fs_exists fs (''/proc/'' @ pid)))"

definition max_opt :: "rat list \<Rightarrow> rat option" where
  "max_opt vals = (if vals = [] then None else Some (Max (set vals)))"

definition peak :: "string list \<Rightarrow> string list list \<Rightarrow> string \<Rightarrow> rat option" where
  "peak header rows name = max_opt (List.map_filter (\<lambda>r. parse_decimal (py_strip (col header r name))) rows)"

section \<open>The report\<close>

definition FOCUS :: "string list" where
  "FOCUS = [''ts'', ''cpu_pct'', ''gpu_c'', ''gpu_w'', ''gpu_w_max'', ''gpu_throttle'', ''rp_rxerr'', ''rp_badtlp'', ''aer_cor_all'',
     ''peer_link'', ''peer_ping_ms'', ''deep_idle_off'']"

definition ljust :: "nat \<Rightarrow> string \<Rightarrow> string" where
  "ljust n s = s @ replicate (n - length s) (CHR '' '')"

text \<open>The last rows: \<open>rows[-window:]\<close>, which is all of them for zero.\<close>

definition row_tail :: "int \<Rightarrow> 'a list \<Rightarrow> 'a list" where
  "row_tail window rows = (if window > 0 then last_n (nat window) rows else drop (nat (- window)) rows)"

definition session_peaks :: "(string list \<times> string list list) list \<Rightarrow> (string \<times> rat option) list" where
  "session_peaks segments =
     map (\<lambda>(label, name). (label, max_opt (concat (map (\<lambda>(hh, rr).
         List.map_filter (peak hh rr) (case name of
            None \<Rightarrow> filter (\<lambda>c. prefix ''mlx5'' c \<and> \<not> str_in ''peak'' c) hh
          | Some n \<Rightarrow> [n])) segments))))
       [(''temp NIC mlx5 (m'' @ [CHR 0xE1] @ ''x)'', None), (''temp GPU'', Some ''gpu_c''), (''consumo GPU (W)'', Some ''gpu_w''),
        (''CPU %'', Some ''cpu_pct'')]"

definition aer_growth :: "string list \<Rightarrow> string list list \<Rightarrow> int option" where
  "aer_growth header rows =
     (case (py_int (col header (last rows) ''aer_cor_all''), py_int (col header (hd rows) ''aer_cor_all'')) of
        (Inr l, Inr f) \<Rightarrow> Some (l - f) | _ \<Rightarrow> None)"

definition hw_events :: "(string list \<times> string list list) list \<Rightarrow> (string \<times> string list) list" where
  "hw_events segments = concat (map (\<lambda>(hh, rr). List.map_filter (\<lambda>r.
     case int16 (col hh r ''gpu_throttle'') of None \<Rightarrow> None
     | Some bits \<Rightarrow> if bits AND SMOKING_GUNS \<noteq> 0
         then Some (col hh r ''ts'', (case decode_throttle (col hh r ''gpu_throttle'') of None \<Rightarrow> [] | Some ns \<Rightarrow> ns)) else None) rr) segments)"

definition table_lines :: "string list \<Rightarrow> string list list \<Rightarrow> string list" where
  "table_lines header tail =
     (let present = filter (\<lambda>c. c \<in> set header) FOCUS;
          width = (\<lambda>c. Max (set ([length c, 10] @ map (\<lambda>r. length (col header r c)) tail)));
          line = (\<lambda>f. ''    '' @ py_join ''  '' (map f present))
      in line (\<lambda>c. ljust (width c) c) # line (\<lambda>c. replicate (width c) (CHR ''-'')) #
         map (\<lambda>r. line (\<lambda>c. ljust (width c) (col header r c))) tail)"

definition rule_line :: string where "rule_line = replicate 78 (CHR ''='')"

definition file_name :: "(day \<Rightarrow> string) \<Rightarrow> day \<Rightarrow> string" where
  "file_name isodate d = ''forensics-'' @ isodate d @ ''.csv''"

text \<open>\<open>isodate\<close> is the ISO date of a day.\<close>

definition report :: "(day \<Rightarrow> string) \<Rightarrow> session \<Rightarrow> int \<Rightarrow> string list" where
  "report isodate s window =
     (let segments = List.map_filter (\<lambda>(h, r). case h of None \<Rightarrow> None | Some h' \<Rightarrow> if h' \<noteq> [] \<and> r \<noteq> [] then Some (h', r) else None) (se_segments s);
          title = [rule_line, ''MUERTE SIN AVISO  ('' @ file_name isodate (se_file s) @ '')'']
      in if segments = [] then title @ [''  Sin muestras en esta sesi'' @ [CHR 0xF3] @ ''n.'']
         else let (header, rows) = last segments; tail = row_tail window rows in
           title @ [''  '' @ se_start s,
             ''  '' @ [CHR 0xDA] @ ''ltima muestra : '' @ col header (last rows) ''ts'',
             ''  Muestras       : '' @ show_nat (sum_list (map (length \<circ> snd) segments))] @
           (if se_skipped s = 0 then [] else [''  Descartadas    : '' @ show_nat (se_skipped s) @
              '' (ancho != cabecera; log escrito por una versi'' @ [CHR 0xF3] @ ''n anterior)'']) @
           [[], ''  Picos de la sesi'' @ [CHR 0xF3] @ ''n:''] @
           map (\<lambda>(label, v). ''    '' @ ljust 22 label @ '': '' @ (case v of None \<Rightarrow> [] | Some x \<Rightarrow> show_fixed 1 x)) (session_peaks segments) @
           (case aer_growth header rows of None \<Rightarrow> []
            | Some n \<Rightarrow> [''    '' @ ljust 22 ''AER corregibles'' @ '': '' @ show_int n @ '' durante la sesi'' @ [CHR 0xF3] @ ''n'']) @
           (case hw_events segments of [] \<Rightarrow> []
            | e # es \<Rightarrow> [[], ''  *** '' @ show_nat (length (e # es)) @ '' frenada(s) por HARDWARE durante la sesi'' @ [CHR 0xF3] @ ''n ***''] @
                map (\<lambda>(ts, names). ''    '' @ ts @ ''  '' @ py_join ''+'' names) (last_n 5 (e # es))) @
           [[], ''  '' @ [CHR 0xDA] @ ''ltimas '' @ show_nat (length tail) @ '' muestras:''] @ table_lines header tail @ [[]])"

definition dirty_sessions :: "sysfs \<Rightarrow> session list \<Rightarrow> session list" where
  "dirty_sessions fs ss = filter (\<lambda>s. \<not> se_clean s \<and> \<not> session_is_live fs s) ss"

text \<open>\<open>main\<close>: the exit code, and the lines on the standard output and on the error output.  The dash in the last
  line, no Latin-1 character, is a hyphen here.\<close>

definition crash_main :: "(day \<Rightarrow> string) \<Rightarrow> string \<Rightarrow> sysfs \<Rightarrow> logs \<Rightarrow> bool \<Rightarrow> int \<Rightarrow> nat \<times> string list \<times> string list" where
  "crash_main isodate log_dir fs logs every window =
     (let sessions = all_sessions logs; dirty = dirty_sessions fs sessions in
      if sessions = [] then (1, [], [''No hay logs de forense en '' @ log_dir @ ''.''])
      else if dirty = [] then (0, [show_nat (length sessions) @ '' sesi'' @ [CHR 0xF3] @ ''n(es) registrada(s), ninguna muri'' @ [CHR 0xF3] @ '' sin avisar.'',
          ''Ning'' @ [CHR 0xFA] @ ''n corte inesperado desde que el logger est'' @ [CHR 0xE1] @ '' activo.''], [])
      else (0, concat (map (\<lambda>s. report isodate s window) (if every then dirty else [last dirty])) @
          (if \<not> every \<and> length dirty > 1
           then [''(hay '' @ show_nat (length dirty) @ '' muertes registradas en total - usa --all para verlas todas)''] else []), []))"

section \<open>Throttling by the hardware\<close>

lemma and_or_zero: "bits AND (a OR b) = 0 \<longleftrightarrow> bits AND a = 0 \<and> bits AND b = (0 :: int)"
  by (simp add: bit.conj_disj_distrib or_eq_0_iff)

text \<open>The reading that raises the alarm and the names printed with it agree: a reading counts as a
  hardware event exactly if its names hold one of the three hardware reasons.\<close>

theorem smoking_gun_named:
  "bits AND SMOKING_GUNS \<noteq> 0 \<longleftrightarrow> list_ex (prefix ''HW_'') (throttle_names bits)"
  unfolding SMOKING_GUNS_def and_or_zero de_Morgan_conj by (auto simp: throttle_names_def THROTTLE_BITS_def)

section \<open>Which session is reported\<close>

definition spaceless :: "string \<Rightarrow> bool" where
  "spaceless s = list_all (\<lambda>c. \<not> is_space c) s"

lemma split_ws_word: "spaceless w \<Longrightarrow> w \<noteq> [] \<Longrightarrow> split_ws (w @ CHR '' '' # rest) = w # split_ws (CHR '' '' # rest)"
proof -
  assume w: "spaceless w" "w \<noteq> []"
  obtain c cs where c: "w = c # cs" "\<not> is_space c" using w by (cases w) (auto simp: spaceless_def)
  have "takeWhile (\<lambda>c. \<not> is_space c) (w @ CHR '' '' # rest) = w" "dropWhile (\<lambda>c. \<not> is_space c) (w @ CHR '' '' # rest) = CHR '' '' # rest"
    using w by (simp_all add: spaceless_def list_all_iff is_space_def)
  then show ?thesis using c by (subst split_ws.simps) (simp add: lstrip_def)
qed

lemma split_ws_space: "split_ws (CHR '' '' # s) = split_ws s"
proof -
  have "lstrip (CHR '' '' # s) = lstrip s" by (simp add: lstrip_def is_space_def)
  then show ?thesis by (subst (1 2) split_ws.simps) simp
qed

lemma split_ws_end: "spaceless w \<Longrightarrow> w \<noteq> [] \<Longrightarrow> split_ws w = [w]"
proof -
  assume w: "spaceless w" "w \<noteq> []"
  obtain c cs where c: "w = c # cs" "\<not> is_space c" using w by (cases w) (auto simp: spaceless_def)
  have all: "\<forall>x \<in> set cs. \<not> is_space x" using w c by (simp add: spaceless_def list_all_iff)
  then have rest: "dropWhile (\<lambda>c. \<not> is_space c) cs = []" by simp
  have "split_ws [] = []" by (subst split_ws.simps) (simp add: lstrip_def)
  then show ?thesis by (subst split_ws.simps) (simp add: lstrip_def c all rest)
qed

lemma spaceless_append [simp]: "spaceless (a @ b) \<longleftrightarrow> spaceless a \<and> spaceless b"
  by (simp add: spaceless_def)

lemma split_five:
  assumes "spaceless a" "a \<noteq> []" "spaceless b" "b \<noteq> []" "spaceless c" "c \<noteq> []" "spaceless d" "d \<noteq> []" "spaceless e" "e \<noteq> []"
  shows "split_ws (a @ CHR '' '' # b @ CHR '' '' # c @ CHR '' '' # d @ CHR '' '' # e) = [a, b, c, d, e]"
  using assms by (simp add: split_ws_word split_ws_space split_ws_end)

lemma boot_words:
  assumes "spaceless ts" "spaceless b" "b \<noteq> []" "spaceless interval" "spaceless pid"
  shows "split_ws (boot_line ts (Some b) interval pid) =
    [''#BOOT_START'', ''ts='' @ ts, ''boot_id='' @ b, ''interval='' @ interval @ ''s'', ''pid='' @ pid]"
proof -
  have words: "spaceless ''#BOOT_START''" "spaceless (''ts='' @ ts)" "spaceless (''boot_id='' @ b)"
    "spaceless (''interval='' @ interval @ ''s'')" "spaceless (''pid='' @ pid)"
    using assms by (simp_all add: spaceless_append) (simp_all add: spaceless_def is_space_def)
  have line: "boot_line ts (Some b) interval pid = ''#BOOT_START'' @ CHR '' '' # (''ts='' @ ts) @ CHR '' '' # (''boot_id='' @ b) @
      CHR '' '' # (''interval='' @ interval @ ''s'') @ CHR '' '' # (''pid='' @ pid)"
    using assms(3) by (simp add: boot_line_def)
  show ?thesis unfolding line by (rule split_five) (use words in simp_all)
qed

text \<open>What is written into the opening line is read out of it.\<close>

lemma parse_start_boot:
  assumes "spaceless ts" "spaceless b" "b \<noteq> []" "spaceless interval" "spaceless pid"
  shows "parse_start (boot_line ts (Some b) interval pid) =
    [(''ts'', ts), (''boot_id'', b), (''interval'', interval @ ''s''), (''pid'', pid)]"
  by (simp add: parse_start_def boot_words [OF assms])

text \<open>A session of another boot is not the one that runs now.\<close>

lemma old_boot_not_live:
  assumes "spaceless ts" "spaceless b" "b \<noteq> []" "spaceless interval" "spaceless pid"
    and "read_text fs ''/proc/sys/kernel/random/boot_id'' = Some b'" "b' \<noteq> b" "se_start s = boot_line ts (Some b) interval pid"
  shows "\<not> session_is_live fs s"
  using assms(6-8) by (simp add: session_is_live_def parse_start_boot [OF assms(1-5)] Let_def)

text \<open>C17: a death is reported, and it is the one reported.  If the sampler's session ended without being
  stopped and the machine has another boot identity now, the report without options is about that
  session, opened by the sampler's line and holding exactly its rows, whatever was logged before;
  if it was stopped, it is not among the deaths.\<close>

theorem crash_reported:
  assumes words: "spaceless ts" "spaceless b" "b \<noteq> []" "spaceless interval" "spaceless pid"
    and boot: "boot = boot_line ts (Some b) interval pid" "\<not> str_in ''resumed=1'' boot"
    and rebooted: "read_text fs ''/proc/sys/kernel/random/boot_id'' = Some b'" "b' \<noteq> b"
    and run: "header_text header" "list_all (good_row header \<circ> snd) rows" "distinct (dict_keys logs)"
      "in_order retention (set (dict_keys logs)) (fst now # map (fst \<circ> fst) rows @ (case stop of None \<Rightarrow> [] | Some t \<Rightarrow> [fst t]))"
    and logs': "logs' = sampler_run retention header now boot rows stop logs"
  shows "\<exists>s. last (all_sessions logs') = s \<and> summary s = (boot, stop \<noteq> None, map (\<lambda>r. (Some header, snd r)) rows) \<and>
    (if stop = None then \<exists>more. crash_main isodate log_dir fs logs' False window = (0, report isodate s window @ more, [])
     else s \<notin> set (dirty_sessions fs (all_sessions logs')))"
proof -
  have "prefix ''#BOOT_START'' boot" by (simp add: boot(1) boot_line_def)
  from sampler_run_effect [OF run(1) this boot(2) run(2-4)]
  have sums: "summaries logs' = summaries logs @ [(boot, stop \<noteq> None, map (\<lambda>r. (Some header, snd r)) rows)]"
    unfolding logs' by blast
  then obtain ss s where all: "all_sessions logs' = ss @ [s]"
    by (cases "all_sessions logs'" rule: rev_cases) (simp_all add: summaries_def)
  then have s: "summary s = (boot, stop \<noteq> None, map (\<lambda>r. (Some header, snd r)) rows)" using sums by (simp add: summaries_def)
  then have start: "se_start s = boot" "se_clean s \<longleftrightarrow> stop \<noteq> None" by (simp_all add: summary_def)
  have "\<exists>more. crash_main isodate log_dir fs logs' False window = (0, report isodate s window @ more, [])" if "stop = None"
  proof -
    have "\<not> session_is_live fs s" using old_boot_not_live [OF words rebooted] start(1) boot(1) by simp
    then have "dirty_sessions fs (all_sessions logs') = dirty_sessions fs ss @ [s]"
      using all start(2) that by (simp add: dirty_sessions_def)
    then show ?thesis using all by (simp add: crash_main_def Let_def)
  qed
  moreover have "s \<notin> set (dirty_sessions fs (all_sessions logs'))" if "stop \<noteq> None"
    using start(2) that by (simp add: dirty_sessions_def)
  ultimately show ?thesis using all s by auto
qed

theorem crash_reported_witness:
  "\<exists>s more. crash_main (\<lambda>_. ''2026-01-01'') ''logs'' (bare_fs\<lparr>fs_text := map_of [(''/proc/sys/kernel/random/boot_id'', ''new'')]\<rparr>)
      (sampler_run 21 [''ts'', ''gpu_c'', ''gpu_w''] (5, ''2'') (boot_line ''2'' (Some ''old'') ''15.0'' ''7'') example_rows None example_logs) False 25 =
      (0, report (\<lambda>_. ''2026-01-01'') s 25 @ more, []) \<and> length (rows_of (se_segments s)) = 2"
proof -
  have words: "spaceless ''2''" "spaceless ''old''" "''old'' \<noteq> []" "spaceless ''15.0''" "spaceless ''7''"
    by (simp_all add: spaceless_def is_space_def)
  have boot: "\<not> str_in ''resumed=1'' (boot_line ''2'' (Some ''old'') ''15.0'' ''7'')"
    by (simp add: boot_line_def str_in_def sublist_Cons_right)
  have fs: "read_text (bare_fs\<lparr>fs_text := map_of [(''/proc/sys/kernel/random/boot_id'', ''new'')]\<rparr>) ''/proc/sys/kernel/random/boot_id'' = Some ''new''"
    "''new'' \<noteq> ''old''"
    by (simp_all add: read_text_def py_strip_def lstrip_def rstrip_def is_space_def)
  have order: "in_order 21 (set (dict_keys example_logs)) (fst (5 :: nat, ''2'') # map (fst \<circ> fst) example_rows @
      (case None of None \<Rightarrow> [] | Some t \<Rightarrow> [fst (t :: nat \<times> string)]))"
    by (simp add: example_logs_def example_rows_def in_order_def)
  from crash_reported [OF words refl boot fs example_run(1,4,5) order refl, of "\<lambda>_. ''2026-01-01''" "''logs''" 25]
  obtain s where s: "summary s = (boot_line ''2'' (Some ''old'') ''15.0'' ''7'', False, map (\<lambda>r. (Some [''ts'', ''gpu_c'', ''gpu_w''], snd r)) example_rows)"
    "\<exists>more. crash_main (\<lambda>_. ''2026-01-01'') ''logs'' (bare_fs\<lparr>fs_text := map_of [(''/proc/sys/kernel/random/boot_id'', ''new'')]\<rparr>)
      (sampler_run 21 [''ts'', ''gpu_c'', ''gpu_w''] (5, ''2'') (boot_line ''2'' (Some ''old'') ''15.0'' ''7'') example_rows None example_logs) False 25 =
      (0, report (\<lambda>_. ''2026-01-01'') s 25 @ more, [])" by auto
  have "length (rows_of (se_segments s)) = 2" using s(1) by (simp add: summary_def example_rows_def)
  then show ?thesis using s(2) by blast
qed

end
