(* ===== verification/ChatFlow.thy ===== *)
theory ChatFlow
  imports Endpoints
begin

text \<open>
  A chat request over its whole life: the endpoint \<open>chat_completions\<close> of \<open>gateway/app.py\<close> with its two
  tasks (\<open>until_disconnect\<close> of \<open>gateway/admission.py\<close>), and the response that carries the lease away.
  Any number of requests interleave; every step is the code between two awaits, and what happens to
  the admission queue in it is one of its operations.
\<close>

section \<open>The phases of a request\<close>

text \<open>\<open>Admitting\<close>: the work waits in \<open>acquire\<close>; \<open>Dispatching\<close>: it has stored its lease and runs the
  inner endpoint; \<open>Answered\<close>: it has ended and the endpoint has not resumed; \<open>Leaving\<close> and \<open>Stopping\<close>:
  the client left, or the endpoint was cancelled, while the work was waiting or dispatching, and
  the work has not ended; \<open>Streaming\<close>: the response is being sent.  \<open>chat_early\<close> is a client that left before the work task
  started, and \<open>chat_respond\<close> with \<open>w\<close> false an endpoint cancelled after its work had ended.\<close>

datatype phase =
    Admitting
  | Dispatching nat
  | Answered "nat option" "exn + response"
  | Leaving
  | Stopping nat
  | Streaming nat
  | Closed

fun held :: "phase \<Rightarrow> nat option" where
  "held (Dispatching l) = Some l"
| "held (Answered lease r) = lease"
| "held (Stopping l) = Some l"
| "held (Streaming l) = Some l"
| "held _ = None"

definition waits :: "phase \<Rightarrow> bool" where
  "waits ph = (ph = Admitting \<or> ph = Leaving)"

text \<open>\<open>acquire\<close> up to its first await decides the first phase.\<close>

definition first_phase :: "exn + acquired \<Rightarrow> phase" where
  "first_phase r = (case r of Inl e \<Rightarrow> Answered None (Inl (admission_error e))
     | Inr (Granted l) \<Rightarrow> Dispatching l | Inr (Queued f) \<Rightarrow> Admitting)"

text \<open>\<open>until_disconnect\<close>, when the client leaves or the endpoint is cancelled before the work has ended: it
  cancels the work and waits for it.\<close>

fun disconnected :: "phase \<Rightarrow> phase option" where
  "disconnected Admitting = Some Leaving"
| "disconnected (Dispatching l) = Some (Stopping l)"
| "disconnected _ = None"

text \<open>The \<open>finally\<close> clause of the endpoint: what it keeps goes to the response.\<close>

definition last_phase :: "nat option \<Rightarrow> phase" where
  "last_phase kept = (case kept of None \<Rightarrow> Closed | Some l \<Rightarrow> Streaming l)"

record chat_sys =
  cs_adm :: adm_sys
  cs_phase :: "nat \<Rightarrow> phase option"

abbreviation cs_queue :: "chat_sys \<Rightarrow> admission" where
  "cs_queue s \<equiv> queue (cs_adm s)"

abbreviation cs_tasks :: "chat_sys \<Rightarrow> nat \<Rightarrow> frame option" where
  "cs_tasks s \<equiv> tasks (cs_adm s)"

definition step_to :: "admission \<Rightarrow> nat \<Rightarrow> frame option \<Rightarrow> phase \<Rightarrow> chat_sys \<Rightarrow> chat_sys" where
  "step_to q t fr ph s = \<lparr>cs_adm = \<lparr>queue = q, tasks = (cs_tasks s)(t := fr)\<rparr>, cs_phase = (cs_phase s)(t \<mapsto> ph)\<rparr>"

inductive chat_step :: "chat_sys \<Rightarrow> chat_sys \<Rightarrow> bool" where
  chat_arrive: "cs_phase s t = None \<Longrightarrow> acquire_start p (cs_queue s) = (r, q) \<Longrightarrow>
     chat_step s (step_to q t (Some (frame_of p r)) (first_phase r) s)"
| chat_early: "cs_phase s t = None \<Longrightarrow> chat_step s (step_to (cs_queue s) t None Closed s)"
| chat_interrupt: "cs_phase s t = Some ph \<Longrightarrow> waits ph \<Longrightarrow> cs_tasks s t = Some (Waiting p f) \<Longrightarrow>
     futures (cs_queue s) ! f = Pending \<Longrightarrow>
     chat_step s (step_to ((cs_queue s)\<lparr>futures := (futures (cs_queue s))[f := Cancelled]\<rparr>) t (Some (Waiting p f)) ph s)"
| chat_wake: "cs_phase s t = Some Admitting \<Longrightarrow> cs_tasks s t = Some (Waiting p f) \<Longrightarrow> futures (cs_queue s) ! f = Done l \<Longrightarrow>
     chat_step s (step_to (cs_queue s) t (Some (Holding p l)) (Dispatching l) s)"
| chat_time_out: "cs_phase s t = Some Admitting \<Longrightarrow> cs_tasks s t = Some (Waiting p f) \<Longrightarrow>
     chat_step s (step_to (acquire_abort p f (cs_queue s)) t (Some Failed) (Answered None (Inl (admission_error TimeoutError))) s)"
| chat_left: "cs_phase s t = Some Leaving \<Longrightarrow> cs_tasks s t = Some (Waiting p f) \<Longrightarrow>
     chat_step s (step_to (acquire_abort p f (cs_queue s)) t (Some Failed) Closed s)"
| chat_done: "cs_phase s t = Some (Dispatching l) \<Longrightarrow>
     chat_step s (step_to (cs_queue s) t (cs_tasks s t) (Answered (Some l) r) s)"
| chat_leave: "cs_phase s t = Some ph \<Longrightarrow> disconnected ph = Some ph' \<Longrightarrow>
     chat_step s (step_to (cs_queue s) t (cs_tasks s t) ph' s)"
| chat_stopped: "cs_phase s t = Some (Stopping l) \<Longrightarrow>
     finish_chat (Some l) (until_disconnect False r) (cs_queue s) = (kept, q) \<Longrightarrow>
     chat_step s (step_to q t (cs_tasks s t) (last_phase kept) s)"
| chat_respond: "cs_phase s t = Some (Answered lease r) \<Longrightarrow>
     finish_chat lease (until_disconnect w r) (cs_queue s) = (kept, q) \<Longrightarrow>
     chat_step s (step_to q t (cs_tasks s t) (last_phase kept) s)"
| chat_sent: "cs_phase s t = Some (Streaming l) \<Longrightarrow>
     chat_step s (step_to (finish_stream (Some l) (cs_queue s)) t (cs_tasks s t) Closed s)"

definition chat_init :: "chat_sys \<Rightarrow> bool" where
  "chat_init s = (adm_init (cs_adm s) \<and> cs_phase s = (\<lambda>_. None))"

section \<open>Leases only change hands one way\<close>

text \<open>Leases are only added, and only those in \<open>L\<close> may become released.\<close>

definition released_only :: "nat set \<Rightarrow> bool list \<Rightarrow> bool list \<Rightarrow> bool" where
  "released_only L ls ls' = (length ls \<le> length ls' \<and> (\<forall>k < length ls. (ls ! k \<longrightarrow> ls' ! k) \<and> (ls' ! k \<longrightarrow> ls ! k \<or> k \<in> L)))"

text \<open>The same of two states of the queue, and a future that became done got a new lease.\<close>

definition moved :: "nat set \<Rightarrow> admission \<Rightarrow> admission \<Rightarrow> bool" where
  "moved L q q' = (released_only L (leases q) (leases q') \<and>
     (\<forall>f < length (futures q). \<forall>l. futures q' ! f = Done l \<longrightarrow>
        futures q ! f = Done l \<or> l < length (leases q') \<and> \<not> leases q' ! l) \<and>
     length (futures q) \<le> length (futures q'))"

lemma released_only_refl: "released_only L ls ls"
  by (simp add: released_only_def)

lemma moved_refl: "moved L q q"
  by (simp add: moved_def released_only_refl)

lemma released_only_trans: "released_only L a b \<Longrightarrow> released_only {} b c \<Longrightarrow> released_only L a c"
  by (auto simp: released_only_def)

lemma moved_trans: "moved L a b \<Longrightarrow> moved {} b c \<Longrightarrow> moved L a c"
proof -
  assume ab: "moved L a b" and bc: "moved {} b c"
  have "released_only L (leases a) (leases c)"
    using ab bc unfolding moved_def by (blast intro: released_only_trans)
  moreover have "futures a ! f = Done l \<or> l < length (leases c) \<and> \<not> leases c ! l"
    if "f < length (futures a)" "futures c ! f = Done l" for f l
  proof -
    have "f < length (futures b)" using ab that(1) by (simp add: moved_def)
    with bc that(2) consider "futures b ! f = Done l" | "l < length (leases c) \<and> \<not> leases c ! l"
      unfolding moved_def by blast
    then show ?thesis
    proof cases
      case 1
      with ab that(1) consider "futures a ! f = Done l" | "l < length (leases b)" "\<not> leases b ! l"
        unfolding moved_def by blast
      then show ?thesis
      proof cases
        case 2
        with bc have "l < length (leases c)" "\<not> leases c ! l" by (auto simp: moved_def released_only_def)
        then show ?thesis by simp
      qed simp
    qed simp
  qed
  ultimately show ?thesis using ab bc by (simp add: moved_def)
qed

lemma moved_grant: "moved {} q (q\<lparr>waiting := ws, active := n, profile := pr, leases := leases q @ [False],
   futures := (futures q)[f := Done (length (leases q))]\<rparr>)"
  by (auto simp: moved_def released_only_def nth_append nth_upd)

lemma moved_same: "leases q' = leases q \<Longrightarrow> futures q' = futures q \<Longrightarrow> moved L q q'"
  by (simp add: moved_def released_only_refl)

lemma moved_promote: "moved {} q (promote q)"
proof (induction q rule: promote_induct)
  case (stop q)
  then show ?case by (simp add: moved_refl)
next
  case (skip q p f ws)
  then have "moved {} q (q\<lparr>waiting := ws\<rparr>)" by (intro moved_same) simp_all
  from moved_trans [OF this skip.IH] show ?case using skip.hyps by simp
next
  case (grant q p f ws q')
  then have "moved {} q q'" using moved_grant by simp
  from moved_trans [OF this grant.IH] show ?case using grant.hyps by simp
qed

lemma moved_release:
  assumes "l < length (leases q)"
  shows "moved {l} q (lease_release l q)"
proof (cases l q rule: lease_release_cases)
  case already
  then show ?thesis by (simp add: moved_refl)
next
  case (fresh q2)
  have "moved {l} q q2" using assms fresh(3,4) by (auto simp: moved_def released_only_def nth_upd)
  then show ?thesis using moved_trans moved_promote fresh(2) by metis
qed

lemma moved_abort:
  assumes "\<forall>l. futures q ! f = Done l \<longrightarrow> l < length (leases q)"
  shows "moved {l. futures q ! f = Done l} q (acquire_abort p f q)"
proof (cases "\<exists>l. futures q ! f = Done l")
  case True
  then obtain l where l: "futures q ! f = Done l" by blast
  let ?q1 = "lease_release l q"
  have "{l. futures q ! f = Done l} = {l}" using l by auto
  moreover have "moved {l} q ?q1" using moved_release assms l by blast
  moreover have "moved {} ?q1 (?q1\<lparr>waiting := remove1 (p, f) (waiting ?q1)\<rparr>)" by (rule moved_same) simp_all
  ultimately show ?thesis using acquire_abort_done [OF l] moved_trans moved_promote by (metis (no_types, lifting))
next
  case False
  let ?q = "q\<lparr>futures := (futures q)[f := Cancelled], waiting := remove1 (p, f) (waiting q)\<rparr>"
  have "acquire_abort p f q = promote ?q" using False by (intro acquire_abort_not_done) simp
  moreover have "{l. futures q ! f = Done l} = {}" using False by simp
  moreover have "moved {} q ?q" by (auto simp: moved_def released_only_refl nth_upd)
  ultimately show ?thesis using moved_trans [OF _ moved_promote] by simp
qed

lemma moved_start: "acquire_start p q = (r, q') \<Longrightarrow> moved {} q q'"
  by (auto simp: acquire_start_def grant_def moved_def released_only_def nth_append split: if_splits)

lemma moved_cancel: "moved {} q (q\<lparr>futures := (futures q)[f := Cancelled]\<rparr>)"
  by (auto simp: moved_def released_only_refl nth_upd)

section \<open>The phase and the frame of a request agree\<close>

definition phase_ok :: "bool list \<Rightarrow> frame option \<Rightarrow> phase option \<Rightarrow> bool" where
  "phase_ok ls fr ph = (case ph of None \<Rightarrow> fr = None
     | Some x \<Rightarrow> (case held x of
         Some l \<Rightarrow> (\<exists>p. fr = Some (Holding p l)) \<and> \<not> ls ! l
       | None \<Rightarrow> if waits x then \<exists>p f. fr = Some (Waiting p f)
           else (\<forall>p f. fr \<noteq> Some (Waiting p f)) \<and> (\<forall>p l. fr = Some (Holding p l) \<longrightarrow> ls ! l)))"

definition chat_inv :: "chat_sys \<Rightarrow> bool" where
  "chat_inv s = (adm_inv (cs_adm s) \<and> (\<forall>t. phase_ok (leases (cs_queue s)) (cs_tasks s t) (cs_phase s t)) \<and>
     (\<forall>t p f l. cs_tasks s t = Some (Waiting p f) \<and> futures (cs_queue s) ! f = Done l \<longrightarrow> \<not> leases (cs_queue s) ! l))"

lemma phase_ok_simps [simp]:
  "phase_ok ls fr None = (fr = None)"
  "phase_ok ls fr (Some Admitting) = (\<exists>p f. fr = Some (Waiting p f))"
  "phase_ok ls fr (Some Leaving) = (\<exists>p f. fr = Some (Waiting p f))"
  "phase_ok ls fr (Some (Dispatching l)) = ((\<exists>p. fr = Some (Holding p l)) \<and> \<not> ls ! l)"
  "phase_ok ls fr (Some (Stopping l)) = ((\<exists>p. fr = Some (Holding p l)) \<and> \<not> ls ! l)"
  "phase_ok ls fr (Some (Streaming l)) = ((\<exists>p. fr = Some (Holding p l)) \<and> \<not> ls ! l)"
  "phase_ok ls fr (Some (Answered (Some l) r)) = ((\<exists>p. fr = Some (Holding p l)) \<and> \<not> ls ! l)"
  "phase_ok ls (Some Failed) (Some (Answered None r))"
  "phase_ok ls (Some Failed) (Some Closed)"
  "phase_ok ls None (Some Closed)"
  "phase_ok ls (Some (Holding p l)) (Some Closed) = ls ! l"
  by (auto simp: phase_ok_def waits_def)

lemma phase_ok_kept:
  assumes ok: "phase_ok ls fr ph" and rel: "released_only L ls ls'"
    and fresh: "\<And>p l. fr = Some (Holding p l) \<Longrightarrow> l < length ls \<and> l \<notin> L"
  shows "phase_ok ls' fr ph"
proof -
  have eq: "ls' ! l = ls ! l" if "fr = Some (Holding p l)" for p l
    using rel fresh [OF that] by (auto simp: released_only_def)
  show ?thesis using ok eq by (auto simp: phase_ok_def split: option.splits)
qed

lemma owner_facts:
  assumes "adm_inv a" "owns (tasks a) (futures (queue a)) t p l"
  shows "l < length (leases (queue a))"
    "owns (tasks a) (futures (queue a)) t' p' l \<Longrightarrow> t' = t"
  using assms unfolding adm_inv_def adm_ok_def leases_ok_def by blast+

lemma step_to_inv:
  assumes inv: "chat_inv s" and adm: "adm_inv (cs_adm (step_to q t fr ph s))"
    and mv: "moved L (cs_queue s) q"
    and own: "\<And>l. l \<in> L \<Longrightarrow> \<exists>p. owns (cs_tasks s) (futures (cs_queue s)) t p l"
    and new: "\<And>p f. fr = Some (Waiting p f) \<Longrightarrow> (\<forall>l. futures q ! f \<noteq> Done l) \<or> (L = {} \<and> cs_tasks s t = fr)"
    and ph: "phase_ok (leases q) fr (Some ph)"
  shows "chat_inv (step_to q t fr ph s)"
proof -
  have a: "adm_inv (cs_adm s)" using inv by (simp add: chat_inv_def)
  have rel: "released_only L (leases (cs_queue s)) (leases q)" using mv by (simp add: moved_def)
  have other: "l < length (leases (cs_queue s)) \<and> l \<notin> L"
    if "owns (cs_tasks s) (futures (cs_queue s)) t' p l" "t' \<noteq> t \<or> L = {}" for t' p l
    using owner_facts [OF a that(1)] own that(2) by blast
  have 1: "phase_ok (leases q) (cs_tasks s t') (cs_phase s t')" if "t' \<noteq> t" for t'
  proof (rule phase_ok_kept [OF _ rel])
    show "phase_ok (leases (cs_queue s)) (cs_tasks s t') (cs_phase s t')" using inv by (simp add: chat_inv_def)
    show "l < length (leases (cs_queue s)) \<and> l \<notin> L" if "cs_tasks s t' = Some (Holding p l)" for p l
      using other [of t' p l] that \<open>t' \<noteq> t\<close> by (simp add: owns_def)
  qed
  have 2: "\<not> leases q ! l"
    if w: "cs_tasks s t' = Some (Waiting p f)" and d: "futures q ! f = Done l" and t': "t' \<noteq> t \<or> L = {}" for t' p f l
  proof -
    have "f < length (futures (cs_queue s))" using a w unfolding adm_inv_def adm_ok_def frames_ok_def by blast
    with mv d consider "futures (cs_queue s) ! f = Done l" | "\<not> leases q ! l" unfolding moved_def by blast
    then show ?thesis
    proof cases
      case 1
      then have "\<not> leases (cs_queue s) ! l" using inv w unfolding chat_inv_def by blast
      moreover have "owns (cs_tasks s) (futures (cs_queue s)) t' p l" using w 1 by (auto simp: owns_def)
      ultimately show ?thesis using other [OF _ t'] rel unfolding released_only_def by blast
    qed
  qed
  have 3: "\<not> leases q ! l" if "fr = Some (Waiting p f)" "futures q ! f = Done l" for p f l
    using new [OF that(1)] that 2 [of t p f l] by auto
  have 4: "\<not> leases q ! l" if "((cs_tasks s)(t := fr)) t' = Some (Waiting p f)" "futures q ! f = Done l" for t' p f l
    using 2 [of t' p f l] 3 [of p f l] that by (cases "t' = t") simp_all
  let ?s = "step_to q t fr ph s"
  have eqs: "cs_queue ?s = q" "cs_tasks ?s = (cs_tasks s)(t := fr)" "cs_phase ?s = (cs_phase s)(t \<mapsto> ph)"
    by (simp_all add: step_to_def)
  have 5: "phase_ok (leases q) (((cs_tasks s)(t := fr)) t') (((cs_phase s)(t \<mapsto> ph)) t')" for t'
    using 1 [of t'] ph by (cases "t' = t") simp_all
  show ?thesis unfolding chat_inv_def eqs using adm 5 4 by blast
qed

section \<open>Every step of a request is a step of the queue\<close>

text \<open>The endpoint refines the task of \<open>Admission\<close>: each step is one of its steps, or leaves the
  queue and the frames alone.\<close>

lemma set_queue: "a\<lparr>queue := q\<rparr> = \<lparr>queue = q, tasks = tasks a\<rparr>"
  by simp

lemma release_step:
  "cs_tasks s t = Some (Holding p l) \<Longrightarrow>
   adm_step (cs_adm s) \<lparr>queue = lease_release l (cs_queue s), tasks = cs_tasks s\<rparr>"
  using adm_step.adm_release [of "cs_adm s" t p l] unfolding set_queue .
lemma stutter [simp]: "\<lparr>queue = cs_queue s, tasks = cs_tasks s\<rparr> = cs_adm s"
  by (cases "cs_adm s") simp

definition adm_moves :: "adm_sys \<Rightarrow> adm_sys \<Rightarrow> bool" where
  "adm_moves a b = (adm_step a b \<or> b = a)"

lemma finish_moves:
  assumes "\<And>l. lease = Some l \<Longrightarrow> \<exists>p. cs_tasks s t = Some (Holding p l)"
    and "finish_chat lease r (cs_queue s) = (kept, q)"
  shows "adm_moves (cs_adm s) \<lparr>queue = q, tasks = cs_tasks s\<rparr>"
proof (cases lease)
  case None
  then show ?thesis using assms(2) by (simp add: finish_chat_def adm_moves_def)
next
  case (Some l)
  then obtain p where "cs_tasks s t = Some (Holding p l)" using assms(1) by blast
  note st = release_step [OF this]
  have "q = cs_queue s \<or> q = lease_release l (cs_queue s)"
    using assms(2) Some by (auto simp: finish_chat_def split: sum.splits response.splits)
  then show ?thesis using st by (auto simp: adm_moves_def)
qed

lemma chat_step_moves:
  assumes "chat_step s s'" "chat_inv s"
  shows "adm_moves (cs_adm s) (cs_adm s')"
proof -
  have ok: "phase_ok (leases (cs_queue s)) (cs_tasks s t) (cs_phase s t)" for t
    using assms(2) by (simp add: chat_inv_def)
  note d = adm_moves_def step_to_def
  from assms(1) show ?thesis
  proof cases
    case (chat_arrive t p r q)
    then show ?thesis using ok [of t] adm_step.adm_arrive [of "cs_adm s" t p r q] by (simp add: d)
  next
    case (chat_early t)
    then show ?thesis using ok [of t] fun_upd_triv [of "cs_tasks s" t] by (simp add: d)
  next
    case (chat_interrupt t ph p f)
    then have "(cs_tasks s)(t \<mapsto> Waiting p f) = cs_tasks s" by auto
    then show ?thesis using chat_interrupt adm_step.adm_interrupt [of "cs_adm s" t p f] by (cases "cs_adm s") (simp add: d)
  next
    case (chat_wake t p f l)
    then show ?thesis using adm_step.adm_wake [of "cs_adm s" t p f l] by (cases "cs_adm s") (simp add: d)
  next
    case (chat_time_out t p f)
    then show ?thesis using adm_step.adm_abort [of "cs_adm s" t p f] by (simp add: d)
  next
    case (chat_left t p f)
    then show ?thesis using adm_step.adm_abort [of "cs_adm s" t p f] by (simp add: d)
  next
    case (chat_done t l r)
    then show ?thesis by (simp add: d)
  next
    case (chat_leave t ph ph')
    then show ?thesis by (simp add: d)
  next
    case (chat_stopped t l r kept q)
    then show ?thesis using ok [of t] finish_moves [OF _ chat_stopped(3), of t] by (simp add: step_to_def)
  next
    case (chat_respond t lease r w kept q)
    have "\<exists>p. cs_tasks s t = Some (Holding p l)" if "lease = Some l" for l
      using ok [of t] chat_respond(2) that by simp
    then show ?thesis using finish_moves [OF _ chat_respond(3), of t] chat_respond(1) by (simp add: step_to_def)
  next
    case (chat_sent t l)
    then show ?thesis using ok [of t] release_step [of s t]
      by (simp add: step_to_def finish_stream_def) (metis adm_moves_def)
  qed
qed

section \<open>The invariant of the whole endpoint\<close>

lemma adm_moves_inv: "adm_moves a b \<Longrightarrow> adm_inv a \<Longrightarrow> adm_inv b"
  using adm_step_inv unfolding adm_moves_def by blast

lemma phase_ok_first: "acquire_start p q = (r, q') \<Longrightarrow> phase_ok (leases q') (Some (frame_of p r)) (Some (first_phase r))"
  by (auto simp: acquire_start_def grant_def frame_of_def first_phase_def split: if_splits)

lemma phase_ok_finish:
  assumes "finish_chat lease r q = (kept, q')" "phase_ok (leases q) fr (Some (Answered lease x))"
    and "\<And>p l. fr = Some (Holding p l) \<Longrightarrow> l < length (leases q)"
  shows "phase_ok (leases q') fr (Some (last_phase kept))"
proof (cases lease)
  case None
  then show ?thesis using assms by (auto simp: finish_chat_def last_phase_def phase_ok_def waits_def)
next
  case (Some l)
  then obtain p where p: "fr = Some (Holding p l)" "\<not> leases q ! l" using assms(2) by auto
  have "leases (lease_release l q) ! l" using lease_released assms(3) [OF p(1)] .
  then show ?thesis using assms(1) Some p
    by (auto simp: finish_chat_def last_phase_def split: sum.splits response.splits)
qed

lemma moved_finish:
  assumes "finish_chat lease r q = (kept, q')" "\<And>l. lease = Some l \<Longrightarrow> l < length (leases q)"
  shows "moved (set_option lease) q q'"
  using assms moved_release by (cases lease) (auto simp: finish_chat_def moved_refl split: sum.splits response.splits)

text \<open>The end of the endpoint, from any phase in which the work has ended with \<open>lease\<close>.\<close>

lemma finish_inv:
  assumes inv: "chat_inv s" and ph: "phase_ok (leases (cs_queue s)) (cs_tasks s t) (Some (Answered lease x))"
    and fin: "finish_chat lease r (cs_queue s) = (kept, q)"
    and adm: "adm_inv (cs_adm (step_to q t (cs_tasks s t) (last_phase kept) s))"
  shows "chat_inv (step_to q t (cs_tasks s t) (last_phase kept) s)"
proof -
  have own: "owns (cs_tasks s) (futures (cs_queue s)) t p l" if "cs_tasks s t = Some (Holding p l)" for p l
    using that by (simp add: owns_def)
  then have len: "l < length (leases (cs_queue s))" if "cs_tasks s t = Some (Holding p l)" for p l
    using owner_facts(1) that inv unfolding chat_inv_def by blast
  have lease: "\<exists>p. cs_tasks s t = Some (Holding p l)" if "lease = Some l" for l
    using ph that by simp
  have nw: "cs_tasks s t \<noteq> Some (Waiting p f)" for p f
    using ph by (cases lease) (auto simp: phase_ok_def waits_def)
  show ?thesis
  proof (rule step_to_inv [OF inv adm])
    show "moved (set_option lease) (cs_queue s) q" using moved_finish [OF fin] lease len by blast
    show "phase_ok (leases q) (cs_tasks s t) (Some (last_phase kept))" using phase_ok_finish [OF fin ph] len by blast
    show "\<exists>p. owns (cs_tasks s) (futures (cs_queue s)) t p l" if "l \<in> set_option lease" for l
      using lease own that by auto
  qed (use nw in blast)
qed

lemma chat_step_inv:
  assumes "chat_step s s'" "chat_inv s"
  shows "chat_inv s'"
proof -
  have adm: "adm_inv (cs_adm s')"
    using chat_step_moves [OF assms] assms(2) adm_moves_inv unfolding chat_inv_def by blast
  have ok: "phase_ok (leases (cs_queue s)) (cs_tasks s t) (cs_phase s t)" for t
    using assms(2) by (simp add: chat_inv_def)
  note to = step_to_inv [OF assms(2)] and stay = moved_refl [of "{}"]
  have abort: "chat_inv (step_to (acquire_abort p f (cs_queue s)) t (Some Failed) ph s)"
    if w: "cs_tasks s t = Some (Waiting p f)" and e: "s' = step_to (acquire_abort p f (cs_queue s)) t (Some Failed) ph s"
      and ph: "phase_ok (leases (acquire_abort p f (cs_queue s))) (Some Failed) (Some ph)" for t p f ph
  proof -
    have own: "owns (cs_tasks s) (futures (cs_queue s)) t p l" if "futures (cs_queue s) ! f = Done l" for l
      using w that by (simp add: owns_def)
    then have "moved {l. futures (cs_queue s) ! f = Done l} (cs_queue s) (acquire_abort p f (cs_queue s))"
      using owner_facts(1) assms(2) unfolding chat_inv_def by (intro moved_abort) blast
    from to [OF adm [unfolded e] this _ _ ph] own show ?thesis by blast
  qed
  from assms(1) show ?thesis
  proof cases
    case (chat_arrive t p r q)
    have "futures q ! f \<noteq> Done l" if "frame_of p r = Waiting p' f" for p' f l
      using chat_arrive(3) that by (auto simp: acquire_start_def frame_of_def split: if_splits prod.splits)
    then show ?thesis unfolding chat_arrive(1)
      using to [OF adm [unfolded chat_arrive(1)] moved_start [OF chat_arrive(3)] _ _ phase_ok_first [OF chat_arrive(3)]]
      by blast
  next
    case (chat_early t)
    show ?thesis unfolding chat_early(1) using to [OF adm [unfolded chat_early(1)] stay] by simp
  next
    case (chat_interrupt t ph p f)
    have "phase_ok ls (Some (Waiting p f)) (Some ph)" for ls
      using chat_interrupt(3) by (auto simp: waits_def)
    moreover have "(futures (cs_queue s))[f := Cancelled] ! f \<noteq> Done l" for l
      using chat_interrupt(5) by (auto simp: nth_upd)
    ultimately show ?thesis unfolding chat_interrupt(1)
      using to [OF adm [unfolded chat_interrupt(1)] moved_cancel] by simp
  next
    case (chat_wake t p f l)
    then have "\<not> leases (cs_queue s) ! l" using assms(2) unfolding chat_inv_def by blast
    then show ?thesis unfolding chat_wake(1) using to [OF adm [unfolded chat_wake(1)] stay] by simp
  next
    case (chat_time_out t p f)
    show ?thesis unfolding chat_time_out(1) using abort [OF chat_time_out(3,1)] by simp
  next
    case (chat_left t p f)
    show ?thesis unfolding chat_left(1) using abort [OF chat_left(3,1)] by simp
  next
    case (chat_done t l r)
    show ?thesis unfolding chat_done(1) using to [OF adm [unfolded chat_done(1)] stay] ok [of t] chat_done(2) by simp
  next
    case (chat_leave t ph ph')
    have "phase_ok (leases (cs_queue s)) (cs_tasks s t) (Some ph')"
      using ok [of t] chat_leave(2,3) by (cases ph) auto
    then show ?thesis unfolding chat_leave(1) using to [OF adm [unfolded chat_leave(1)] stay] by simp
  next
    case (chat_stopped t l r kept q)
    then have "phase_ok (leases (cs_queue s)) (cs_tasks s t) (Some (Answered (Some l) r))" using ok [of t] by simp
    from finish_inv [OF assms(2) this chat_stopped(3)] show ?thesis using adm unfolding chat_stopped(1) by simp
  next
    case (chat_respond t lease r w kept q)
    from finish_inv [OF assms(2) ok [of t, unfolded chat_respond(2)] chat_respond(3)]
    show ?thesis using adm unfolding chat_respond(1) by simp
  next
    case (chat_sent t l)
    have "phase_ok (leases (cs_queue s)) (cs_tasks s t) (Some (Answered (Some l) (Inl TimeoutError)))"
      using ok [of t] chat_sent(2) by simp
    moreover have "finish_chat (Some l) (Inl TimeoutError) (cs_queue s) = (None, finish_stream (Some l) (cs_queue s))"
      by (simp add: finish_chat_def finish_stream_def)
    moreover have "last_phase None = Closed" by (simp add: last_phase_def)
    ultimately show ?thesis
      using finish_inv [OF assms(2), of t "Some l" "Inl TimeoutError"] adm unfolding chat_sent(1) by metis
  qed
qed

lemma chat_init_inv: "chat_init s \<Longrightarrow> chat_inv s"
  using adm_init_inv [of "cs_adm s"] by (auto simp: chat_init_def chat_inv_def adm_init_def)

interpretation chat: transition_system chat_init chat_step chat_inv
  by unfold_locales (blast intro: chat_init_inv chat_step_inv)+

abbreviation chat_reachable :: "chat_sys \<Rightarrow> bool" where
  "chat_reachable \<equiv> reach chat_init chat_step"

text \<open>So what \<open>Admission\<close> proves of its requests holds of the endpoint's.\<close>

lemma chat_reaches_adm: "chat_reachable s \<Longrightarrow> adm_reachable (cs_adm s)"
proof (induction rule: reach.induct)
  case (reach_init s)
  then show ?case by (auto simp: chat_init_def intro: reach.reach_init)
next
  case (reach_step s s')
  have "chat_inv s" using chat.reach_inv reach_step by blast
  then show ?case using chat_step_moves reach_step unfolding adm_moves_def by (metis reach.reach_step)
qed

fun over :: "phase \<Rightarrow> bool" where
  "over Closed = True"
| "over (Answered lease r) = (lease = None)"
| "over _ = False"

definition lease_holders :: "chat_sys \<Rightarrow> nat set" where
  "lease_holders s = {t. \<exists>ph l. cs_phase s t = Some ph \<and> held ph = Some l}"

definition lease_of :: "chat_sys \<Rightarrow> nat \<Rightarrow> nat" where
  "lease_of s t = (case cs_phase s t of Some ph \<Rightarrow> (case held ph of Some l \<Rightarrow> l | None \<Rightarrow> 0) | None \<Rightarrow> 0)"

lemma holder_owns:
  assumes "chat_inv s" "t \<in> lease_holders s"
  shows "\<exists>p. cs_tasks s t = Some (Holding p (lease_of s t))" "\<not> leases (cs_queue s) ! lease_of s t"
    "lease_of s t < length (leases (cs_queue s))"
proof -
  obtain ph l where ph: "cs_phase s t = Some ph" "held ph = Some l" using assms(2) by (auto simp: lease_holders_def)
  then have l: "lease_of s t = l" by (simp add: lease_of_def)
  have "phase_ok (leases (cs_queue s)) (cs_tasks s t) (Some ph)" using assms(1) ph(1) unfolding chat_inv_def by metis
  then show 1: "\<exists>p. cs_tasks s t = Some (Holding p (lease_of s t))" and "\<not> leases (cs_queue s) ! lease_of s t"
    using ph(2) by (auto simp: phase_ok_def l)
  from 1 have "\<exists>p. owns (cs_tasks s) (futures (cs_queue s)) t p (lease_of s t)" by (auto simp: owns_def)
  then show "lease_of s t < length (leases (cs_queue s))"
    using owner_facts(1) assms(1) unfolding chat_inv_def by blast
qed

lemma live_leases_card: "live_leases ls = card {l. l < length ls \<and> \<not> ls ! l}"
  by (simp add: live_leases_def length_filter_conv_card)

lemma chat_quiet:
  assumes inv: "chat_inv s" and end_all: "\<forall>t ph. cs_phase s t = Some ph \<longrightarrow> over ph"
  shows "active (cs_queue s) = 0 \<and> profile (cs_queue s) = None \<and> waiting (cs_queue s) = []"
proof -
  have adm: "adm_ok (cs_tasks s) (cs_queue s)" "settled (cs_queue s)"
    using inv by (simp_all add: chat_inv_def adm_inv_def)
  have fr: "(\<forall>p f. cs_tasks s t \<noteq> Some (Waiting p f)) \<and> (\<forall>p l. cs_tasks s t = Some (Holding p l) \<longrightarrow> leases (cs_queue s) ! l)" for t
  proof -
    have "phase_ok (leases (cs_queue s)) (cs_tasks s t) (cs_phase s t)" using inv by (simp add: chat_inv_def)
    moreover have "held ph = None \<and> \<not> waits ph" if "over ph" for ph
      using that by (cases ph) (simp_all add: waits_def)
    ultimately show ?thesis using end_all by (cases "cs_phase s t") (simp_all add: phase_ok_def)
  qed
  have "leases (cs_queue s) ! l" if "l < length (leases (cs_queue s))" for l
    using adm(1) that fr unfolding adm_ok_def leases_ok_def owns_def by metis
  then have "active (cs_queue s) = 0" using adm(1) live_leases_0 [of "leases (cs_queue s)"] by (simp add: adm_ok_def counts_ok_def)
  then show ?thesis
    using adm by (auto simp: adm_ok_def counts_ok_def settled_def split: list.splits)
qed

lemma lease_holders_bound:
  assumes "chat_inv s"
  shows "finite (lease_holders s) \<and> int (card (lease_holders s)) \<le> active (cs_queue s)"
proof -
  let ?L = "{l. l < length (leases (cs_queue s)) \<and> \<not> leases (cs_queue s) ! l}"
  have a: "adm_inv (cs_adm s)" using assms by (simp add: chat_inv_def)
  have "inj_on (lease_of s) (lease_holders s)"
  proof (rule inj_onI)
    fix t t' assume t: "t \<in> lease_holders s" and t': "t' \<in> lease_holders s" and eq: "lease_of s t = lease_of s t'"
    obtain p where "owns (cs_tasks s) (futures (cs_queue s)) t p (lease_of s t)"
      using holder_owns(1) [OF assms t] by (auto simp: owns_def)
    moreover obtain p' where "owns (cs_tasks s) (futures (cs_queue s)) t' p' (lease_of s t)"
      using holder_owns(1) [OF assms t'] eq by (auto simp: owns_def)
    ultimately show "t = t'" using owner_facts(2) [OF a] by metis
  qed
  moreover have sub: "lease_of s ` lease_holders s \<subseteq> ?L" using holder_owns(2,3) [OF assms] by blast
  moreover have fin: "finite ?L" by simp
  moreover have "active (cs_queue s) = int (card ?L)"
    using a live_leases_card by (simp add: adm_inv_def adm_ok_def counts_ok_def)
  ultimately show ?thesis
    using card_mono [OF fin sub] finite_subset [OF sub fin] by (simp add: card_image finite_image_iff)
qed

lemma lease_holders_profile:
  assumes "chat_inv s" "t \<in> lease_holders s"
  shows "\<exists>p. cs_tasks s t = Some (Holding p (lease_of s t)) \<and> profile (cs_queue s) = Some p"
proof -
  obtain p where p: "cs_tasks s t = Some (Holding p (lease_of s t))" using holder_owns(1) [OF assms] by blast
  then have "owns (cs_tasks s) (futures (cs_queue s)) t p (lease_of s t)" by (simp add: owns_def)
  moreover have "leases_ok (cs_tasks s) (futures (cs_queue s)) (leases (cs_queue s)) (profile (cs_queue s))"
    using assms(1) by (simp add: chat_inv_def adm_inv_def adm_ok_def)
  ultimately have "profile (cs_queue s) = Some p"
    using holder_owns(2) [OF assms] unfolding leases_ok_def by blast
  with p show ?thesis by blast
qed

text \<open>C3: However any number of chat requests interleave, with timeouts, clients that leave at any
  moment, cancelled endpoints and streamed answers, the requests that hold a lease are never more
  than the limit of the queue and all asked for its current profile; and as soon as every request
  that came in is over, the queue is free again: nothing active, no profile, nobody waiting.
\<close>

theorem chat_lease_lifecycle:
  assumes "chat_reachable s"
  shows "finite (lease_holders s) \<and> int (card (lease_holders s)) \<le> limit (cs_queue s) \<and>
    (\<forall>t \<in> lease_holders s. \<exists>p. cs_tasks s t = Some (Holding p (lease_of s t)) \<and> profile (cs_queue s) = Some p) \<and>
    ((\<forall>t ph. cs_phase s t = Some ph \<longrightarrow> over ph) \<longrightarrow>
       active (cs_queue s) = 0 \<and> profile (cs_queue s) = None \<and> waiting (cs_queue s) = [])"
proof -
  have inv: "chat_inv s" using chat.reach_inv [OF assms] .
  then have "active (cs_queue s) \<le> limit (cs_queue s)"
    by (simp add: chat_inv_def adm_inv_def adm_ok_def counts_ok_def)
  then show ?thesis using lease_holders_bound [OF inv] lease_holders_profile [OF inv] chat_quiet [OF inv] by auto
qed

definition demo_free :: admission where
  "demo_free = \<lparr>limit = 1, max_waiting = 5, active = 0, profile = None, waiting = [], futures = [], leases = []\<rparr>"

definition demo_busy :: admission where
  "demo_busy = demo_free\<lparr>active := 1, profile := Some ''a'', leases := [False]\<rparr>"

lemma demo_grant: "acquire_start ''a'' demo_free = (Inr (Granted 0), demo_busy)"
  by (simp add: acquire_start_def grant_def demo_free_def demo_busy_def)

lemma demo_back: "lease_release 0 demo_busy = demo_free\<lparr>leases := [True]\<rparr>"
  by (simp add: lease_release_def demo_busy_def demo_free_def)

definition demo_chat :: "admission \<Rightarrow> phase \<Rightarrow> chat_sys" where
  "demo_chat q ph = \<lparr>cs_adm = \<lparr>queue = q, tasks = [0 \<mapsto> Holding ''a'' 0]\<rparr>,
     cs_phase = [0 \<mapsto> ph]\<rparr>"

lemma demo_step_to: "step_to q 0 (cs_tasks (demo_chat q0 ph0) 0) ph (demo_chat q0 ph0) = demo_chat q ph"
  by (simp add: step_to_def demo_chat_def)

text \<open>A request that streams its answer, and the same after the stream has been sent.\<close>

lemma demo_streaming: "chat_reachable (demo_chat demo_busy (Streaming 0))"
proof -
  let ?r = "Inr (EventStream ''u'' Null) :: exn + response"
  let ?s0 = "\<lparr>cs_adm = \<lparr>queue = demo_free, tasks = (\<lambda>_. None)\<rparr>, cs_phase = (\<lambda>_. None)\<rparr>"
  have "AdmissionQueue 1 5 1 = Inr demo_free" by (simp add: AdmissionQueue_def demo_free_def)
  then have 0: "chat_reachable ?s0"
    using adm_initI by (intro reach_init) (simp add: chat_init_def)
  have "chat_step ?s0 (step_to demo_busy 0 (Some (frame_of ''a'' (Inr (Granted 0)))) (first_phase (Inr (Granted 0))) ?s0)"
    by (rule chat_arrive) (simp_all add: demo_grant)
  moreover have "step_to demo_busy 0 (Some (frame_of ''a'' (Inr (Granted 0)))) (first_phase (Inr (Granted 0))) ?s0 =
      demo_chat demo_busy (Dispatching 0)"
    by (simp add: step_to_def frame_of_def first_phase_def demo_chat_def)
  ultimately have 1: "chat_reachable (demo_chat demo_busy (Dispatching 0))" using reach_step [OF 0] by simp
  have q: "cs_queue (demo_chat q ph) = q" for q ph by (simp add: demo_chat_def)
  have 2: "chat_step (demo_chat demo_busy (Dispatching 0)) (demo_chat demo_busy (Answered (Some 0) ?r))"
    using chat_done [of "demo_chat demo_busy (Dispatching 0)" 0 0 ?r] unfolding demo_step_to q
    by (simp add: demo_chat_def)
  have "finish_chat (Some 0) (until_disconnect True ?r) demo_busy = (Some 0, demo_busy)"
    by (simp add: finish_chat_def until_disconnect_def)
  then have 3: "chat_step (demo_chat demo_busy (Answered (Some 0) ?r)) (demo_chat demo_busy (Streaming 0))"
    using chat_respond [of "demo_chat demo_busy (Answered (Some 0) ?r)" 0 "Some 0" ?r True "Some 0" demo_busy]
    unfolding demo_step_to q last_phase_def by (simp add: demo_chat_def)
  show ?thesis using reach_step [OF reach_step [OF 1 2] 3] .
qed

lemma demo_sent: "chat_reachable (demo_chat (demo_free\<lparr>leases := [True]\<rparr>) Closed)"
proof -
  have q: "cs_queue (demo_chat q ph) = q" for q ph by (simp add: demo_chat_def)
  have "chat_step (demo_chat demo_busy (Streaming 0)) (demo_chat (lease_release 0 demo_busy) Closed)"
    using chat_sent [of "demo_chat demo_busy (Streaming 0)" 0 0] unfolding demo_step_to q finish_stream_def
    by (simp add: demo_chat_def)
  then show ?thesis using reach_step [OF demo_streaming] demo_back by metis
qed

theorem chat_lease_lifecycle_witness:
  "int (card (lease_holders (demo_chat demo_busy (Streaming 0)))) \<le> 1 \<and>
   lease_holders (demo_chat demo_busy (Streaming 0)) = {0} \<and>
   profile (cs_queue (demo_chat demo_busy (Streaming 0))) = Some ''a'' \<and>
   active (cs_queue (demo_chat (demo_free\<lparr>leases := [True]\<rparr>) Closed)) = 0"
proof -
  have h: "lease_holders (demo_chat demo_busy (Streaming 0)) = {0}"
    by (auto simp: lease_holders_def demo_chat_def split: if_splits)
  have "\<forall>t ph. cs_phase (demo_chat q Closed) t = Some ph \<longrightarrow> over ph" for q
    by (simp add: demo_chat_def)
  then show ?thesis
    using chat_lease_lifecycle [OF demo_streaming] chat_lease_lifecycle [OF demo_sent] h
    by (simp add: demo_chat_def demo_busy_def demo_free_def)
qed

end
