(* ===== verification/StateFile.thy ===== *)
theory StateFile
  imports Endpoints
begin

text \<open>
  The state file of \<open>gateway/orchestrator.py\<close>: \<open>_persist_state\<close> writes the key of the active profile,
  \<open>load_persisted_profile\<close> reads it after a restart.  The machine loses power without warning, so the
  theory models what a disk holds after that: a file that was not synchronised may hold anything, and
  a directory may show any of its earlier states.  What \<open>Orchestrator\<close> records as one call is taken
  apart here.
\<close>

section \<open>The JSON text\<close>

definition QUOTE :: char where "QUOTE = CHR 0x22"
definition BACKSLASH :: char where "BACKSLASH = CHR 0x5C"

text \<open>\<open>json.dumps\<close> of a string: \<open>ensure_ascii\<close> escapes everything outside the printable ASCII.\<close>

definition hex_char :: "nat \<Rightarrow> char" where
  "hex_char n = char_of (if n < 10 then 48 + n else 87 + n)"

definition json_escape :: "char \<Rightarrow> string" where
  "json_escape c = (let n = code c in
     if c = QUOTE \<or> c = BACKSLASH then [BACKSLASH, c]
     else if n = 10 then [BACKSLASH, CHR ''n'']
     else if n = 13 then [BACKSLASH, CHR ''r'']
     else if n = 9 then [BACKSLASH, CHR ''t'']
     else if n = 12 then [BACKSLASH, CHR ''f'']
     else if n = 8 then [BACKSLASH, CHR ''b'']
     else if n < 32 \<or> 126 < n then [BACKSLASH, CHR ''u'', CHR ''0'', CHR ''0'', hex_char (n div 16), hex_char (n mod 16)]
     else [c])"

definition json_head :: string where
  "json_head = ''{'' @ [QUOTE] @ ''active_profile'' @ [QUOTE] @ '': '' @ [QUOTE]"

definition json_dump :: "string \<Rightarrow> string" where
  "json_dump key = json_head @ concat (map json_escape key) @ [QUOTE] @ ''}''"

text \<open>The reader of a JSON string, from behind its opening quote: the string and what follows it.  Code
  points above 255 are outside of the model.\<close>

definition hex_digit :: "char \<Rightarrow> nat option" where
  "hex_digit c = (let n = code c in
     if 48 \<le> n \<and> n \<le> 57 then Some (n - 48)
     else if 97 \<le> n \<and> n \<le> 102 then Some (n - 87)
     else if 65 \<le> n \<and> n \<le> 70 then Some (n - 55) else None)"

definition hex_pair :: "char \<Rightarrow> char \<Rightarrow> char option" where
  "hex_pair a b = (case (hex_digit a, hex_digit b) of (Some x, Some y) \<Rightarrow> Some (char_of (16 * x + y)) | _ \<Rightarrow> None)"

definition simple_escape :: "char \<Rightarrow> char option" where
  "simple_escape c = (if c = QUOTE \<or> c = BACKSLASH \<or> c = CHR ''/'' then Some c
     else if c = CHR ''n'' then Some (CHR 0x0A) else if c = CHR ''r'' then Some (CHR 0x0D)
     else if c = CHR ''t'' then Some (CHR 0x09) else if c = CHR ''f'' then Some (CHR 0x0C)
     else if c = CHR ''b'' then Some (CHR 0x08) else None)"

definition put :: "char \<Rightarrow> (string \<times> string) option \<Rightarrow> (string \<times> string) option" where
  "put c r = map_option (\<lambda>(s, rest). (c # s, rest)) r"

fun json_string :: "string \<Rightarrow> (string \<times> string) option" where
  "json_string [] = None"
| "json_string (c # cs) =
     (if c = QUOTE then Some ([], cs)
      else if c = BACKSLASH then (case cs of
          [] \<Rightarrow> None
        | e # r \<Rightarrow>
            if e = CHR ''u'' then (case r of
                z1 # z2 # a # b # r' \<Rightarrow>
                  if z1 = CHR ''0'' \<and> z2 = CHR ''0'' then (case hex_pair a b of None \<Rightarrow> None | Some x \<Rightarrow> put x (json_string r'))
                  else None
              | _ \<Rightarrow> None)
            else (case simple_escape e of None \<Rightarrow> None | Some x \<Rightarrow> put x (json_string r)))
      else if code c < 32 then None
      else put c (json_string cs))"

text \<open>\<open>json.load\<close>: a text of the form the gateway writes is read here, \<open>other\<close> is the reader of all others.\<close>

definition json_load :: "(string \<Rightarrow> exn + json) \<Rightarrow> string \<Rightarrow> exn + json" where
  "json_load other s =
     (if take (length json_head) s = json_head then
        (case json_string (drop (length json_head) s) of
           Some (key, rest) \<Rightarrow> if rest = ''}'' then Inr (JObj [(''active_profile'', JStr key)]) else other s
         | None \<Rightarrow> other s)
      else other s)"

lemma hex_pair_char: "n < 256 \<Longrightarrow> hex_pair (hex_char (n div 16)) (hex_char (n mod 16)) = Some (char_of n)"
proof -
  have d: "hex_digit (hex_char k) = Some k" if "k < 16" for k
    using that by (simp add: hex_digit_def hex_char_def Let_def)
  assume "n < 256"
  then have "n div 16 < 16" "n mod 16 < 16" by simp_all
  then show ?thesis by (simp add: hex_pair_def d)
qed

lemma control_chars:
  "char_of (10 :: nat) = CHR 0x0A" "char_of (13 :: nat) = CHR 0x0D" "char_of (9 :: nat) = CHR 0x09"
  "char_of (12 :: nat) = CHR 0x0C" "char_of (8 :: nat) = CHR 0x08"
  by code_simp+

lemma json_string_escape: "json_string (json_escape c @ r) = put c (json_string r)"
proof -
  have n: "code c < 256" by simp
  consider "c = QUOTE \<or> c = BACKSLASH" | "code c \<in> {10, 13, 9, 12, 8}" "c \<noteq> QUOTE" "c \<noteq> BACKSLASH"
    | "code c < 32 \<or> 126 < code c" "code c \<notin> {10, 13, 9, 12, 8}" "c \<noteq> QUOTE" "c \<noteq> BACKSLASH"
    | "32 \<le> code c" "code c \<le> 126" "c \<noteq> QUOTE" "c \<noteq> BACKSLASH" by fastforce
  then show ?thesis
  proof cases
    case 1
    then show ?thesis by (auto simp: json_escape_def QUOTE_def BACKSLASH_def simple_escape_def)
  next
    case 2
    then have "c \<in> {CHR 0x0A, CHR 0x0D, CHR 0x09, CHR 0x0C, CHR 0x08}"
      using control_chars by (metis char_of_char insert_iff empty_iff)
    then show ?thesis by (auto simp: json_escape_def QUOTE_def BACKSLASH_def simple_escape_def)
  next
    case 3
    then show ?thesis using hex_pair_char [OF n]
      by (auto simp: json_escape_def Let_def BACKSLASH_def QUOTE_def)
  next
    case 4
    then show ?thesis by (auto simp: json_escape_def Let_def)
  qed
qed

lemma json_string_escapes: "json_string (concat (map json_escape key) @ QUOTE # r) = Some (key, r)"
  by (induction key) (simp_all add: json_string_escape put_def del: json_string.simps(2), simp add: QUOTE_def)

lemma json_load_dump: "json_load other (json_dump key) = Inr (JObj [(''active_profile'', JStr key)])"
  using json_string_escapes [of key "''}''"] by (simp add: json_load_def json_dump_def del: json_string.simps)

section \<open>The disk\<close>

text \<open>A file is its content and whether that is on the disk; the directory is its states since the start,
  the present one first, each a dictionary from names to files.\<close>

record disk =
  nodes :: "(string \<times> bool) list"
  views :: "(string, nat) dict list"

definition entry :: "disk \<Rightarrow> string \<Rightarrow> nat option" where
  "entry d path = dict_get (hd (views d)) path"

definition set_node :: "string \<Rightarrow> (string \<times> bool \<Rightarrow> string \<times> bool) \<Rightarrow> disk \<Rightarrow> disk" where
  "set_node path f d = (case entry d path of Some i \<Rightarrow> d\<lparr>nodes := (nodes d)[i := f (nodes d ! i)]\<rparr> | None \<Rightarrow> d)"

text \<open>\<open>os.makedirs\<close> with \<open>exist_ok\<close>, of a directory whose parent is the root; \<open>open(path, "w")\<close>, \<open>write\<close>,
  \<open>os.fsync\<close> and \<open>os.replace\<close>.\<close>

definition make_dirs :: "string \<Rightarrow> disk \<Rightarrow> disk" where
  "make_dirs path d = (case entry d path of
       Some _ \<Rightarrow> d
     | None \<Rightarrow> d\<lparr>nodes := nodes d @ [([], True)], views := dict_set (hd (views d)) path (length (nodes d)) # views d\<rparr>)"

definition open_write :: "string \<Rightarrow> disk \<Rightarrow> disk" where
  "open_write path d = (case entry d path of
       Some i \<Rightarrow> set_node path (\<lambda>_. ([], False)) d
     | None \<Rightarrow> d\<lparr>nodes := nodes d @ [([], False)], views := dict_set (hd (views d)) path (length (nodes d)) # views d\<rparr>)"

definition write_text :: "string \<Rightarrow> string \<Rightarrow> disk \<Rightarrow> disk" where
  "write_text path text = set_node path (\<lambda>(s, _). (s @ text, False))"

definition fsync_file :: "string \<Rightarrow> disk \<Rightarrow> disk" where
  "fsync_file path = set_node path (\<lambda>(s, _). (s, True))"

definition replace_file :: "string \<Rightarrow> string \<Rightarrow> disk \<Rightarrow> disk" where
  "replace_file src dst d = (case entry d src of
       Some i \<Rightarrow> d\<lparr>views := dict_set (dict_pop (hd (views d)) src) dst i # views d\<rparr>
     | None \<Rightarrow> d)"

definition read_file :: "disk \<Rightarrow> string \<Rightarrow> exn + string" where
  "read_file d path = (case entry d path of None \<Rightarrow> Inl (OSError path) | Some i \<Rightarrow> Inr (fst (nodes d ! i)))"

text \<open>A power failure: the directory is back in state \<open>j\<close>, and a file that was not synchronised holds \<open>junk\<close>.\<close>

definition power_failure :: "nat \<Rightarrow> (nat \<Rightarrow> string) \<Rightarrow> disk \<Rightarrow> disk" where
  "power_failure j junk d =
     \<lparr>nodes = map (\<lambda>i. if snd (nodes d ! i) then nodes d ! i else (junk i, True)) [0..<length (nodes d)],
      views = [views d ! j]\<rparr>"

section \<open>Writing and reading the state file\<close>

definition STATE_FILE :: string where "STATE_FILE = ''/data/gateway_state.json''"

text \<open>\<open>os.path.dirname(STATE_FILE)\<close>.\<close>

definition STATE_DIR :: string where "STATE_DIR = ''/data''"

definition tmp_path :: string where "tmp_path = STATE_FILE @ ''.tmp''"

definition persist_steps :: "string \<Rightarrow> (disk \<Rightarrow> disk) list" where
  "persist_steps key = [make_dirs STATE_DIR, open_write tmp_path, write_text tmp_path (json_dump key), fsync_file tmp_path,
     replace_file tmp_path STATE_FILE]"

text \<open>\<open>_persist_state\<close> up to its \<open>k\<close>th step: there the power fails, or a step raises and the exception is
  swallowed; a failing \<open>write\<close> has written \<open>part\<close>.  Five steps are all of them.\<close>

definition persist_upto :: "nat \<Rightarrow> string \<Rightarrow> string \<Rightarrow> disk \<Rightarrow> disk" where
  "persist_upto k part key d =
     (if key = [] then d
      else let d' = fold (\<lambda>f. f) (take k (persist_steps key)) d
           in if k = 2 then write_text tmp_path part d' else d')"

text \<open>What \<open>load_persisted_profile\<close> parses.\<close>

definition state_doc :: "(string \<Rightarrow> exn + json) \<Rightarrow> disk \<Rightarrow> exn + json" where
  "state_doc other d = and_then (read_file d STATE_FILE) (json_load other)"

section \<open>Any number of writes and power failures\<close>

record sf_sys =
  sf_disk :: disk
  sf_keys :: "string list"

inductive sf_step :: "sf_sys \<Rightarrow> sf_sys \<Rightarrow> bool" where
  sf_persist: "key \<noteq> [] \<Longrightarrow> sf_step s \<lparr>sf_disk = persist_upto k part key (sf_disk s), sf_keys = key # sf_keys s\<rparr>"
| sf_crash: "j < length (views (sf_disk s)) \<Longrightarrow>
     sf_step s (s\<lparr>sf_disk := power_failure j junk (sf_disk s)\<rparr>)"

text \<open>A disk at the start of the machine: its directory is settled, the state file, if there is one, is on the
  disk, and a temporary file left over is another file.\<close>

definition view_ok :: "string option set \<Rightarrow> (string \<times> bool) list \<Rightarrow> (string, nat) dict \<Rightarrow> bool" where
  "view_ok C ns v =
     ((case dict_get v STATE_FILE of None \<Rightarrow> None \<in> C
         | Some i \<Rightarrow> i < length ns \<and> snd (ns ! i) \<and> Some (fst (ns ! i)) \<in> C) \<and>
      (case dict_get v tmp_path of None \<Rightarrow> True | Some i \<Rightarrow> i < length ns \<and> dict_get v STATE_FILE \<noteq> Some i))"

definition disk_ok :: "string option set \<Rightarrow> disk \<Rightarrow> bool" where
  "disk_ok C d = (views d \<noteq> [] \<and> (\<forall>v \<in> set (views d). view_ok C (nodes d) v) \<and>
     (\<forall>v \<in> set (views d). entry d tmp_path \<noteq> None \<longrightarrow> dict_get v STATE_FILE \<noteq> entry d tmp_path))"

definition content :: "disk \<Rightarrow> string option" where
  "content d = (case read_file d STATE_FILE of Inl e \<Rightarrow> None | Inr s \<Rightarrow> Some s)"

definition sf_init :: "disk \<Rightarrow> sf_sys \<Rightarrow> bool" where
  "sf_init d0 s = (s = \<lparr>sf_disk = d0, sf_keys = []\<rparr> \<and> disk_ok {content d0} d0)"

definition written :: "disk \<Rightarrow> string list \<Rightarrow> string option set" where
  "written d0 keys = insert (content d0) ((\<lambda>k. Some (json_dump k)) ` set keys)"

definition sf_inv :: "disk \<Rightarrow> sf_sys \<Rightarrow> bool" where
  "sf_inv d0 s = disk_ok (written d0 (sf_keys s)) (sf_disk s)"

lemma state_paths_differ [simp]: "tmp_path \<noteq> STATE_FILE" "STATE_FILE \<noteq> tmp_path"
  by (simp_all add: tmp_path_def)

lemma state_dir_differs [simp]: "STATE_DIR \<noteq> STATE_FILE" "STATE_FILE \<noteq> STATE_DIR" "STATE_DIR \<noteq> tmp_path" "tmp_path \<noteq> STATE_DIR"
  by (simp_all add: tmp_path_def STATE_FILE_def STATE_DIR_def)
lemma disk_ok_mono: "disk_ok C d \<Longrightarrow> C \<subseteq> D \<Longrightarrow> disk_ok D d"
  unfolding disk_ok_def view_ok_def by (fastforce split: option.splits)

lemma view_ok_state: "view_ok C ns v \<Longrightarrow> dict_get v STATE_FILE = Some i \<Longrightarrow> i < length ns"
  by (simp add: view_ok_def)

lemma view_ok_append: "view_ok C ns v \<Longrightarrow> view_ok C (ns @ xs) v"
  by (auto simp: view_ok_def nth_append split: option.splits)

lemma view_ok_update: "view_ok C ns v \<Longrightarrow> dict_get v STATE_FILE \<noteq> Some i \<Longrightarrow> view_ok C (ns[i := x]) v"
  by (auto simp: view_ok_def split: option.splits)

text \<open>Touching the temporary file leaves the state file alone.\<close>

lemma disk_ok_touch:
  assumes ok: "disk_ok C d" and i: "entry d tmp_path = Some i"
  shows "disk_ok C (d\<lparr>nodes := (nodes d)[i := x]\<rparr>)"
  using ok i view_ok_update unfolding disk_ok_def entry_def by (simp add: i)

lemma set_node_ok: "disk_ok C d \<Longrightarrow> disk_ok C (set_node tmp_path f d)"
  using disk_ok_touch by (auto simp: set_node_def split: option.splits)

lemma tmp_in_range: "disk_ok C d \<Longrightarrow> entry d tmp_path = Some i \<Longrightarrow> i < length (nodes d)"
  using hd_in_set [of "views d"] unfolding disk_ok_def entry_def view_ok_def by fastforce

lemma make_dirs_ok:
  assumes ok: "disk_ok C d"
  shows "disk_ok C (make_dirs STATE_DIR d)"
proof (cases "entry d STATE_DIR")
  case None
  let ?v = "dict_set (hd (views d)) STATE_DIR (length (nodes d))" and ?ns = "nodes d @ [([], True)]"
  have hd: "hd (views d) \<in> set (views d)" and vs: "\<forall>v \<in> set (views d). view_ok C ?ns v"
    using ok view_ok_append by (auto simp: disk_ok_def)
  have "view_ok C ?ns (hd (views d))" using hd vs by blast
  moreover have "dict_get ?v STATE_FILE = dict_get (hd (views d)) STATE_FILE" "dict_get ?v tmp_path = dict_get (hd (views d)) tmp_path"
    by simp_all
  ultimately have "view_ok C ?ns ?v" unfolding view_ok_def by (simp only:)
  moreover have "entry (d\<lparr>nodes := ?ns, views := ?v # views d\<rparr>) tmp_path = entry d tmp_path" by (simp add: entry_def)
  moreover have "entry d tmp_path \<noteq> None \<longrightarrow> dict_get ?v STATE_FILE \<noteq> entry d tmp_path"
    using ok hd by (simp add: disk_ok_def)
  ultimately have "disk_ok C (d\<lparr>nodes := ?ns, views := ?v # views d\<rparr>)"
    using vs ok unfolding disk_ok_def by simp
  then show ?thesis using None by (simp add: make_dirs_def)
qed (simp add: make_dirs_def ok)

lemma open_write_ok:
  assumes ok: "disk_ok C d"
  shows "disk_ok C (open_write tmp_path d)"
    "\<exists>i. entry (open_write tmp_path d) tmp_path = Some i \<and> i < length (nodes (open_write tmp_path d)) \<and>
       nodes (open_write tmp_path d) ! i = ([], False)"
proof -
  have "disk_ok C (open_write tmp_path d) \<and> (\<exists>i. entry (open_write tmp_path d) tmp_path = Some i \<and>
     i < length (nodes (open_write tmp_path d)) \<and> nodes (open_write tmp_path d) ! i = ([], False))"
  proof (cases "entry d tmp_path")
    case (Some i)
    have "open_write tmp_path d = set_node tmp_path (\<lambda>_. ([], False)) d" using Some by (simp add: open_write_def)
    then show ?thesis using set_node_ok [OF ok, of "\<lambda>_. ([], False)"] tmp_in_range [OF ok Some] Some
      by (simp add: set_node_def entry_def)
  next
    case None
    let ?n = "length (nodes d)" and ?v = "dict_set (hd (views d)) tmp_path (length (nodes d))"
    have d': "open_write tmp_path d = d\<lparr>nodes := nodes d @ [([], False)], views := ?v # views d\<rparr>"
      using None by (simp add: open_write_def)
    have hd: "hd (views d) \<in> set (views d)" and vs: "\<forall>v \<in> set (views d). view_ok C (nodes d) v"
      using ok by (simp_all add: disk_ok_def)
    have st: "dict_get v STATE_FILE \<noteq> Some ?n" if "v \<in> set (views d)" for v
      using vs that view_ok_state by blast
    have "view_ok C (nodes d @ [([], False)]) (hd (views d))" using vs hd view_ok_append by blast
    then have "view_ok C (nodes d @ [([], False)]) ?v" using st [OF hd] by (simp add: view_ok_def)
    moreover have "\<forall>v \<in> set (views d). view_ok C (nodes d @ [([], False)]) v" using vs view_ok_append by blast
    ultimately have "disk_ok C (d\<lparr>nodes := nodes d @ [([], False)], views := ?v # views d\<rparr>)"
      using st st [OF hd] unfolding disk_ok_def entry_def by simp
    then show ?thesis unfolding d' by (simp add: entry_def)
  qed
  then show "disk_ok C (open_write tmp_path d)"
    "\<exists>i. entry (open_write tmp_path d) tmp_path = Some i \<and> i < length (nodes (open_write tmp_path d)) \<and>
       nodes (open_write tmp_path d) ! i = ([], False)" by blast+
qed

lemma set_node_entry [simp]: "entry (set_node path f d) p = entry d p" "views (set_node path f d) = views d"
  by (simp_all add: set_node_def entry_def split: option.splits)

lemma set_node_at: "entry d path = Some i \<Longrightarrow> i < length (nodes d) \<Longrightarrow>
    nodes (set_node path f d) ! i = f (nodes d ! i) \<and> i < length (nodes (set_node path f d))"
  by (simp add: set_node_def)

text \<open>What the temporary file holds when it is renamed.\<close>

lemma replace_ok:
  assumes ok: "disk_ok C d" and i: "entry d tmp_path = Some i" "i < length (nodes d)" "nodes d ! i = (text, True)"
  shows "disk_ok (insert (Some text) C) (replace_file tmp_path STATE_FILE d)"
    "content (replace_file tmp_path STATE_FILE d) = Some text"
proof -
  let ?v = "dict_set (dict_pop (hd (views d)) tmp_path) STATE_FILE i"
  have d': "replace_file tmp_path STATE_FILE d = d\<lparr>views := ?v # views d\<rparr>" using i(1) by (simp add: replace_file_def)
  have "dict_get ?v tmp_path = None" "dict_get ?v STATE_FILE = Some i" by (simp_all add: delete_conv')
  moreover have "\<forall>v \<in> set (views d). view_ok (insert (Some text) C) (nodes d) v"
    using disk_ok_mono [OF ok, of "insert (Some text) C"] unfolding disk_ok_def by blast
  ultimately show "disk_ok (insert (Some text) C) (replace_file tmp_path STATE_FILE d)"
    using i(2,3) unfolding d' disk_ok_def entry_def by (simp add: view_ok_def)
  show "content (replace_file tmp_path STATE_FILE d) = Some text"
    using i unfolding d' by (simp add: content_def read_file_def entry_def)
qed

lemma take_steps:
  obtains "k = 0" "take k (persist_steps key) = []"
  | "k = 1" "take k (persist_steps key) = [make_dirs STATE_DIR]"
  | "k = 2" "take k (persist_steps key) = [make_dirs STATE_DIR, open_write tmp_path]"
  | "k = 3" "take k (persist_steps key) = [make_dirs STATE_DIR, open_write tmp_path, write_text tmp_path (json_dump key)]"
  | "k = 4" "take k (persist_steps key) =
      [make_dirs STATE_DIR, open_write tmp_path, write_text tmp_path (json_dump key), fsync_file tmp_path]"
  | "5 \<le> k" "take k (persist_steps key) = persist_steps key"
proof -
  consider "k = 0" | "k = 1" | "k = 2" | "k = 3" | "k = 4" | "5 \<le> k" by linarith
  then show ?thesis by cases (use that in \<open>auto simp: persist_steps_def\<close>)
qed

lemma persist_upto_ok:
  assumes ok0: "disk_ok C d" and key: "key \<noteq> []"
  shows "disk_ok (insert (Some (json_dump key)) C) (persist_upto k part key d)"
    "5 \<le> k \<Longrightarrow> content (persist_upto k part key d) = Some (json_dump key)"
proof -
  have ok: "disk_ok C (make_dirs STATE_DIR d)" by (rule make_dirs_ok [OF ok0])
  let ?d1 = "open_write tmp_path (make_dirs STATE_DIR d)" and ?D = "insert (Some (json_dump key)) C"
  let ?d2 = "write_text tmp_path (json_dump key) ?d1"
  let ?d3 = "fsync_file tmp_path ?d2"
  obtain i where i: "entry ?d1 tmp_path = Some i" "i < length (nodes ?d1)" "nodes ?d1 ! i = ([], False)"
    using open_write_ok(2) [OF ok] by blast
  have ok1: "disk_ok C ?d1" using open_write_ok(1) [OF ok] .
  have ok2: "disk_ok C (write_text tmp_path t ?d1)" for t using set_node_ok [OF ok1] by (simp add: write_text_def)
  have ok3: "disk_ok C ?d3" using set_node_ok [OF ok2] by (simp add: fsync_file_def)
  have "nodes ?d2 ! i = (json_dump key, False) \<and> i < length (nodes ?d2)" "entry ?d2 tmp_path = Some i"
    using set_node_at [OF i(1,2)] i by (simp_all add: write_text_def)
  then have i3: "nodes ?d3 ! i = (json_dump key, True)" "i < length (nodes ?d3)" "entry ?d3 tmp_path = Some i"
    using set_node_at [of ?d2 tmp_path i] by (simp_all add: fsync_file_def)
  note renamed = replace_ok [OF ok3 i3(3,2,1)]
  have sub: "disk_ok ?D x" if "disk_ok C x" for x using disk_ok_mono [OF that] by blast
  have "disk_ok ?D (persist_upto k part key d) \<and> (5 \<le> k \<longrightarrow> content (persist_upto k part key d) = Some (json_dump key))"
    using key ok0 ok sub ok1 ok2 ok3 renamed
    by (cases rule: take_steps [of k key]) (simp_all add: persist_upto_def persist_steps_def)
  then show "disk_ok ?D (persist_upto k part key d)"
    "5 \<le> k \<Longrightarrow> content (persist_upto k part key d) = Some (json_dump key)" by blast+
qed

lemma power_failure_ok:
  assumes ok: "disk_ok C d" and j: "j < length (views d)"
  shows "disk_ok C (power_failure j junk d)"
proof -
  have "view_ok C (nodes d) (views d ! j)" using ok j unfolding disk_ok_def by simp
  then have "view_ok C (nodes (power_failure j junk d)) (views d ! j)"
    by (auto simp: view_ok_def power_failure_def split: option.splits)
  then show ?thesis by (auto simp: disk_ok_def power_failure_def entry_def view_ok_def)
qed

lemma content_ok:
  assumes "disk_ok C d"
  shows "content d \<in> C"
proof -
  have "view_ok C (nodes d) (hd (views d))" using assms hd_in_set [of "views d"] unfolding disk_ok_def by blast
  then show ?thesis
    by (auto simp: content_def read_file_def entry_def view_ok_def split: option.splits)
qed

lemma sf_step_inv: "sf_step s s' \<Longrightarrow> sf_inv d0 s \<Longrightarrow> sf_inv d0 s'"
proof (induction rule: sf_step.induct)
  case (sf_persist key s k part)
  have "insert (Some (json_dump key)) (written d0 (sf_keys s)) = written d0 (key # sf_keys s)" by (auto simp: written_def)
  then show ?case using persist_upto_ok(1) [of "written d0 (sf_keys s)" "sf_disk s" key k part] sf_persist
    by (simp add: sf_inv_def)
next
  case (sf_crash j s junk)
  then show ?case using power_failure_ok by (simp add: sf_inv_def)
qed

interpretation sf: transition_system "sf_init d0" sf_step "sf_inv d0" for d0
proof unfold_locales
  show "sf_init d0 s \<Longrightarrow> sf_inv d0 s" for s by (auto simp: sf_init_def sf_inv_def written_def)
qed (rule sf_step_inv)

lemma state_doc_content:
  "state_doc other d = (case content d of None \<Rightarrow> Inl (OSError STATE_FILE) | Some t \<Rightarrow> json_load other t)"
  by (simp add: state_doc_def content_def read_file_def split: option.splits)

lemma load_dumped: "content d = Some (json_dump key) \<Longrightarrow> load_persisted_profile (state_doc other d) = JStr key"
  by (simp add: state_doc_content json_load_dump load_persisted_profile_def json_get_def)

text \<open>C12: The state file survives power failures.  After any sequence of writes, each complete or broken off
  at any step by an exception or a failure, and of failures that leave any earlier state of the
  directory and any content in files not yet synchronised, the gateway reads what it would have read
  from the first disk or a key it was asked to write, never a damaged file; and a write that
  completes is what is read next.
\<close>

theorem state_file_crash_safe:
  assumes "reach (sf_init d0) sf_step s"
  shows "load_persisted_profile (state_doc other (sf_disk s)) \<in>
      insert (load_persisted_profile (state_doc other d0)) (JStr ` set (sf_keys s)) \<and>
    (key \<noteq> [] \<longrightarrow> load_persisted_profile (state_doc other (persist_upto 5 part key (sf_disk s))) = JStr key)"
proof -
  have inv: "disk_ok (written d0 (sf_keys s)) (sf_disk s)" using sf.reach_inv [OF assms] by (simp add: sf_inv_def)
  from content_ok [OF this] have "content (sf_disk s) = content d0 \<or>
      (\<exists>k \<in> set (sf_keys s). content (sf_disk s) = Some (json_dump k))"
    by (auto simp: written_def)
  then have "load_persisted_profile (state_doc other (sf_disk s)) \<in>
      insert (load_persisted_profile (state_doc other d0)) (JStr ` set (sf_keys s))"
    using load_dumped state_doc_content [of other] by fastforce
  then show ?thesis using load_dumped persist_upto_ok(2) [OF inv] by simp
qed

text \<open>A first disk with a state file; a write is broken off by a failure after the rename that leaves the
  old directory.\<close>

definition demo_disk :: disk where
  "demo_disk = \<lparr>nodes = [(json_dump ''a'', True)], views = [[(STATE_FILE, 0)]]\<rparr>"

theorem state_file_crash_safe_witness:
  "load_persisted_profile (state_doc (\<lambda>_. Inl ValueError)
     (power_failure 1 (\<lambda>_. ''?'') (persist_upto 5 [] ''b'' demo_disk))) \<in> {JStr ''a'', JStr ''b''} \<and>
   load_persisted_profile (state_doc (\<lambda>_. Inl ValueError) (persist_upto 5 [] ''c''
     (power_failure 1 (\<lambda>_. ''?'') (persist_upto 5 [] ''b'' demo_disk)))) = JStr ''c''"
proof -
  let ?other = "\<lambda>_. Inl ValueError" and ?d = "persist_upto 5 [] ''b'' demo_disk"
  have c: "content demo_disk = Some (json_dump ''a'')"
    by (simp add: content_def read_file_def entry_def demo_disk_def)
  have ok: "disk_ok {content demo_disk} demo_disk"
    unfolding c by (simp add: disk_ok_def view_ok_def entry_def demo_disk_def)
  have len: "1 < length (views ?d)"
    by (simp add: persist_upto_def persist_steps_def demo_disk_def make_dirs_def open_write_def write_text_def fsync_file_def
        replace_file_def set_node_def entry_def)
  let ?s0 = "\<lparr>sf_disk = demo_disk, sf_keys = []\<rparr>"
  have 0: "reach (sf_init demo_disk) sf_step ?s0"
    using ok by (intro reach_init) (simp add: sf_init_def)
  have 1: "reach (sf_init demo_disk) sf_step \<lparr>sf_disk = ?d, sf_keys = [''b'']\<rparr>"
    using reach_step [OF 0 sf_persist [of "''b''" ?s0 5 "[]"]] by simp
  have 2: "reach (sf_init demo_disk) sf_step \<lparr>sf_disk = power_failure 1 (\<lambda>_. ''?'') ?d, sf_keys = [''b'']\<rparr>"
    using reach_step [OF 1 sf_crash [of 1 _ "\<lambda>_. ''?''"]] len by simp
  show ?thesis
    using state_file_crash_safe [OF 2, of ?other "''c''" "[]"] load_dumped [OF c, of ?other] by auto
qed

end
