(* ===== verification/Runtime.thy ===== *)
theory Runtime
  imports Effects
begin

text \<open>
  What the process keeps open beside its requests: the polling task of the VRAM monitor
  (\<open>gateway/vram_monitor.py\<close>), the watchdog task, the swap and drain tasks and the life span of the application
  (\<open>gateway/app.py\<close>), the HTTP session of the proxy (\<open>gateway/proxy.py\<close>) and the shared session of
  the health checks (\<open>gateway/orchestrator.py\<close>).  The objects live on two heaps, tasks and
  sessions, a reference is an index.
\<close>

section \<open>Tasks and sessions\<close>

text \<open>A task runs or has ended, normally or with an exception; a session is open or closed.  Two
  tasks run a loop without end; the others, of \<open>_execute_swap_and_drain\<close> and
  \<open>_drain_buffered_requests\<close>, end by themselves.\<close>

datatype task_kind = PollLoop | WatchdogLoop | SwapOrDrain

datatype atask = Running | Ended "exn option"

record runtime_state =
  rt_tasks :: "(task_kind \<times> atask) list"
  rt_sessions :: "bool list"
  vm_running :: bool
  vm_task :: "nat option"
  px_session :: "nat option"
  os_health :: "nat option"

text \<open>The constructors of the three singletons, as the module creates them.\<close>

definition runtime_init :: runtime_state where
  "runtime_init = \<lparr>rt_tasks = [], rt_sessions = [], vm_running = False, vm_task = None, px_session = None, os_health = None\<rparr>"

text \<open>\<open>asyncio.create_task\<close>, and \<open>aiohttp.ClientSession()\<close> with its \<open>close\<close>.\<close>

definition spawn :: "task_kind \<Rightarrow> (runtime_state, nat) eff" where
  "spawn k = (\<lambda>s. (Inr (length (rt_tasks s)), s\<lparr>rt_tasks := rt_tasks s @ [(k, Running)]\<rparr>))"

definition ClientSession :: "(runtime_state, nat) eff" where
  "ClientSession s = (Inr (length (rt_sessions s)), s\<lparr>rt_sessions := rt_sessions s @ [True]\<rparr>)"

definition session_close :: "nat \<Rightarrow> (runtime_state, unit) eff" where
  "session_close i = modify (\<lambda>s. s\<lparr>rt_sessions := (rt_sessions s)[i := False]\<rparr>)"

text \<open>\<open>task.cancel()\<close>, then \<open>await task\<close> with \<open>CancelledError\<close> swallowed.  It is used for the two loops
  only, which let a cancellation through, so a running task ends with it; one that has ended is left
  as it is, and an exception it ended with is raised here.  What other tasks do during the wait is
  put after it.\<close>

definition cancel_and_wait :: "nat \<Rightarrow> (runtime_state, unit) eff" where
  "cancel_and_wait i = (\<lambda>s. case snd (rt_tasks s ! i) of
       Running \<Rightarrow> (Inr (), s\<lparr>rt_tasks := (rt_tasks s)[i := (fst (rt_tasks s ! i), Ended (Some CancelledError))]\<rparr>)
     | Ended None \<Rightarrow> (Inr (), s)
     | Ended (Some e) \<Rightarrow> (if e = CancelledError then Inr () else Inl e, s))"

section \<open>The components\<close>

text \<open>\<open>VRAMMonitor.start\<close> and \<open>stop\<close>.\<close>

definition monitor_start :: "(runtime_state, unit) eff" where
  "monitor_start = bind (gets vm_running) (\<lambda>b. if b then ret ()
     else seq (modify (\<lambda>s. s\<lparr>vm_running := True\<rparr>))
       (bind (spawn PollLoop) (\<lambda>i. modify (\<lambda>s. s\<lparr>vm_task := Some i\<rparr>))))"

definition monitor_stop :: "(runtime_state, unit) eff" where
  "monitor_stop = seq (modify (\<lambda>s. s\<lparr>vm_running := False\<rparr>))
     (bind (gets vm_task) (\<lambda>t. case t of None \<Rightarrow> ret () | Some i \<Rightarrow> cancel_and_wait i))"

text \<open>\<open>InferenceProxy.startup\<close> and \<open>shutdown\<close>.\<close>

definition proxy_startup :: "(runtime_state, unit) eff" where
  "proxy_startup = bind ClientSession (\<lambda>i. modify (\<lambda>s. s\<lparr>px_session := Some i\<rparr>))"

definition proxy_shutdown :: "(runtime_state, unit) eff" where
  "proxy_shutdown = bind (gets px_session) (\<lambda>x. case x of None \<Rightarrow> ret () | Some i \<Rightarrow> session_close i)"

text \<open>\<open>ContainerOrchestrator._health_session\<close> and \<open>aclose\<close>.\<close>

definition health_session :: "(runtime_state, nat) eff" where
  "health_session = bind (gets (\<lambda>s. (os_health s, rt_sessions s))) (\<lambda>(x, open_flags). case x of
       Some i \<Rightarrow> if open_flags ! i then ret i else bind ClientSession (\<lambda>j. seq (modify (\<lambda>s. s\<lparr>os_health := Some j\<rparr>)) (ret j))
     | None \<Rightarrow> bind ClientSession (\<lambda>j. seq (modify (\<lambda>s. s\<lparr>os_health := Some j\<rparr>)) (ret j)))"

definition aclose :: "(runtime_state, unit) eff" where
  "aclose = seq (bind (gets (\<lambda>s. (os_health s, rt_sessions s))) (\<lambda>(x, open_flags). case x of
       Some i \<Rightarrow> if open_flags ! i then session_close i else ret ()
     | None \<Rightarrow> ret ()))
     (modify (\<lambda>s. s\<lparr>os_health := None\<rparr>))"

section \<open>The life span of the application\<close>

text \<open>What the other tasks do between two steps of the life span: a health check asks for the session, a
  swap or drain task is created, the task \<open>i\<close>, if it is one of those, ends by itself.\<close>

datatype event = Probe | Spawn | Finish nat "exn option"

definition finish_task :: "nat \<Rightarrow> exn option \<Rightarrow> (task_kind \<times> atask) list \<Rightarrow> (task_kind \<times> atask) list" where
  "finish_task i x ts = (if i < length ts \<and> ts ! i = (SwapOrDrain, Running) then ts[i := (SwapOrDrain, Ended x)] else ts)"

fun happen :: "event \<Rightarrow> (runtime_state, unit) eff" where
  "happen Probe = seq health_session (ret ())"
| "happen Spawn = seq (spawn SwapOrDrain) (ret ())"
| "happen (Finish i x) = modify (\<lambda>s. s\<lparr>rt_tasks := finish_task i x (rt_tasks s)\<rparr>)"

abbreviation happen_all :: "event list \<Rightarrow> (runtime_state, unit) eff" where
  "happen_all es \<equiv> for_each es happen"

text \<open>The end of \<open>lifespan\<close>, with what happens between its steps.\<close>

definition shut_down :: "event list \<Rightarrow> event list \<Rightarrow> event list \<Rightarrow> nat \<Rightarrow> (runtime_state, unit) eff" where
  "shut_down es1 es2 es3 watchdog =
     seq (cancel_and_wait watchdog) (seq (happen_all es1)
     (seq monitor_stop (seq (happen_all es2)
     (seq proxy_shutdown (seq (happen_all es3) aclose)))))"

text \<open>\<open>lifespan\<close>; \<open>r\<close> is the outcome of the startup between its lines, \<open>n\<close> counts the health
  checks of the startup, \<open>es\<close> is what happens while the application runs.\<close>

fun probes :: "nat \<Rightarrow> (runtime_state, unit) eff" where
  "probes 0 = ret ()"
| "probes (Suc n) = seq health_session (probes n)"

definition lifespan :: "nat \<Rightarrow> exn + unit \<Rightarrow> event list \<Rightarrow> event list \<Rightarrow> event list \<Rightarrow> event list \<Rightarrow> (runtime_state, unit) eff" where
  "lifespan n r es es1 es2 es3 = seq monitor_start (seq proxy_startup (seq (probes n) (case r of
       Inl e \<Rightarrow> throw e
     | Inr _ \<Rightarrow> bind (spawn WatchdogLoop) (\<lambda>watchdog. seq (happen_all es) (shut_down es1 es2 es3 watchdog)))))"

section \<open>What stays open\<close>

definition open_sessions :: "runtime_state \<Rightarrow> nat set" where
  "open_sessions s = {i. i < length (rt_sessions s) \<and> rt_sessions s ! i}"

definition running_tasks :: "runtime_state \<Rightarrow> nat set" where
  "running_tasks s = {i. i < length (rt_tasks s) \<and> snd (rt_tasks s ! i) = Running}"

text \<open>What becomes of the swap and drain tasks when nothing but themselves ends them.\<close>

fun fates :: "event list \<Rightarrow> (task_kind \<times> atask) list \<Rightarrow> (task_kind \<times> atask) list" where
  "fates [] ts = ts"
| "fates (Probe # es) ts = fates es ts"
| "fates (Spawn # es) ts = fates es (ts @ [(SwapOrDrain, Running)])"
| "fates (Finish i x # es) ts = fates es (finish_task i x ts)"

lemma fates_append: "fates (es @ es') ts = fates es' (fates es ts)"
  by (induction es ts rule: fates.induct) simp_all

text \<open>Events leave the tasks of the two loops alone.\<close>

lemma fates_loop:
  "i < length ts \<Longrightarrow> fst (ts ! i) \<noteq> SwapOrDrain \<Longrightarrow> k \<noteq> SwapOrDrain \<Longrightarrow>
   i < length (fates es ts) \<and> fates es ts ! i = ts ! i \<and> fates es (ts[i := (k, x)]) = (fates es ts)[i := (k, x)]"
proof (induction es ts rule: fates.induct)
  case (3 es ts)
  then show ?case by (simp add: nth_append list_update_append1)
next
  case (4 j y es ts)
  have "finish_task j y (ts[i := (k, x)]) = (finish_task j y ts)[i := (k, x)]"
    using 4(2-4) by (cases "j = i") (auto simp: finish_task_def list_update_swap)
  moreover have "finish_task j y ts ! i = ts ! i" "length (finish_task j y ts) = length ts"
    using 4(3) by (auto simp: finish_task_def nth_list_update)
  ultimately show ?case using 4 by simp
qed simp_all

lemmas fates_length = fates_loop [THEN conjunct1]
lemmas fates_nth = fates_loop [THEN conjunct2, THEN conjunct1]

text \<open>While the application runs: the session of the proxy is the first one, the health session the
  second, if there is one.  \<open>px\<close> tells whether the proxy's session is still open.\<close>

definition serving :: "bool \<Rightarrow> bool \<Rightarrow> (task_kind \<times> atask) list \<Rightarrow> runtime_state \<Rightarrow> bool" where
  "serving on px ts s = (rt_tasks s = ts \<and> vm_running s = on \<and> vm_task s = Some 0 \<and> px_session s = Some 0 \<and>
     (rt_sessions s = [px] \<and> os_health s = None \<or> rt_sessions s = [px, True] \<and> os_health s = Some 1))"

lemma serving_probe: "serving on px ts s \<Longrightarrow> \<exists>i s'. health_session s = (Inr i, s') \<and> serving on px ts s'"
  by (auto simp: serving_def health_session_def bind_def gets_def ret_def modify_def ClientSession_def)

lemma serving_probes: "serving on px ts s \<Longrightarrow> \<exists>s'. probes n s = (Inr (), s') \<and> serving on px ts s'"
proof (induction n arbitrary: s)
  case 0
  then show ?case by (simp add: ret_def)
next
  case (Suc n)
  obtain i s1 where s1: "health_session s = (Inr i, s1)" "serving on px ts s1" using serving_probe [OF Suc.prems] by blast
  then show ?case using Suc.IH [OF s1(2)] by (simp add: bind_def)
qed

lemma serving_event: "serving on px ts s \<Longrightarrow> \<exists>s'. happen e s = (Inr (), s') \<and> serving on px (fates [e] ts) s'"
proof (cases e)
  case Probe
  assume "serving on px ts s"
  then obtain i s' where "health_session s = (Inr i, s')" "serving on px ts s'" using serving_probe by blast
  then show ?thesis by (simp add: Probe bind_def ret_def)
qed (auto simp: serving_def spawn_def bind_def ret_def modify_def)

lemma serving_events: "serving on px ts s \<Longrightarrow> \<exists>s'. happen_all es s = (Inr (), s') \<and> serving on px (fates es ts) s'"
proof (induction es arbitrary: ts s)
  case Nil
  then show ?case by (simp add: ret_def)
next
  case (Cons e es)
  obtain s1 where s1: "happen e s = (Inr (), s1)" "serving on px (fates [e] ts) s1" using serving_event [OF Cons.prems] by blast
  have "fates (e # es) ts = fates es (fates [e] ts)" using fates_append [of "[e]" es ts] by simp
  with Cons.IH [OF s1(2)] s1(1) show ?case by (simp add: bind_def)
qed

lemma monitor_proxy_start:
  "seq monitor_start proxy_startup runtime_init = (Inr (), \<lparr>rt_tasks = [(PollLoop, Running)], rt_sessions = [True],
     vm_running = True, vm_task = Some 0, px_session = Some 0, os_health = None\<rparr>)"
  by (simp add: monitor_start_def proxy_startup_def runtime_init_def bind_def gets_def modify_def spawn_def ClientSession_def)


abbreviation cancelled :: atask where
  "cancelled \<equiv> Ended (Some CancelledError)"

lemma shut_down_serving:
  assumes "serving True True ts s" "2 \<le> length ts" "ts ! 0 = (PollLoop, Running)" "ts ! 1 = (WatchdogLoop, Running)"
  shows "\<exists>s'. shut_down es1 es2 es3 1 s = (Inr (), s') \<and> open_sessions s' = {} \<and> \<not> vm_running s' \<and> os_health s' = None \<and>
    rt_tasks s' = (fates (es1 @ es2 @ es3) ts)[1 := (WatchdogLoop, cancelled), 0 := (PollLoop, cancelled)]"
proof -
  let ?t1 = "fates es1 (ts[1 := (WatchdogLoop, cancelled)])"
  have loops: "0 < length ts" "1 < length ts" "fst (ts ! 0) \<noteq> SwapOrDrain" "fst (ts ! 1) \<noteq> SwapOrDrain"
    using assms by auto
  have watchdog: "cancel_and_wait 1 s = (Inr (), s\<lparr>rt_tasks := ts[1 := (WatchdogLoop, cancelled)]\<rparr>)"
    using assms(1,4) by (simp add: cancel_and_wait_def serving_def)
  have "serving True True (ts[1 := (WatchdogLoop, cancelled)]) (s\<lparr>rt_tasks := ts[1 := (WatchdogLoop, cancelled)]\<rparr>)"
    using assms(1) by (auto simp: serving_def)
  from serving_events [OF this] obtain s1 where s1: "happen_all es1 (s\<lparr>rt_tasks := ts[1 := (WatchdogLoop, cancelled)]\<rparr>) = (Inr (), s1)"
    "serving True True ?t1 s1" by blast
  have poll: "0 < length ?t1" "?t1 ! 0 = (PollLoop, Running)"
    using fates_length [of 0 "ts[1 := (WatchdogLoop, cancelled)]" PollLoop es1]
      fates_nth [of 0 "ts[1 := (WatchdogLoop, cancelled)]" PollLoop es1] assms loops by auto
  let ?s2 = "s1\<lparr>vm_running := False, rt_tasks := ?t1[0 := (PollLoop, cancelled)]\<rparr>"
  have stop: "monitor_stop s1 = (Inr (), ?s2)"
    using s1(2) poll by (auto simp: serving_def monitor_stop_def cancel_and_wait_def bind_def gets_def modify_def)
  have "serving False True (?t1[0 := (PollLoop, cancelled)]) ?s2" using s1(2) by (auto simp: serving_def)
  from serving_events [OF this] obtain s3 where s3: "happen_all es2 ?s2 = (Inr (), s3)"
    "serving False True (fates es2 (?t1[0 := (PollLoop, cancelled)])) s3" by blast
  let ?s4 = "s3\<lparr>rt_sessions := (rt_sessions s3)[0 := False]\<rparr>"
  have proxy: "proxy_shutdown s3 = (Inr (), ?s4)"
    using s3(2) by (auto simp: serving_def proxy_shutdown_def session_close_def bind_def gets_def modify_def)
  have "serving False False (fates es2 (?t1[0 := (PollLoop, cancelled)])) ?s4" using s3(2) by (auto simp: serving_def)
  from serving_events [OF this] obtain s5 where s5: "happen_all es3 ?s4 = (Inr (), s5)"
    "serving False False (fates es3 (fates es2 (?t1[0 := (PollLoop, cancelled)]))) s5" by blast
  obtain s6 where s6: "aclose s5 = (Inr (), s6)" "open_sessions s6 = {}" "\<not> vm_running s6" "os_health s6 = None" "rt_tasks s6 = rt_tasks s5"
    using s5(2) by (auto simp: serving_def aclose_def session_close_def bind_def gets_def modify_def ret_def open_sessions_def
        less_Suc_eq nth_Cons')
  have "shut_down es1 es2 es3 1 s = (Inr (), s6)"
    by (simp only: shut_down_def bind_def watchdog s1(1) stop s3(1) proxy s5(1) s6(1) prod.case sum.case)
  moreover have "rt_tasks s6 = (fates (es1 @ es2 @ es3) ts)[1 := (WatchdogLoop, cancelled), 0 := (PollLoop, cancelled)]"
    using s5(2) s6(5) fates_loop [OF loops(2,4), of WatchdogLoop es1 cancelled] fates_loop [OF loops(1,3), of PollLoop es1 cancelled]
      fates_loop [of 0 "(fates es1 ts)[1 := (WatchdogLoop, cancelled)]" PollLoop "es2 @ es3" cancelled]
      fates_loop [of 1 "fates es1 ts" WatchdogLoop "es2 @ es3" cancelled] loops
    by (simp add: serving_def fates_append)
  ultimately show ?thesis using s6 by blast
qed

text \<open>After the end there is no session left to close: the first health check opens one, later ones
  reuse it, and nothing closes it.\<close>

definition leaked :: "runtime_state \<Rightarrow> bool" where
  "leaked s = (\<exists>i. os_health s = Some i \<and> open_sessions s = {i})"

lemma leaked_event: "leaked s \<Longrightarrow> leaked (snd (happen e s))"
  by (cases e) (auto simp: leaked_def open_sessions_def health_session_def spawn_def bind_def gets_def modify_def ret_def)

lemma late_probe:
  assumes "os_health s = None" "open_sessions s = {}"
  shows "leaked (snd (health_session s))"
proof -
  have "snd (health_session s) = s\<lparr>rt_sessions := rt_sessions s @ [True], os_health := Some (length (rt_sessions s))\<rparr>"
    using assms(1) by (simp add: health_session_def bind_def gets_def ClientSession_def modify_def ret_def)
  moreover have "open_sessions (s\<lparr>rt_sessions := rt_sessions s @ [True], os_health := x\<rparr>) = {length (rt_sessions s)}" for x
    using assms(2) by (auto simp: open_sessions_def nth_append less_Suc_eq)
  ultimately show ?thesis by (simp add: leaked_def)
qed

lemma happen_all_Cons: "snd (happen_all (e # es) s) = snd (happen_all es (snd (happen e s)))"
proof -
  have "fst (happen e s) = Inr ()"
    by (cases e) (auto simp: health_session_def ClientSession_def spawn_def bind_def gets_def modify_def ret_def split: option.splits)
  then show ?thesis by (cases "happen e s") (simp add: bind_def)
qed

lemma leaked_stays: "leaked s \<Longrightarrow> leaked (snd (happen_all es s))"
  by (induction es arbitrary: s) (simp_all only: happen_all_Cons leaked_event, simp add: ret_def)

lemma late_events:
  assumes "os_health s = None" "open_sessions s = {}"
  shows "if Probe \<in> set es then leaked (snd (happen_all es s)) else open_sessions (snd (happen_all es s)) = {}"
  using assms
proof (induction es arbitrary: s)
  case Nil
  then show ?case by (simp add: ret_def)
next
  case (Cons e es)
  show ?case
  proof (cases e)
    case Probe
    have "snd (happen Probe s) = snd (health_session s)"
      by (auto simp: bind_def ret_def split: prod.splits sum.splits)
    then show ?thesis using leaked_stays [OF late_probe [OF Cons.prems]] unfolding Probe happen_all_Cons by simp
  next
    case Spawn
    have "os_health (snd (happen Spawn s)) = None" "open_sessions (snd (happen Spawn s)) = {}"
      using Cons.prems by (simp_all add: spawn_def bind_def ret_def open_sessions_def)
    then show ?thesis using Cons.IH unfolding Spawn happen_all_Cons by simp
  next
    case (Finish i x)
    have "os_health (snd (happen (Finish i x) s)) = None" "open_sessions (snd (happen (Finish i x) s)) = {}"
      using Cons.prems by (simp_all add: modify_def open_sessions_def)
    then show ?thesis using Cons.IH unfolding Finish happen_all_Cons by simp
  qed
qed


end
