(* ===== verification/Diffusion.thy ===== *)
theory Diffusion
  imports Shell
begin

text \<open>
  The two inference servers for pictures and videos, \<open>inference/flux_server.py\<close> and
  \<open>inference/ltx_server.py\<close>.  The pipelines, the generator of \<open>torch\<close>, the PNG writer and the video
  writer are parameters: functions of exactly the arguments the code passes.  A value of \<open>random\<close> and
  the measured time are arguments of the handler.  The pipeline of a server is \<open>None\<close> until it is loaded.
\<close>

section \<open>Requests and what the pipelines get\<close>

record flux_request =
  fx_prompt :: string
  fx_negative_prompt :: string
  fx_width :: int
  fx_height :: int
  fx_steps :: int
  fx_cfg_scale :: rat
  fx_seed :: "int option"
  fx_agent_id :: "string option"

record ltx_request =
  lx_prompt :: string
  lx_negative_prompt :: string
  lx_width :: int
  lx_height :: int
  lx_num_frames :: int
  lx_fps :: int
  lx_steps :: int
  lx_cfg_scale :: rat
  lx_seed :: "int option"
  lx_agent_id :: "string option"

text \<open>A request that gives only the prompt.\<close>

definition flux_defaults :: "string \<Rightarrow> flux_request" where
  "flux_defaults p = \<lparr>fx_prompt = p, fx_negative_prompt = [], fx_width = 1024, fx_height = 1024, fx_steps = 30,
     fx_cfg_scale = 15 / 2, fx_seed = None, fx_agent_id = None\<rparr>"

definition ltx_defaults :: "string \<Rightarrow> ltx_request" where
  "ltx_defaults p = \<lparr>lx_prompt = p, lx_negative_prompt = [], lx_width = 768, lx_height = 512, lx_num_frames = 81,
     lx_fps = 24, lx_steps = 50, lx_cfg_scale = 7, lx_seed = None, lx_agent_id = None\<rparr>"

text \<open>The keyword arguments of the calls \<open>pipe(...)\<close>; an empty negative prompt is passed as \<open>None\<close>.\<close>

record 'g pipe_args =
  pa_prompt :: string
  pa_negative :: "string option"
  pa_width :: int
  pa_height :: int
  pa_frames :: "int option"
  pa_steps :: int
  pa_guidance :: rat
  pa_generator :: 'g

definition or_None :: "string \<Rightarrow> string option" where
  "or_None s = (if s = [] then None else Some s)"

definition flux_args :: "flux_request \<Rightarrow> 'g \<Rightarrow> 'g pipe_args" where
  "flux_args r g = \<lparr>pa_prompt = fx_prompt r, pa_negative = or_None (fx_negative_prompt r), pa_width = fx_width r,
     pa_height = fx_height r, pa_frames = None, pa_steps = fx_steps r, pa_guidance = fx_cfg_scale r, pa_generator = g\<rparr>"

definition ltx_args :: "ltx_request \<Rightarrow> 'g \<Rightarrow> 'g pipe_args" where
  "ltx_args r g = \<lparr>pa_prompt = lx_prompt r, pa_negative = or_None (lx_negative_prompt r), pa_width = lx_width r,
     pa_height = lx_height r, pa_frames = Some (lx_num_frames r), pa_steps = lx_steps r,
     pa_guidance = lx_cfg_scale r, pa_generator = g\<rparr>"

text \<open>The seed asked for, or the number \<open>drawn\<close> by \<open>random.randint(0, 2**32 - 1)\<close>.\<close>

definition seed_of :: "int option \<Rightarrow> int \<Rightarrow> int" where
  "seed_of seed drawn = (case seed of Some s \<Rightarrow> s | None \<Rightarrow> drawn)"

definition not_loaded :: exn where
  "not_loaded = HTTPException 503 ''Model not loaded yet''"

section \<open>The handlers\<close>

text \<open>\<open>load_model\<close>, run once at the start: the global is assigned before the model is moved to the device, so
  it stays assigned when \<open>place\<close> raises.\<close>

definition load_model :: "exn + 'p \<Rightarrow> ('p \<Rightarrow> exn + unit) \<Rightarrow> 'p option \<Rightarrow> (exn + unit) \<times> 'p option" where
  "load_model from_pretrained place pipe = (case from_pretrained of
       Inl e \<Rightarrow> (Inl e, pipe)
     | Inr p \<Rightarrow> (place p, Some p))"

text \<open>\<open>health\<close>: the status code, the field \<open>status\<close> and the field \<open>ready\<close>.\<close>

definition flux_health :: "'p option \<Rightarrow> nat \<times> string \<times> bool" where
  "flux_health pipe = (if pipe \<noteq> None then (200, ''ok'', True) else (503, ''loading'', False))"

definition ltx_health :: "'p option \<Rightarrow> nat \<times> string \<times> bool" where
  "ltx_health pipe = (200, ''ok'', pipe \<noteq> None)"

record flux_answer =
  fa_images :: "string list"
  fa_seed :: int
  fa_width :: int
  fa_height :: int
  fa_time_ms :: rat

text \<open>\<open>generate\<close> of the picture server; \<open>png\<close> is \<open>image.save\<close> into memory.\<close>

definition flux_generate ::
  "('g pipe_args \<Rightarrow> exn + 'i list) option \<Rightarrow> (int \<Rightarrow> exn + 'g) \<Rightarrow> ('i \<Rightarrow> exn + string) \<Rightarrow>
   int \<Rightarrow> rat \<Rightarrow> flux_request \<Rightarrow> exn + flux_answer" where
  "flux_generate pipe manual_seed png drawn elapsed r = (case pipe of
       None \<Rightarrow> Inl not_loaded
     | Some run \<Rightarrow> let seed = seed_of (fx_seed r) drawn in
         and_then (manual_seed seed) (\<lambda>g. and_then (run (flux_args r g)) (\<lambda>images. case images of
             [] \<Rightarrow> Inl IndexError
           | im # _ \<Rightarrow> and_then (png im) (\<lambda>bytes. Inr \<lparr>fa_images = [b64encode bytes], fa_seed = seed,
               fa_width = fx_width r, fa_height = fx_height r, fa_time_ms = elapsed\<rparr>))))"

text \<open>The frames of a result: a list of videos or the list of frames of one.\<close>

datatype 'i frame_item = FrameList "'i list" | OneFrame 'i

definition frames_of :: "'i frame_item list \<Rightarrow> exn + 'i frame_item list" where
  "frames_of frames = (case frames of [] \<Rightarrow> Inl IndexError
     | FrameList fs # _ \<Rightarrow> Inr (map OneFrame fs)
     | OneFrame f # _ \<Rightarrow> Inr frames)"

record ltx_answer =
  la_video :: string
  la_fps :: int
  la_num_frames :: nat
  la_width :: int
  la_height :: int
  la_seed :: int
  la_time_ms :: rat

text \<open>\<open>generate\<close> of the video server, with the temporary files it leaves behind: \<open>tmp\<close> is the fresh
  name, \<open>video\<close> the writer from its opening to its \<open>close\<close> and the reading of the file.  The file is
  removed only after that.\<close>

definition ltx_generate ::
  "('g pipe_args \<Rightarrow> exn + 'i frame_item list) option \<Rightarrow> (int \<Rightarrow> exn + 'g) \<Rightarrow> (int \<Rightarrow> 'i frame_item list \<Rightarrow> exn + string) \<Rightarrow>
   int \<Rightarrow> rat \<Rightarrow> string \<Rightarrow> ltx_request \<Rightarrow> string list \<Rightarrow> (exn + ltx_answer) \<times> string list" where
  "ltx_generate pipe manual_seed video drawn elapsed tmp r files = (case pipe of
       None \<Rightarrow> (Inl not_loaded, files)
     | Some run \<Rightarrow> let seed = seed_of (lx_seed r) drawn in
         (case and_then (manual_seed seed) (\<lambda>g. and_then (run (ltx_args r g)) frames_of) of
            Inl e \<Rightarrow> (Inl e, files)
          | Inr frames \<Rightarrow> (case video (lx_fps r) frames of
                Inl e \<Rightarrow> (Inl e, tmp # files)
              | Inr bytes \<Rightarrow> (Inr \<lparr>la_video = b64encode bytes, la_fps = lx_fps r, la_num_frames = length frames,
                  la_width = lx_width r, la_height = lx_height r, la_seed = seed, la_time_ms = elapsed\<rparr>,
                  remove1 tmp (tmp # files)))))"

section \<open>What an answer is worth\<close>

lemma flux_answer_cases:
  assumes "flux_generate (Some run) manual_seed png drawn elapsed r = Inr a"
  obtains g im images bytes where "manual_seed (fa_seed a) = Inr g" "run (flux_args r g) = Inr (im # images)"
    "png im = Inr bytes" "fa_images a = [b64encode bytes]" "fa_seed a = seed_of (fx_seed r) drawn"
    "fa_width a = fx_width r" "fa_height a = fx_height r" "fa_time_ms a = elapsed"
  using assms by (auto simp: flux_generate_def Let_def elim!: and_then_InrE split: list.splits)

lemma ltx_answer_cases:
  assumes "ltx_generate (Some run) manual_seed video drawn elapsed tmp r files = (Inr a, files')"
  obtains g items frames bytes where "manual_seed (la_seed a) = Inr g" "run (ltx_args r g) = Inr items"
    "frames_of items = Inr frames" "video (lx_fps r) frames = Inr bytes" "la_video a = b64encode bytes"
    "la_num_frames a = length frames" "la_seed a = seed_of (lx_seed r) drawn" "la_fps a = lx_fps r"
    "la_width a = lx_width r" "la_height a = lx_height r" "la_time_ms a = elapsed" "files' = files"
  using assms by (auto simp: ltx_generate_def Let_def elim!: and_then_InrE split: sum.splits)

lemma args_seed [simp]: "flux_args (r\<lparr>fx_seed := x\<rparr>) g = flux_args r g" "ltx_args (v\<lparr>lx_seed := x\<rparr>) g = ltx_args v g"
  by (simp_all add: flux_args_def ltx_args_def)

text \<open>The seed in an answer of the picture server is the key to it: asked again with that seed, at any
  time and whatever number is drawn, the server gives the same picture, and decoding the answer
  gives the bytes of the picture the pipeline made for exactly this request and seed.
\<close>

theorem flux_reproducible:
  assumes "flux_generate (Some run) manual_seed png drawn elapsed r = Inr a"
  shows "flux_generate (Some run) manual_seed png drawn' elapsed' (r\<lparr>fx_seed := Some (fa_seed a)\<rparr>) = Inr (a\<lparr>fa_time_ms := elapsed'\<rparr>) \<and>
    (\<exists>g im images. manual_seed (fa_seed a) = Inr g \<and> run (flux_args r g) = Inr (im # images) \<and>
       map_option Inr (b64decode (hd (fa_images a))) = Some (png im)) \<and>
    fa_seed a = (case fx_seed r of Some s \<Rightarrow> s | None \<Rightarrow> drawn)"
proof -
  obtain g im images bytes where a: "manual_seed (fa_seed a) = Inr g" "run (flux_args r g) = Inr (im # images)"
    "png im = Inr bytes" "fa_images a = [b64encode bytes]" "fa_seed a = seed_of (fx_seed r) drawn"
    "fa_width a = fx_width r" "fa_height a = fx_height r" "fa_time_ms a = elapsed"
    using flux_answer_cases [OF assms] .
  have "flux_generate (Some run) manual_seed png drawn' elapsed' (r\<lparr>fx_seed := Some (fa_seed a)\<rparr>) =
      Inr (a\<lparr>fa_time_ms := elapsed'\<rparr>)"
    using a(1-4,6,7) by (simp add: flux_generate_def seed_of_def)
  then show ?thesis using a b64_decode_encode by (auto simp: seed_of_def)
qed

definition demo_run :: "int pipe_args \<Rightarrow> exn + int list" where
  "demo_run a = Inr [pa_generator a + pa_steps a]"

definition demo_png :: "int \<Rightarrow> exn + string" where
  "demo_png i = Inr (if i = 42 then ''P'' else ''Q'')"

theorem flux_reproducible_witness:
  "flux_generate (Some demo_run) Inr demo_png 7 1 ((flux_defaults ''cat'')\<lparr>fx_seed := Some 12\<rparr>) =
   Inr \<lparr>fa_images = [b64encode ''P''], fa_seed = 12, fa_width = 1024, fa_height = 1024, fa_time_ms = 1\<rparr>"
proof -
  have "flux_generate (Some demo_run) Inr demo_png 12 3 (flux_defaults ''cat'') =
      Inr \<lparr>fa_images = [b64encode ''P''], fa_seed = 12, fa_width = 1024, fa_height = 1024, fa_time_ms = 3\<rparr>"
    by (simp add: flux_generate_def demo_run_def demo_png_def seed_of_def flux_args_def flux_defaults_def)
  from flux_reproducible [OF this, of 7 1] show ?thesis by simp
qed

text \<open>The video server, on every outcome: before the model is loaded it answers 503 though its health
  endpoint says 200; an answer repeats the frame rate and size of the request, counts the frames really
  written, can be reproduced with its seed and leaves no file; an exception of the video writer
  leaves the temporary file behind.
\<close>

theorem ltx_outcomes:
  "fst (ltx_generate None manual_seed video drawn elapsed tmp r files) = Inl not_loaded \<and>
   fst (ltx_health None) = (200 :: nat) \<and> fst (flux_health None) = (503 :: nat) \<and>
   (case ltx_generate (Some run) manual_seed video drawn elapsed tmp r files of
      (Inr a, files') \<Rightarrow> files' = files \<and> la_fps a = lx_fps r \<and> la_width a = lx_width r \<and> la_height a = lx_height r \<and>
        (\<exists>frames bytes. video (lx_fps r) frames = Inr bytes \<and> la_num_frames a = length frames \<and>
           b64decode (la_video a) = Some bytes) \<and>
        fst (ltx_generate (Some run) manual_seed video drawn' elapsed tmp' (r\<lparr>lx_seed := Some (la_seed a)\<rparr>) files') = Inr a
    | (Inl e, files') \<Rightarrow> files' = files \<or>
        files' = tmp # files \<and> (\<exists>frames. video (lx_fps r) frames = Inl e))"
proof -
  have ok: "files' = files \<and> la_fps a = lx_fps r \<and> la_width a = lx_width r \<and> la_height a = lx_height r \<and>
      (\<exists>frames bytes. video (lx_fps r) frames = Inr bytes \<and> la_num_frames a = length frames \<and>
         b64decode (la_video a) = Some bytes) \<and>
      fst (ltx_generate (Some run) manual_seed video drawn' elapsed tmp' (r\<lparr>lx_seed := Some (la_seed a)\<rparr>) files') = Inr a"
    if res: "ltx_generate (Some run) manual_seed video drawn elapsed tmp r files = (Inr a, files')" for a files'
  proof -
    obtain g items frames bytes where a: "manual_seed (la_seed a) = Inr g" "run (ltx_args r g) = Inr items"
      "frames_of items = Inr frames" "video (lx_fps r) frames = Inr bytes" "la_video a = b64encode bytes"
      "la_num_frames a = length frames" "la_seed a = seed_of (lx_seed r) drawn" "la_fps a = lx_fps r"
      "la_width a = lx_width r" "la_height a = lx_height r" "la_time_ms a = elapsed" "files' = files"
      using ltx_answer_cases [OF res] .
    have "fst (ltx_generate (Some run) manual_seed video drawn' elapsed tmp' (r\<lparr>lx_seed := Some (la_seed a)\<rparr>) files') = Inr a"
      using a(1-6,8-11) by (simp add: ltx_generate_def seed_of_def)
    then show ?thesis using a b64_decode_encode by auto
  qed
  have bad: "files' = files \<or> files' = tmp # files \<and> (\<exists>frames. video (lx_fps r) frames = Inl e)"
    if "ltx_generate (Some run) manual_seed video drawn elapsed tmp r files = (Inl e, files')" for e files'
    using that by (auto simp: ltx_generate_def Let_def split: sum.splits)
  show ?thesis
    using ok bad by (auto simp: ltx_generate_def ltx_health_def flux_health_def split: prod.splits sum.splits)
qed

end
