(* ===== verification/Spec2Isabelle.thy ===== *)
theory Spec2Isabelle
  imports Admission RequestBuffer Router Commands VramMonitor Backends Orchestrator Swap Lifecycle
    Serving Startup Proxy Identity App Endpoints ThermalGuard Harmony PatchGemma ForensicsLog NodeSensors CrashReport ChatFlow
    StateFile Runtime Diffusion
begin

text \<open>
  A model of the gateway of this repository: one FastAPI process that serves several large language
  models on two DGX Spark nodes, one profile of models at a time.  A chat request is identified
  (\<open>gateway/identity.py\<close>), routed to a profile and a model (\<open>gateway/router.py\<close>), admitted in
  batches of one profile (\<open>gateway/admission.py\<close>) and forwarded to the model's backend
  (\<open>gateway/proxy.py\<close>); if the profile is not loaded a swap task (\<open>gateway/app.py\<close>) has the
  orchestrator (\<open>gateway/orchestrator.py\<close>) stop the old models and start the new ones through
  Docker or Kubernetes (\<open>gateway/backends/\<close>), SSH and the models' health endpoints.

  How the code is translated.  Records, enumerations and classes are records and datatypes with the
  source's field names; dictionaries are association lists in insertion order (\<open>Prelude\<close>); Python
  exceptions are the datatype \<open>exn\<close>.  A function that only computes is a HOL function, a sum type if
  it raises.  A coroutine is a state-and-exception function (\<open>Effects\<close>) over the record of its
  object; what it calls outside the program is a parameter, a function of an abstract world
  that returns a result, the time it took and the next world, so every theorem holds for every
  behaviour of the outside.  Each such call is recorded in a trace with its arguments, and
  properties about what reaches the outside are statements about traces.  Tasks that interleave
  (admission, request buffer, swap tasks) are transition systems whose steps are the code between
  two awaits, with invariants by rule induction over the locale \<open>transition_system\<close> of \<open>Prelude\<close>.

  The theories, in the order of the imports.
  \<open>Prelude\<close>: exceptions, dictionaries, strings and the transition systems.
  \<open>Schemas\<close>, \<open>Config\<close>: \<open>gateway/schemas.py\<close>, \<open>gateway/config.py\<close>: data models, settings, the model
  catalog with its profiles, and its well-formedness.
  \<open>Admission\<close>: \<open>gateway/admission.py\<close>.  The queue's operations and all their interleavings:
  at most \<open>limit\<close> leases of one profile, first come first served, no lost wake-up, no leaked lease,
  and a refinement of an abstract admission rule.
  \<open>RequestBuffer\<close>: \<open>gateway/request_buffer.py\<close>.  The prefix cache refines a bounded
  least-recently-used store; a buffered request is never lost.
  \<open>Router\<close>: \<open>gateway/router.py\<close>.  Routing stays in the catalog, labels and names resolve as documented.
  \<open>Shell\<close>, \<open>Commands\<close>: the command lines and scripts of the orchestrator, and the quoting layers they
  pass: for single-line arguments and plain names a rank runs exactly the environment and the command
  that were meant, and a kill pattern selects only its model.
  \<open>Effects\<close>, \<open>Backends\<close>, \<open>VramMonitor\<close>, \<open>Orchestrator\<close>: the effect calculus, both backends over
  parametric clients with their contract as the locale \<open>runtime\<close>, the VRAM report, and every
  operation on workloads, swaps, adoption and Ray status.
  \<open>Swap\<close>, \<open>Lifecycle\<close>, \<open>Serving\<close>, \<open>Startup\<close>: what a swap guarantees on each outcome, that the gateway
  itself never acts on the shared containers, the order of stops and starts, the bound on waiting,
  and what the contract of the backends gives at startup.
  \<open>Identity\<close>, \<open>Proxy\<close>: \<open>gateway/identity.py\<close>, \<open>gateway/proxy.py\<close>.  When identification fails and what a
  label reveals; streams are passed on verbatim and never replayed, retries are bounded.
  \<open>App\<close>, \<open>Endpoints\<close>: \<open>gateway/app.py\<close>.  Swap tasks, the flow of a chat request and its lease, the
  watchdog, startup, the endpoints; these theories combine the components: \<open>serve_chat\<close> runs a chat
  request with the swap task it waits for, and what it dispatches is ready.
  \<open>ChatFlow\<close>: the whole life of a chat request, \<open>chat_completions\<close> of \<open>gateway/app.py\<close> with the two tasks
  and the streamed response of \<open>gateway/admission.py\<close>, as a transition system whose steps are those of
  \<open>Admission\<close> or leave the queue alone; so its invariants carry over, and a queue whose requests are all
  over is free.
  \<open>StateFile\<close>: the state file of the orchestrator on a disk that loses what was not synchronised; what
  \<open>Orchestrator\<close> records as one call is taken apart, and no power failure damages the file.
  \<open>Runtime\<close>: the background tasks and HTTP sessions over the life span of the application; the two loops
  and the sessions end with it, the swap and drain tasks do not.
  \<open>Harmony\<close>: \<open>harmony_stub/openai_harmony/\<close>.  Rendering, tokenising and the streaming parser: what is
  rendered is parsed back, and where it is not.
  \<open>PatchGemma\<close>: \<open>ray-cluster/patch_gemma4.py\<close> over a file system; every step is an instance of the locale
  \<open>text_patch\<close>, so a second run changes nothing.
  \<open>ThermalGuard\<close>: \<open>ops/thermal_guard.py\<close>, the governor as a state machine over readings: it answers heat in
  bounded time and does not oscillate.
  \<open>ForensicsLog\<close>, \<open>NodeSensors\<close>, \<open>CrashReport\<close>: \<open>ops/node_forensics.py\<close> and \<open>ops/crash_report.py\<close>, which
  share only the files of the log: the sessions written are the sessions read, across days, changed
  headers and appended files; rows fit their headers; a session that died is reported.
  \<open>Diffusion\<close>: the handlers of \<open>inference/\<close>; an answer decodes to what the pipeline made and can be
  reproduced with its seed.

  Bounds.  No definition needs fuel.  The waiting loop of the orchestrator terminates because its
  clock advances by the length of each sleep; the retry loops of the proxy and the wait for
  freed memory count their attempts; the loop of \<open>_promote\<close> shortens the queue; the rest is structural.

  Parameters.  Docker's and Kubernetes' clients, SSH, HTTP, NVML, the clock, pydantic's dump, the tiktoken
  encoding, the diffusion pipelines, \<open>nvidia-smi\<close> and the files under \<open>/sys\<close> and \<open>/proc\<close>.

  Not modelled.  The construction of the FastAPI application with its middleware, and logging, except the
  access log; two coroutines of the orchestrator interleaving within one operation (swaps are
  serialised by a lock, but the watchdog may run between two awaits of a swap); floating-point
  rounding, in particular in printed figures, and the exponents and \<open>nan\<close> that \<open>float()\<close> accepts; files are
  lists of lines; signal handlers and the command line of the scripts.  \<open>models/\<close> holds one assignment
  to an allocator of a third-party library.

  Simplifications.  A profile's key is found by comparing profiles where the code compares identities
  (the profiles of a well-formed catalog differ); orphaned containers are handled in the order of the scan
  where the code takes the order of a set; the Docker client raises only the errors its documentation names;
  a cancelled loop ends at once, and closing a session is one step.
\<close>

end
